(* ===== verification/Prelude.thy ===== *)
theory Prelude
  imports Main "HOL-Library.Word" "HOL-Library.Monad_Syntax"
begin

text \<open>
  Shared vocabulary of the development.

  Byte sequences (Go strings, Go byte slices, C strings, Rust \<^verbatim>\<open>String\<close> and \<^verbatim>\<open>Vec<u8>\<close>) are values
  of type \<open>bytes\<close>, a list of HOL characters, each of which is one byte. Computations that can get
  stuck return an option; \<^const>\<open>None\<close> is an undefined memory access, a fatal runtime error or a
  blocked thread, and never an error value of the program.
\<close>

type_synonym bytes = string

type_synonym addr = nat

type_synonym tid = nat

abbreviation NUL :: char where
  "NUL \<equiv> CHR 0x00"

abbreviation (input) null :: addr where
  "null \<equiv> 0"

named_theorems engine_laws \<open>totality and effect of the engine methods that clients rely on\<close>

section \<open>Decimal rendering of numbers\<close>

definition digit_char :: "nat \<Rightarrow> char" where
  "digit_char d = char_of (48 + d)"

fun show_nat :: "nat \<Rightarrow> bytes" where
  "show_nat n = (if n < 10 then [digit_char n] else show_nat (n div 10) @ [digit_char (n mod 10)])"

declare show_nat.simps [simp del]

definition show_int :: "int \<Rightarrow> bytes" where
  "show_int i = (if i < 0 then CHR ''-'' # show_nat (nat (- i)) else show_nat (nat i))"

text \<open>The padded forms \<^verbatim>\<open>%04d\<close> and \<^verbatim>\<open>%06d\<close> of the Go format verbs, for non-negative arguments.\<close>

definition pad_nat :: "nat \<Rightarrow> nat \<Rightarrow> bytes" where
  "pad_nat w n = replicate (w - length (show_nat n)) (CHR ''0'') @ show_nat n"

section \<open>Lemmas on numbers in decimal\<close>

fun read_nat :: "bytes \<Rightarrow> nat" where
  "read_nat s = foldl (\<lambda>n c. 10 * n + (of_char c - 48)) 0 s"

lemma of_char_digit [simp]: "d < 10 \<Longrightarrow> (of_char (digit_char d) :: nat) = 48 + d"
  by (simp add: digit_char_def)

lemma digit_char_inject [simp]: "d < 10 \<Longrightarrow> e < 10 \<Longrightarrow> digit_char d = digit_char e \<longleftrightarrow> d = e"
  by (metis add_left_cancel of_char_digit)

lemma digit_char_neq_NUL [simp]: "d < 10 \<Longrightarrow> digit_char d \<noteq> NUL"
proof
  assume "d < 10" "digit_char d = NUL"
  then have "(of_char NUL :: nat) = 48 + d" by (metis of_char_digit)
  then show False by simp
qed

lemma read_show_nat: "read_nat (show_nat n) = n"
proof (induction n rule: show_nat.induct)
  case (1 n)
  then show ?case
    by (subst show_nat.simps) (auto simp: not_less)
qed

lemma show_nat_inject [simp]: "show_nat m = show_nat n \<longleftrightarrow> m = n"
  by (metis read_show_nat)

lemma show_nat_Nil [simp]: "show_nat n \<noteq> []" "[] \<noteq> show_nat n"
  by (subst show_nat.simps, simp)+

lemma show_nat_digits: "c \<in> set (show_nat n) \<Longrightarrow> \<exists>d<10. c = digit_char d"
proof (induction n rule: show_nat.induct)
  case (1 n)
  have m: "n mod 10 < 10" by simp
  show ?case
  proof (cases "n < 10")
    case True
    with 1(2) show ?thesis by (auto simp: show_nat.simps [of n])
  next
    case False
    with 1(2) have "c \<in> set (show_nat (n div 10)) \<or> c = digit_char (n mod 10)"
      by (auto simp: show_nat.simps [of n])
    with 1(1) [OF False] m show ?thesis by blast
  qed
qed

lemma NUL_notin_show_nat [simp]: "NUL \<notin> set (show_nat n)"
  using show_nat_digits digit_char_neq_NUL by metis

lemma foldl_read_zeros:
  "foldl (\<lambda>n c. 10 * n + (of_char c - 48)) (0::nat) (replicate k (CHR ''0'') @ s) =
   foldl (\<lambda>n c. 10 * n + (of_char c - 48)) 0 s"
  by (induction k) auto

lemma read_pad_nat: "read_nat (pad_nat w n) = n"
  using read_show_nat [of n] by (simp add: pad_nat_def foldl_read_zeros del: foldl_append)

lemma pad_nat_inject [simp]: "pad_nat w m = pad_nat w n \<longleftrightarrow> m = n"
  by (metis read_pad_nat)

section \<open>Lemmas on lists and maps\<close>

lemma takeWhile_eq_self_iff: "takeWhile P xs = xs \<longleftrightarrow> (\<forall>x\<in>set xs. P x)"
  by (metis takeWhile_eq_all_conv)

lemma those_eq_Some: "those xs = Some ys \<longleftrightarrow> xs = map Some ys"
  by (induction xs arbitrary: ys) (auto split: option.splits)

lemma map_upd_None_fresh [simp]: "m a = None \<Longrightarrow> (m(a \<mapsto> b))(a := None) = m"
  by (simp add: fun_upd_idem)

lemma fun_upd_None_dom: "a \<notin> dom m \<Longrightarrow> m(a := None) = m"
  by (auto simp: fun_eq_iff domIff)

lemma map_of_rev_distinct: "distinct (map fst xs) \<Longrightarrow> map_of (rev xs) = map_of xs"
  by (simp add: map_of_inject_set rev_map [symmetric])

end
