(* ===== verification/Utf8.thy ===== *)
theory Utf8
  imports Prelude
begin

text \<open>
  UTF-8 validation and lossy conversion, as the Rust standard library functions
  \<^verbatim>\<open>core::str::from_utf8\<close> and \<^verbatim>\<open>String::from_utf8_lossy\<close> perform them. The C interface calls the first
  on every key, prefix and path, and the second when a binary value is read as a string.
\<close>

section \<open>One character\<close>

text \<open>
  \<open>U_ok w\<close> is a well-formed character of \<open>w\<close> bytes, \<open>U_bad n\<close> an ill-formed sequence of \<open>n\<close> bytes
  (the \<^verbatim>\<open>error_len\<close> of the Rust error), and \<open>U_cut\<close> a sequence the end of the input interrupts.
\<close>

datatype utf8_step = U_ok nat | U_bad nat | U_cut

definition utf8_width :: "nat \<Rightarrow> nat" where
  "utf8_width b =
     (if b < 0x80 then 1
      else if 0xC2 \<le> b \<and> b \<le> 0xDF then 2
      else if 0xE0 \<le> b \<and> b \<le> 0xEF then 3
      else if 0xF0 \<le> b \<and> b \<le> 0xF4 then 4
      else 0)"

definition is_cont :: "char \<Rightarrow> bool" where
  "is_cont c \<longleftrightarrow> 0x80 \<le> (of_char c :: nat) \<and> (of_char c :: nat) \<le> 0xBF"

definition second_ok :: "nat \<Rightarrow> char \<Rightarrow> bool" where
  "second_ok b c \<longleftrightarrow> is_cont c \<and>
     (b = 0xE0 \<longrightarrow> 0xA0 \<le> (of_char c :: nat)) \<and>
     (b = 0xED \<longrightarrow> (of_char c :: nat) \<le> 0x9F) \<and>
     (b = 0xF0 \<longrightarrow> 0x90 \<le> (of_char c :: nat)) \<and>
     (b = 0xF4 \<longrightarrow> (of_char c :: nat) \<le> 0x8F)"

fun utf8_conts :: "nat \<Rightarrow> nat \<Rightarrow> bytes \<Rightarrow> utf8_step" where
  "utf8_conts 0 seen s = U_ok seen"
| "utf8_conts (Suc n) seen [] = U_cut"
| "utf8_conts (Suc n) seen (c # s) = (if is_cont c then utf8_conts n (Suc seen) s else U_bad seen)"

fun utf8_head :: "char \<Rightarrow> bytes \<Rightarrow> utf8_step" where
  "utf8_head c s =
     (let b = of_char c; w = utf8_width b in
      if w = 0 then U_bad 1
      else if w = 1 then U_ok 1
      else case s of
             [] \<Rightarrow> U_cut
           | d # s' \<Rightarrow> if second_ok b d then utf8_conts (w - 2) 2 s' else U_bad 1)"

declare utf8_head.simps [simp del]

section \<open>Whole byte sequences\<close>

text \<open>
  \<open>from_utf8_at i s\<close> is \<^const>\<open>None\<close> when \<open>s\<close> is valid, and otherwise the pair of \<^verbatim>\<open>valid_up_to\<close> and
  \<^verbatim>\<open>error_len\<close>, with \<open>i\<close> the number of bytes already accepted.
\<close>

type_synonym utf8_error = "nat \<times> nat option"

fun from_utf8_at :: "nat \<Rightarrow> bytes \<Rightarrow> utf8_error option" where
  "from_utf8_at i [] = None"
| "from_utf8_at i (c # s) =
     (case utf8_head c s of
        U_ok w \<Rightarrow> from_utf8_at (i + w) (drop (w - 1) s)
      | U_bad n \<Rightarrow> Some (i, Some n)
      | U_cut \<Rightarrow> Some (i, None))"

definition from_utf8 :: "bytes \<Rightarrow> utf8_error + bytes" where
  "from_utf8 s = (case from_utf8_at 0 s of None \<Rightarrow> Inr s | Some e \<Rightarrow> Inl e)"

definition valid_utf8 :: "bytes \<Rightarrow> bool" where
  "valid_utf8 s \<longleftrightarrow> from_utf8_at 0 s = None"

text \<open>The \<^verbatim>\<open>Display\<close> text of \<^verbatim>\<open>Utf8Error\<close>.\<close>

fun show_utf8_error :: "utf8_error \<Rightarrow> bytes" where
  "show_utf8_error (i, Some n) =
     ''invalid utf-8 sequence of '' @ show_nat n @ '' bytes from index '' @ show_nat i"
| "show_utf8_error (i, None) = ''incomplete utf-8 byte sequence from index '' @ show_nat i"

definition replacement :: bytes where
  "replacement = [CHR 0xEF, CHR 0xBF, CHR 0xBD]"

fun from_utf8_lossy :: "bytes \<Rightarrow> bytes" where
  "from_utf8_lossy [] = []"
| "from_utf8_lossy (c # s) =
     (case utf8_head c s of
        U_ok w \<Rightarrow> c # take (w - 1) s @ from_utf8_lossy (drop (w - 1) s)
      | U_bad n \<Rightarrow> replacement @ from_utf8_lossy (drop (n - 1) s)
      | U_cut \<Rightarrow> replacement)"

section \<open>Lemmas\<close>

lemma from_utf8_eq: "from_utf8 s = Inr t \<longleftrightarrow> valid_utf8 s \<and> t = s"
  by (auto simp: from_utf8_def valid_utf8_def split: option.splits)

lemma from_utf8_valid [simp]: "valid_utf8 s \<Longrightarrow> from_utf8 s = Inr s"
  by (simp add: from_utf8_eq)

lemma from_utf8_at_index: "from_utf8_at i s = None \<longleftrightarrow> from_utf8_at j s = None"
proof (induction i s arbitrary: j rule: from_utf8_at.induct)
  case (1 i)
  then show ?case by simp
next
  case (2 i c s)
  show ?case
  proof (cases "utf8_head c s")
    case (U_ok w)
    then have "from_utf8_at (i + w) (drop (w - 1) s) = None \<longleftrightarrow>
        from_utf8_at (j + w) (drop (w - 1) s) = None"
      by (rule "2.IH")
    with U_ok show ?thesis by simp
  qed simp_all
qed

lemma valid_utf8_Nil [simp]: "valid_utf8 []"
  by (simp add: valid_utf8_def)

lemma valid_utf8_Cons:
  "valid_utf8 (c # s) \<longleftrightarrow> (\<exists>w. utf8_head c s = U_ok w \<and> valid_utf8 (drop (w - 1) s))"
  using from_utf8_at_index by (auto simp: valid_utf8_def split: utf8_step.splits)

lemma utf8_head_ascii: "(of_char c :: nat) < 0x80 \<Longrightarrow> utf8_head c s = U_ok 1"
  by (simp add: utf8_head.simps utf8_width_def Let_def)

lemma valid_utf8_Cons_ascii [simp]:
  "(of_char c :: nat) < 0x80 \<Longrightarrow> valid_utf8 (c # s) = valid_utf8 s"
  by (simp add: valid_utf8_Cons utf8_head_ascii)

lemma valid_utf8_ascii: "\<forall>c\<in>set s. (of_char c :: nat) < 0x80 \<Longrightarrow> valid_utf8 s"
  by (induction s) auto

lemma from_utf8_lossy_valid: "valid_utf8 s \<Longrightarrow> from_utf8_lossy s = s"
proof (induction s rule: from_utf8_lossy.induct)
  case 1
  then show ?case by simp
next
  case (2 c s)
  then obtain w where "utf8_head c s = U_ok w" "valid_utf8 (drop (w - 1) s)"
    by (auto simp: valid_utf8_Cons)
  with 2 show ?case by simp
qed

text \<open>A well-formed character is recognised whatever follows it.\<close>

lemma utf8_conts_ok:
  "utf8_conts n k s = U_ok w \<Longrightarrow>
     w = k + n \<and> n \<le> length s \<and> list_all is_cont (take n s)"
  by (induction n k s rule: utf8_conts.induct) (auto split: if_splits)

lemma utf8_conts_prefix:
  "list_all is_cont s \<Longrightarrow> length s = n \<Longrightarrow> utf8_conts n k (s @ r) = U_ok (k + n)"
  by (induction n k s rule: utf8_conts.induct) auto

lemma utf8_head_ok_width:
  assumes "utf8_head c s = U_ok w"
  shows "w = utf8_width (of_char c)" "1 \<le> w" "w - 1 \<le> length s"
    "list_all is_cont (take (w - 1) s)"
proof -
  have "w = utf8_width (of_char c) \<and> 1 \<le> w \<and> w - 1 \<le> length s \<and> list_all is_cont (take (w - 1) s)"
  proof (cases "utf8_width (of_char c) \<in> {0, 1}")
    case True
    with assms show ?thesis by (auto simp: utf8_head.simps Let_def)
  next
    case False
    then have w2: "2 \<le> utf8_width (of_char c)" by (simp add: utf8_width_def split: if_splits)
    with assms obtain d s' where s: "s = d # s'" and d: "second_ok (of_char c) d"
      and "utf8_conts (utf8_width (of_char c) - 2) 2 s' = U_ok w"
      by (auto simp: utf8_head.simps Let_def split: if_splits list.splits)
    from utf8_conts_ok [OF this(3)] w2
    have *: "w = utf8_width (of_char c)" "w - 2 \<le> length s'" "list_all is_cont (take (w - 2) s')"
      by auto
    have "w - 1 = Suc (w - 2)" using w2 * by simp
    with * d s w2 show ?thesis by (auto simp: second_ok_def)
  qed
  then show "w = utf8_width (of_char c)" "1 \<le> w" "w - 1 \<le> length s"
    "list_all is_cont (take (w - 1) s)" by auto
qed

lemma utf8_head_prefix:
  assumes "utf8_head c s = U_ok w"
  shows "utf8_head c (take (w - 1) s @ r) = U_ok w"
proof (cases "utf8_width (of_char c) \<in> {0, 1}")
  case True
  with assms show ?thesis by (auto simp: utf8_head.simps Let_def)
next
  case False
  note w = utf8_head_ok_width [OF assms]
  from False w(1) have w2: "2 \<le> w" by (auto simp: utf8_width_def split: if_splits)
  with assms w(1) obtain d s' where s: "s = d # s'" and d: "second_ok (of_char c) d"
    by (auto simp: utf8_head.simps Let_def split: if_splits list.splits)
  have t: "take (w - 1) s = d # take (w - 2) s'"
    using w2 s by (cases w) (auto simp: take_Cons' numeral_2_eq_2)
  have "utf8_conts (w - 2) 2 (take (w - 2) s' @ r) = U_ok (2 + (w - 2))"
    using w(3,4) s t by (intro utf8_conts_prefix) (auto simp: Suc_diff_le)
  then show ?thesis
    using False d t w(1) w2 by (simp add: utf8_head.simps Let_def)
qed

lemma valid_utf8_char_append:
  assumes "utf8_head c s = U_ok w" "valid_utf8 r"
  shows "valid_utf8 (c # take (w - 1) s @ r)"
proof -
  have "drop (w - 1) (take (w - 1) s @ r) = r"
    using utf8_head_ok_width(3) [OF assms(1)] by simp
  with utf8_head_prefix [OF assms(1), of r] assms(2) show ?thesis
    by (auto simp: valid_utf8_Cons)
qed

lemma valid_utf8_replacement: "valid_utf8 r \<Longrightarrow> valid_utf8 (replacement @ r)"
  using valid_utf8_char_append [of "CHR 0xEF" "[CHR 0xBF, CHR 0xBD]" 3 r]
  by (simp add: replacement_def utf8_head.simps utf8_width_def second_ok_def is_cont_def
      numeral_2_eq_2 numeral_3_eq_3)

lemma from_utf8_lossy_is_valid: "valid_utf8 (from_utf8_lossy s)"
proof (induction s rule: from_utf8_lossy.induct)
  case 1
  then show ?case by simp
next
  case (2 c s)
  show ?case
  proof (cases "utf8_head c s")
    case (U_ok w)
    with 2 valid_utf8_char_append [OF U_ok] show ?thesis by simp
  next
    case (U_bad n)
    with 2 show ?thesis by (simp add: valid_utf8_replacement)
  next
    case U_cut
    with valid_utf8_replacement [of "[]"] show ?thesis by simp
  qed
qed

lemma not_cont_NUL: "is_cont c \<Longrightarrow> c \<noteq> NUL"
  by (auto simp: is_cont_def)

text \<open>Cutting a valid sequence at its first NUL byte leaves a valid sequence.\<close>

lemma valid_utf8_takeWhile_NUL:
  "valid_utf8 s \<Longrightarrow> valid_utf8 (takeWhile (\<lambda>c. c \<noteq> NUL) s)"
proof (induction s rule: from_utf8_lossy.induct)
  case 1
  then show ?case by simp
next
  case (2 c s)
  then obtain w where w: "utf8_head c s = U_ok w" and v: "valid_utf8 (drop (w - 1) s)"
    by (auto simp: valid_utf8_Cons)
  let ?P = "\<lambda>c. c \<noteq> NUL"
  have all: "\<forall>x\<in>set (take (w - 1) s). ?P x"
    using utf8_head_ok_width(4) [OF w] not_cont_NUL by (auto simp: list_all_iff)
  have "takeWhile ?P s = takeWhile ?P (take (w - 1) s @ drop (w - 1) s)" by simp
  also have "\<dots> = take (w - 1) s @ takeWhile ?P (drop (w - 1) s)"
    using all by (intro takeWhile_append2) blast
  finally have "takeWhile ?P s = take (w - 1) s @ takeWhile ?P (drop (w - 1) s)" .
  with 2 w v valid_utf8_char_append [OF w] show ?case by auto
qed

end
