(* ===== verification/Values.thy ===== *)
theory Values
  imports Utf8
begin

text \<open>
  The value type the engine stores and the two conversions the C interface applies to it
  (\<^verbatim>\<open>value_to_bytes\<close> and \<^verbatim>\<open>value_to_string\<close> of \<^verbatim>\<open>crates/f4kvs-ffi/src/lib.rs\<close>). A JSON document and a
  floating-point number are represented by their display text, the only thing the source reads of
  them; integers are 64-bit words.
\<close>

datatype lsm_value =
    VBytes bytes
  | VString bytes
  | VJson bytes
  | VInt64 "64 word"
  | VUInt64 "64 word"
  | VFloat64 bytes
  | VBool bool
  | VNull

fun value_to_bytes :: "lsm_value \<Rightarrow> bytes" where
  "value_to_bytes (VBytes b) = b"
| "value_to_bytes (VString s) = s"
| "value_to_bytes (VJson j) = j"
| "value_to_bytes (VInt64 n) = show_int (sint n)"
| "value_to_bytes (VUInt64 n) = show_nat (unat n)"
| "value_to_bytes (VFloat64 f) = f"
| "value_to_bytes (VBool b) = (if b then ''true'' else ''false'')"
| "value_to_bytes VNull = []"

fun value_to_string :: "lsm_value \<Rightarrow> bytes" where
  "value_to_string (VString s) = s"
| "value_to_string (VBytes b) = from_utf8_lossy b"
| "value_to_string (VJson j) = j"
| "value_to_string (VInt64 n) = show_int (sint n)"
| "value_to_string (VUInt64 n) = show_nat (unat n)"
| "value_to_string (VFloat64 f) = f"
| "value_to_string (VBool b) = (if b then ''true'' else ''false'')"
| "value_to_string VNull = []"

text \<open>Rust strings are valid UTF-8 by construction.\<close>

fun wf_value :: "lsm_value \<Rightarrow> bool" where
  "wf_value (VString s) = valid_utf8 s"
| "wf_value (VJson j) = valid_utf8 j"
| "wf_value (VFloat64 f) = valid_utf8 f"
| "wf_value _ = True"

lemma valid_utf8_show_nat [simp]: "valid_utf8 (show_nat n)"
  by (rule valid_utf8_ascii) (auto dest!: show_nat_digits)

lemma valid_utf8_show_int [simp]: "valid_utf8 (show_int i)"
  by (simp add: show_int_def)

lemma value_to_string_valid: "wf_value v \<Longrightarrow> valid_utf8 (value_to_string v)"
  by (cases v) (auto simp: from_utf8_lossy_is_valid)

text \<open>The two conversions agree except on bytes that are not UTF-8.\<close>

lemma value_to_string_eq_bytes:
  "wf_value v \<Longrightarrow> valid_utf8 (value_to_bytes v) \<Longrightarrow> value_to_string v = value_to_bytes v"
  by (cases v) (auto simp: from_utf8_lossy_valid)

lemma value_to_string_lossy:
  "wf_value v \<Longrightarrow> value_to_string v = from_utf8_lossy (value_to_bytes v)"
  by (cases v) (auto simp: from_utf8_lossy_valid)

end
