(* ===== verification/Memory.thy ===== *)
theory Memory
  imports Values
begin

text \<open>
  The memory both sides of the C interface share: blocks obtained from C \<^verbatim>\<open>malloc\<close> (by cgo), strings,
  byte buffers and result arrays the Rust side hands out, and engine and cursor boxes. The allocator
  is a parameter, which chooses an address from the history (a tick) and the current heap, so an
  address may be reused after it is freed. The registries \<^verbatim>\<open>StringAllocator\<close> and \<^verbatim>\<open>BytesAllocator\<close> and the
  two free functions of \<^verbatim>\<open>lib.rs\<close> are modelled here, and so is the per-thread error slot.
\<close>

section \<open>Blocks and the world\<close>

type_synonym eid = nat

text \<open>\<^verbatim>\<open>F4KvsKVPair\<close> and \<^verbatim>\<open>F4KvsKVPairKv\<close>, the elements of the scan result arrays.\<close>

record F4KvsKVPair =
  pair_key :: addr
  pair_value :: addr
  pair_value_len :: nat

record F4KvsKVPairKv =
  kv_key :: addr
  kv_key_len :: nat
  kv_value :: addr
  kv_value_len :: nat

text \<open>\<^verbatim>\<open>F4KvsCursor\<close>: the shared engine, the scan state of the engine library, the prefix and the end flag.\<close>

record 'c F4KvsCursor =
  cur_engine :: eid
  cur_state :: "'c option"
  cur_prefix :: bytes
  cur_done :: bool

datatype 'c block =
    CMem bytes
  | RStr bytes
  | RBytes bytes
  | EngineBox eid
  | KeyPtrs "addr list"
  | KVPairs "F4KvsKVPair list"
  | KVPairsKv "F4KvsKVPairKv list"
  | CursorBox "'c F4KvsCursor"

type_synonym 'c heap = "addr \<rightharpoonup> 'c block"

type_synonym 'c allocator = "nat \<Rightarrow> 'c heap \<Rightarrow> addr"

text \<open>
  \<open>arcs\<close> is the reference count of each engine (its \<^verbatim>\<open>Arc\<close>), \<open>lsm\<close> the state of the engine library,
  its disk included.
\<close>

record ('x, 'c) world =
  heap :: "'c heap"
  tick :: nat
  str_allocs :: "addr set"
  bytes_allocs :: "addr \<rightharpoonup> nat"
  last_error :: "tid \<Rightarrow> bytes option"
  engine_counter :: "64 word"
  arcs :: "eid \<Rightarrow> nat"
  lsm :: 'x

text \<open>What the code relies on of an allocator: the address is new, and no allocation is at 0 or 1.\<close>

definition fresh_allocator :: "'c allocator \<Rightarrow> bool" where
  "fresh_allocator al \<longleftrightarrow> (\<forall>n h. finite (dom h) \<longrightarrow> al n h \<notin> dom h \<and> 1 < al n h)"

definition alloc_block :: "'c allocator \<Rightarrow> 'c block \<Rightarrow> ('x, 'c) world \<Rightarrow> addr \<times> ('x, 'c) world" where
  "alloc_block al b w =
     (let a = al (tick w) (heap w) in
      (a, w\<lparr>heap := (heap w)(a \<mapsto> b), tick := Suc (tick w)\<rparr>))"

definition drop_block :: "addr \<Rightarrow> ('x, 'c) world \<Rightarrow> ('x, 'c) world" where
  "drop_block a w = w\<lparr>heap := (heap w)(a := None)\<rparr>"

text \<open>The bytes at an address, from the start of the block to its end.\<close>

definition mem_at :: "('x, 'c) world \<Rightarrow> addr \<Rightarrow> bytes option" where
  "mem_at w a =
     (case heap w a of
        Some (CMem s) \<Rightarrow> Some s
      | Some (RStr s) \<Rightarrow> Some s
      | Some (RBytes s) \<Rightarrow> Some s
      | _ \<Rightarrow> None)"

text \<open>\<^verbatim>\<open>CStr::from_ptr\<close> and \<^verbatim>\<open>slice::from_raw_parts\<close>: stuck when they would read outside the block.\<close>

definition cstr_from_ptr :: "('x, 'c) world \<Rightarrow> addr \<Rightarrow> bytes option" where
  "cstr_from_ptr w a =
     do { s \<leftarrow> mem_at w a; if NUL \<in> set s then Some (takeWhile (\<lambda>c. c \<noteq> NUL) s) else None }"

definition slice_from_raw :: "('x, 'c) world \<Rightarrow> addr \<Rightarrow> nat \<Rightarrow> bytes option" where
  "slice_from_raw w a n = do { s \<leftarrow> mem_at w a; if n \<le> length s then Some (take n s) else None }"

section \<open>The per-thread error slot\<close>

definition escape_nul :: "bytes \<Rightarrow> bytes" where
  "escape_nul msg = concat (map (\<lambda>c. if c = NUL then [CHR 0x5C, CHR ''0''] else [c]) msg)"

definition cstring_new :: "bytes \<Rightarrow> bytes option" where
  "cstring_new s = (if NUL \<in> set s then None else Some s)"

definition set_last_error :: "tid \<Rightarrow> bytes \<Rightarrow> ('x, 'c) world \<Rightarrow> ('x, 'c) world" where
  "set_last_error t msg w =
     w\<lparr>last_error := (last_error w)
         (t := Some (case cstring_new msg of Some s \<Rightarrow> s | None \<Rightarrow> escape_nul msg))\<rparr>"

definition f4kvs_get_last_error :: "tid \<Rightarrow> ('x, 'c) world \<Rightarrow> bytes option" where
  "f4kvs_get_last_error t w = last_error w t"

section \<open>The registries\<close>

definition str_register :: "addr \<Rightarrow> addr set \<Rightarrow> bool \<times> addr set" where
  "str_register p r = (if p = null then (False, r) else (p \<notin> r, insert p r))"

definition str_unregister :: "addr \<Rightarrow> addr set \<Rightarrow> bool \<times> addr set" where
  "str_unregister p r = (if p = null then (False, r) else (p \<in> r, r - {p}))"

definition str_is_allocated :: "addr \<Rightarrow> addr set \<Rightarrow> bool" where
  "str_is_allocated p r = (if p = null then False else p \<in> r)"

definition bytes_register :: "addr \<Rightarrow> nat \<Rightarrow> (addr \<rightharpoonup> nat) \<Rightarrow> bool \<times> (addr \<rightharpoonup> nat)" where
  "bytes_register p n r = (if p = null then (False, r) else (r p = None, r(p \<mapsto> n)))"

definition bytes_unregister :: "addr \<Rightarrow> (addr \<rightharpoonup> nat) \<Rightarrow> nat option \<times> (addr \<rightharpoonup> nat)" where
  "bytes_unregister p r = (if p = null then (None, r) else (r p, r(p := None)))"

section \<open>Handing memory out and taking it back\<close>

text \<open>
  \<^verbatim>\<open>allocate_c_string\<close> fails on an interior NUL (\<^verbatim>\<open>CString::new\<close>); \<^verbatim>\<open>allocate_bytes\<close> of an empty vector
  registers the dangling address 1 of an empty boxed slice, which owns no memory.
\<close>

datatype F4KvsResult =
    Success
  | ErrorInvalidArgument
  | ErrorNotFound
  | ErrorStorage
  | ErrorNetwork
  | ErrorTimeout
  | ErrorUnknown

definition nul_position :: "bytes \<Rightarrow> nat" where
  "nul_position s = length (takeWhile (\<lambda>c. c \<noteq> NUL) s)"

definition allocate_c_string ::
  "'c allocator \<Rightarrow> tid \<Rightarrow> bytes \<Rightarrow> ('x, 'c) world \<Rightarrow> (F4KvsResult + addr) \<times> ('x, 'c) world" where
  "allocate_c_string al t s w =
     (case cstring_new s of
        Some c \<Rightarrow>
          (let (p, w1) = alloc_block al (RStr (c @ [NUL])) w in
           (Inr p, w1\<lparr>str_allocs := snd (str_register p (str_allocs w1))\<rparr>))
      | None \<Rightarrow>
          (Inl ErrorStorage,
           set_last_error t
             (''Failed to create C string: nul byte found in provided data at position: '' @
              show_nat (nul_position s)) w))"

definition allocate_bytes ::
  "'c allocator \<Rightarrow> bytes \<Rightarrow> ('x, 'c) world \<Rightarrow> (addr \<times> nat) \<times> ('x, 'c) world" where
  "allocate_bytes al s w =
     (let (p, w1) = (if s = [] then (1, w) else alloc_block al (RBytes s) w) in
      ((p, length s), w1\<lparr>bytes_allocs := snd (bytes_register p (length s) (bytes_allocs w1))\<rparr>))"

definition f4kvs_string_free :: "addr \<Rightarrow> ('x, 'c) world \<Rightarrow> ('x, 'c) world option" where
  "f4kvs_string_free p w =
     (if p = null then Some w
      else if \<not> str_is_allocated p (str_allocs w) then Some w
      else
        let w1 = w\<lparr>str_allocs := snd (str_unregister p (str_allocs w))\<rparr> in
        case heap w1 p of
          Some (RStr _) \<Rightarrow> Some (drop_block p w1)
        | _ \<Rightarrow> None)"

definition f4kvs_bytes_free :: "addr \<Rightarrow> ('x, 'c) world \<Rightarrow> ('x, 'c) world option" where
  "f4kvs_bytes_free p w =
     (if p = null then Some w
      else
        let (r, b) = bytes_unregister p (bytes_allocs w); w1 = w\<lparr>bytes_allocs := b\<rparr> in
        case r of
          None \<Rightarrow> Some w1
        | Some len \<Rightarrow>
            if len = 0 then Some w1
            else case heap w1 p of
                   Some (RBytes s) \<Rightarrow> if length s = len then Some (drop_block p w1) else None
                 | _ \<Rightarrow> None)"

text \<open>C \<^verbatim>\<open>malloc\<close>, \<^verbatim>\<open>memcpy\<close> into a new block and \<^verbatim>\<open>free\<close>, as cgo calls them.\<close>

definition c_malloc_copy :: "'c allocator \<Rightarrow> bytes \<Rightarrow> ('x, 'c) world \<Rightarrow> addr \<times> ('x, 'c) world" where
  "c_malloc_copy al s w = alloc_block al (CMem s) w"

definition c_string :: "'c allocator \<Rightarrow> bytes \<Rightarrow> ('x, 'c) world \<Rightarrow> addr \<times> ('x, 'c) world" where
  "c_string al s w = c_malloc_copy al (s @ [NUL]) w"

definition c_free :: "addr \<Rightarrow> ('x, 'c) world \<Rightarrow> ('x, 'c) world option" where
  "c_free p w =
     (if p = null then Some w
      else case heap w p of Some (CMem _) \<Rightarrow> Some (drop_block p w) | _ \<Rightarrow> None)"

text \<open>
  The invariant the two registries keep: a string is registered exactly while its block is live,
  and a byte buffer is registered with its length exactly while its block is live, apart from the
  empty buffers, which share the address 1.
\<close>

fun is_str :: "'c block option \<Rightarrow> bool" where
  "is_str (Some (RStr _)) = True"
| "is_str _ = False"

fun buf_len :: "'c block option \<Rightarrow> nat option" where
  "buf_len (Some (RBytes s)) = Some (length s)"
| "buf_len _ = None"

definition reg_inv :: "('x, 'c) world \<Rightarrow> bool" where
  "reg_inv w \<longleftrightarrow>
     finite (dom (heap w)) \<and> heap w 0 = None \<and> heap w 1 = None \<and>
     (\<forall>a. a \<in> str_allocs w \<longleftrightarrow> is_str (heap w a)) \<and>
     (\<forall>a. a \<noteq> 1 \<longrightarrow> bytes_allocs w a = buf_len (heap w a)) \<and>
     (bytes_allocs w 1 = None \<or> bytes_allocs w 1 = Some 0) \<and>
     (\<forall>a. heap w a \<noteq> Some (RBytes []))"

section \<open>The registries satisfy one contract\<close>

text \<open>
  Both registries are interfaces of the same kind: a pointer is owned from its registration to the
  first \<^verbatim>\<open>unregister\<close>, and \<^verbatim>\<open>unregister\<close> reports whether it was owned.
\<close>

locale pointer_registry =
  fixes register :: "addr \<Rightarrow> 'i \<Rightarrow> 'r \<Rightarrow> bool \<times> 'r"
    and unregister :: "addr \<Rightarrow> 'r \<Rightarrow> 'o \<times> 'r"
    and hit :: "'o \<Rightarrow> bool"
    and owned :: "'r \<Rightarrow> addr set"
  assumes owned_register: "owned (snd (register p i r)) = (if p = null then owned r else insert p (owned r))"
    and new_register: "fst (register p i r) \<longleftrightarrow> p \<noteq> null \<and> p \<notin> owned r"
    and owned_unregister: "owned (snd (unregister p r)) = (if p = null then owned r else owned r - {p})"
    and hit_unregister: "hit (fst (unregister p r)) \<longleftrightarrow> p \<noteq> null \<and> p \<in> owned r"
begin

text \<open>Unregistering a list of pointers in order, and which of them were owned when their turn came.\<close>

fun drain :: "addr list \<Rightarrow> 'r \<Rightarrow> bool list \<times> 'r" where
  "drain [] r = ([], r)"
| "drain (p # ps) r =
     (hit (fst (unregister p r)) # fst (drain ps (snd (unregister p r))),
      snd (drain ps (snd (unregister p r))))"

lemma second_unregister_misses:
  "\<not> hit (fst (unregister p (snd (unregister p r))))"
  by (simp add: hit_unregister owned_unregister)

lemma unregister_registered: "p \<noteq> null \<Longrightarrow> hit (fst (unregister p (snd (register p i r))))"
  by (simp add: hit_unregister owned_register)

lemma owned_drain: "owned (snd (drain ps r)) = owned r - (set ps - {null})"
  by (induction ps arbitrary: r) (auto simp: owned_unregister)

lemma length_drain: "length (fst (drain ps r)) = length ps"
  by (induction ps arbitrary: r) auto

text \<open>A pointer is released at most once, and at its first occurrence: the others are ignored.\<close>

lemma drain_hit:
  "i < length ps \<Longrightarrow>
   fst (drain ps r) ! i \<longleftrightarrow> ps ! i \<noteq> null \<and> ps ! i \<in> owned r \<and> ps ! i \<notin> set (take i ps)"
proof (induction ps arbitrary: r i)
  case Nil
  then show ?case by simp
next
  case (Cons p ps)
  show ?case
  proof (cases i)
    case 0
    then show ?thesis by (simp add: hit_unregister)
  next
    case (Suc j)
    with Cons.prems have j: "j < length ps" by simp
    have "fst (drain (p # ps) r) ! i = fst (drain ps (snd (unregister p r))) ! j"
      using Suc by simp
    with Cons.IH [OF j, of "snd (unregister p r)"] Suc show ?thesis
      by (auto simp: owned_unregister)
  qed
qed

end

interpretation str_reg: pointer_registry "\<lambda>p (_::unit). str_register p" str_unregister "\<lambda>b. b" "\<lambda>r. r"
  by unfold_locales (auto simp: str_register_def str_unregister_def)

interpretation bytes_reg: pointer_registry bytes_register bytes_unregister "\<lambda>r. r \<noteq> None" dom
  by unfold_locales (auto simp: bytes_register_def bytes_unregister_def split: if_splits)


section \<open>Lemmas on memory\<close>

text \<open>Blocks the registries do not follow.\<close>

fun plain_block :: "'c block \<Rightarrow> bool" where
  "plain_block (RStr _) = False"
| "plain_block (RBytes _) = False"
| "plain_block _ = True"

lemma plain_block_simps [simp]:
  "plain_block b \<Longrightarrow> \<not> is_str (Some b)"
  "plain_block b \<Longrightarrow> buf_len (Some b) = None"
  "plain_block b \<Longrightarrow> b \<noteq> RBytes s"
  by (cases b; simp)+

lemma is_str_iff: "is_str r \<longleftrightarrow> (\<exists>s. r = Some (RStr s))"
  by (cases r rule: is_str.cases) auto

lemma buf_len_eq: "buf_len r = Some n \<longleftrightarrow> (\<exists>s. r = Some (RBytes s) \<and> n = length s)"
  by (cases r rule: buf_len.cases) auto

lemma reg_invD:
  assumes "reg_inv w"
  shows "finite (dom (heap w))" "heap w 0 = None" "heap w 1 = None"
    "a \<in> str_allocs w \<longleftrightarrow> is_str (heap w a)"
    "a \<noteq> 1 \<Longrightarrow> bytes_allocs w a = buf_len (heap w a)"
    "bytes_allocs w 1 = None \<or> bytes_allocs w 1 = Some 0"
    "heap w a = Some (RBytes s) \<Longrightarrow> s \<noteq> []"
  using assms by (auto simp: reg_inv_def)

lemma reg_inv_cong:
  "heap w' = heap w \<Longrightarrow> str_allocs w' = str_allocs w \<Longrightarrow> bytes_allocs w' = bytes_allocs w \<Longrightarrow>
   reg_inv w' = reg_inv w"
  by (simp add: reg_inv_def)

lemma reg_inv_simps [simp]:
  "reg_inv (w\<lparr>last_error := le\<rparr>) = reg_inv w"
  "reg_inv (w\<lparr>lsm := x\<rparr>) = reg_inv w"
  "reg_inv (w\<lparr>tick := n\<rparr>) = reg_inv w"
  "reg_inv (w\<lparr>arcs := r\<rparr>) = reg_inv w"
  "reg_inv (w\<lparr>engine_counter := k\<rparr>) = reg_inv w"
  by (rule reg_inv_cong; simp)+

lemma set_last_error_simps [simp]:
  "heap (set_last_error t m w) = heap w"
  "tick (set_last_error t m w) = tick w"
  "str_allocs (set_last_error t m w) = str_allocs w"
  "bytes_allocs (set_last_error t m w) = bytes_allocs w"
  "engine_counter (set_last_error t m w) = engine_counter w"
  "arcs (set_last_error t m w) = arcs w"
  "lsm (set_last_error t m w) = lsm w"
  "reg_inv (set_last_error t m w) = reg_inv w"
  "mem_at (set_last_error t m w) a = mem_at w a"
  by (simp_all add: set_last_error_def mem_at_def)

lemma fresh_allocatorD:
  "fresh_allocator al \<Longrightarrow> finite (dom h) \<Longrightarrow> h (al n h) = None \<and> 1 < al n h"
  by (auto simp: fresh_allocator_def domIff)

lemma alloc_blockE:
  assumes "fresh_allocator al" "reg_inv w"
  obtains a where "alloc_block al b w = (a, w\<lparr>heap := (heap w)(a \<mapsto> b), tick := Suc (tick w)\<rparr>)"
    "heap w a = None" "1 < a"
  using fresh_allocatorD [OF assms(1) reg_invD(1) [OF assms(2)], of "tick w"]
  by (auto simp: alloc_block_def Let_def)

lemma reg_inv_insert_plain:
  assumes "reg_inv w" "heap w a = None" "1 < a" "plain_block b"
  shows "reg_inv (w\<lparr>heap := (heap w)(a \<mapsto> b), tick := n\<rparr>)"
proof -
  have "a \<notin> str_allocs w" "bytes_allocs w a = None"
    using reg_invD(4,5) [OF assms(1), of a] assms(2,3) by auto
  with assms show ?thesis
    by (auto simp: reg_inv_def split: if_splits)
qed

lemma reg_inv_drop_plain:
  assumes "reg_inv w" "heap w a = Some b" "plain_block b"
  shows "reg_inv (drop_block a w)"
proof -
  have a1: "a \<noteq> 1" using reg_invD(3) [OF assms(1)] assms(2) by auto
  have "a \<notin> str_allocs w"
    using reg_invD(4) [OF assms(1), of a] assms(2,3) by simp
  moreover have "bytes_allocs w a = None"
    using reg_invD(5) [OF assms(1) a1] assms(2,3) by simp
  ultimately show ?thesis
    using assms by (auto simp: reg_inv_def drop_block_def split: if_splits)
qed

lemma allocate_c_string_inv:
  assumes "fresh_allocator al" "reg_inv w" "allocate_c_string al t s w = (r, w')"
  shows "reg_inv w'"
proof (cases "NUL \<in> set s")
  case True
  with assms show ?thesis by (auto simp: allocate_c_string_def cstring_new_def)
next
  case False
  from assms(1,2) obtain a where
    a: "alloc_block al (RStr (s @ [NUL])) w =
         (a, w\<lparr>heap := (heap w)(a \<mapsto> RStr (s @ [NUL])), tick := Suc (tick w)\<rparr>)"
      "heap w a = None" "1 < a"
    by (rule alloc_blockE)
  have "bytes_allocs w a = None" using reg_invD(5) [OF assms(2), of a] a(2,3) by simp
  with False a assms show ?thesis
    by (auto simp: allocate_c_string_def cstring_new_def str_register_def reg_inv_def
        split: if_splits)
qed

lemma allocate_bytes_inv:
  assumes "fresh_allocator al" "reg_inv w" "allocate_bytes al s w = (r, w')"
  shows "reg_inv w'"
proof (cases "s = []")
  case True
  with assms show ?thesis
    by (auto simp: allocate_bytes_def bytes_register_def reg_inv_def)
next
  case False
  from assms(1,2) obtain a where
    a: "alloc_block al (RBytes s) w =
         (a, w\<lparr>heap := (heap w)(a \<mapsto> RBytes s), tick := Suc (tick w)\<rparr>)"
      "heap w a = None" "1 < a"
    by (rule alloc_blockE)
  have "a \<notin> str_allocs w" using reg_invD(4) [OF assms(2), of a] a(2) by simp
  with False a assms show ?thesis
    by (auto simp: allocate_bytes_def bytes_register_def reg_inv_def split: if_splits)
qed

text \<open>Neither free function gets stuck on any pointer at all, and both keep the invariant.\<close>

lemma f4kvs_string_free_total:
  assumes "reg_inv w"
  obtains w' where "f4kvs_string_free p w = Some w'" "reg_inv w'"
proof (cases "p = null \<or> p \<notin> str_allocs w")
  case True
  then have "f4kvs_string_free p w = Some w"
    by (auto simp: f4kvs_string_free_def str_is_allocated_def)
  from this assms show ?thesis by (rule that)
next
  case False
  with reg_invD(4) [OF assms, of p] obtain s where s: "heap w p = Some (RStr s)"
    by (auto simp: is_str_iff)
  have p1: "p \<noteq> 1" using reg_invD(3) [OF assms] s by auto
  have "f4kvs_string_free p w = Some (drop_block p (w\<lparr>str_allocs := str_allocs w - {p}\<rparr>))"
    using False s by (simp add: f4kvs_string_free_def str_is_allocated_def str_unregister_def)
  moreover have "reg_inv (drop_block p (w\<lparr>str_allocs := str_allocs w - {p}\<rparr>))"
    using assms s p1 False by (auto simp: reg_inv_def drop_block_def split: if_splits)
  ultimately show ?thesis by (rule that)
qed

lemma f4kvs_bytes_free_total:
  assumes "reg_inv w"
  obtains w' where "f4kvs_bytes_free p w = Some w'" "reg_inv w'"
proof (cases "p = null")
  case True
  with assms that show ?thesis by (simp add: f4kvs_bytes_free_def)
next
  case p0: False
  show ?thesis
  proof (cases "\<exists>s. heap w p = Some (RBytes s)")
    case True
    then obtain s where s: "heap w p = Some (RBytes s)" by blast
    have p1: "p \<noteq> 1" using reg_invD(3) [OF assms] s by auto
    have "p \<notin> str_allocs w" using reg_invD(4) [OF assms, of p] s by simp
    then have "reg_inv (drop_block p (w\<lparr>bytes_allocs := (bytes_allocs w)(p := None)\<rparr>))"
      using assms s p1 by (auto simp: reg_inv_def drop_block_def split: if_splits)
    moreover have "f4kvs_bytes_free p w =
        Some (drop_block p (w\<lparr>bytes_allocs := (bytes_allocs w)(p := None)\<rparr>))"
      using p0 s reg_invD(5) [OF assms p1] reg_invD(7) [OF assms s]
      by (simp add: f4kvs_bytes_free_def bytes_unregister_def)
    ultimately show ?thesis by (metis that)
  next
    case False
    then have none: "buf_len (heap w p) = None"
      by (metis buf_len_eq not_None_eq)
    then have "bytes_allocs w p = None \<or> p = 1 \<and> bytes_allocs w p = Some 0"
      using reg_invD(5) [OF assms, of p] reg_invD(6) [OF assms] by (cases "p = 1") auto
    moreover have "reg_inv (w\<lparr>bytes_allocs := (bytes_allocs w)(p := None)\<rparr>)"
      using assms none by (auto simp: reg_inv_def)
    moreover from calculation(1) p0
    have "f4kvs_bytes_free p w = Some (w\<lparr>bytes_allocs := (bytes_allocs w)(p := None)\<rparr>)"
      by (auto simp: f4kvs_bytes_free_def bytes_unregister_def)
    ultimately show ?thesis by (metis that)
  qed
qed

lemma takeWhile_cstr [simp]: "takeWhile (\<lambda>c. c \<noteq> NUL) (s @ NUL # r) = takeWhile (\<lambda>c. c \<noteq> NUL) s"
  by (induction s) auto

lemma escape_nul_no_nul: "NUL \<notin> set (escape_nul m)"
  by (auto simp: escape_nul_def split: if_splits)

lemma set_last_error_same:
  "NUL \<notin> set m \<Longrightarrow> last_error (set_last_error t m w) = (last_error w)(t := Some m)"
  by (simp add: set_last_error_def cstring_new_def)

lemma set_last_error_other [simp]: "t' \<noteq> t \<Longrightarrow> last_error (set_last_error t m w) t' = last_error w t'"
  by (simp add: set_last_error_def)

end
