(* ===== verification/Open_Options.thy ===== *)
theory Open_Options
  imports Values
begin

text \<open>
  The engine open options of the C interface: the byte layout of \<^verbatim>\<open>F4KvsOpenOptions\<close> and of the older
  layout without a size field, the reader \<^verbatim>\<open>read_open_options\<close>, and \<^verbatim>\<open>apply_open_options\<close>, which turns the
  options into changes of the engine configuration. The configuration record has the fields the
  source reads or writes; its default value and the durability presets (\<^verbatim>\<open>WalDurability::apply_to\<close>)
  belong to the engine library and are parameters. Words are stored little-endian.
\<close>

section \<open>The engine configuration\<close>

datatype WalDurability = Strict | Amortized | Buffered

datatype WalEngine = Segment | Frame | Indexed

record WalConfig =
  wal_dir :: bytes
  wal_sync_mode :: bytes
  wal_engine_kind :: WalEngine
  wal_group_commit_enabled :: bool
  wal_group_commit_max_wait :: nat
  wal_group_commit_max_batch_size :: nat
  wal_group_commit_wait_durable :: bool
  wal_group_commit_idle_flush :: "nat option"

record LsmConfig =
  cfg_data_dir :: bytes
  cfg_wal :: WalConfig
  cfg_max_batch_size :: nat
  cfg_background_enabled :: bool
  cfg_max_sstables_per_level :: nat
  cfg_memtable_max_size :: nat
  cfg_sstable_target_size :: nat
  cfg_sstable_max_size :: nat

section \<open>The option structs and their layout\<close>

record F4KvsOpenOptionsV0 =
  v0_group_commit_enabled :: "8 word"
  v0_group_commit_max_wait_ms :: "32 word"
  v0_group_commit_max_batch_size :: "32 word"
  v0_group_commit_wait_durable :: "8 word"
  v0_wal_engine :: "8 word"
  v0_wal_durability :: "8 word"
  v0_group_commit_idle_flush_ms :: "32 word"
  v0_max_batch_size :: "32 word"
  v0_compaction_background :: "8 word"
  v0_max_sstables_per_level :: "32 word"
  v0_memtable_max_size :: "32 word"
  v0_sstable_target_size :: "32 word"
  v0_sstable_max_size :: "32 word"

record F4KvsOpenOptions =
  oo_struct_size :: "32 word"
  oo_group_commit_enabled :: "8 word"
  oo_group_commit_max_wait_ms :: "32 word"
  oo_group_commit_max_batch_size :: "32 word"
  oo_group_commit_wait_durable :: "8 word"
  oo_wal_engine :: "8 word"
  oo_wal_durability :: "8 word"
  oo_group_commit_idle_flush_ms :: "32 word"
  oo_max_batch_size :: "32 word"
  oo_compaction_background :: "8 word"
  oo_max_sstables_per_level :: "32 word"
  oo_memtable_max_size :: "32 word"
  oo_sstable_target_size :: "32 word"
  oo_sstable_max_size :: "32 word"

definition size_of_options :: nat where "size_of_options = 48"

definition size_of_v0 :: nat where "size_of_v0 = 44"

definition MIN_VERSIONED_OPEN_OPTIONS :: nat where "MIN_VERSIONED_OPEN_OPTIONS = 8"

definition F4KvsOpenOptions_new :: F4KvsOpenOptions where
  "F4KvsOpenOptions_new =
     \<lparr>oo_struct_size = of_nat size_of_options, oo_group_commit_enabled = 0,
      oo_group_commit_max_wait_ms = 0, oo_group_commit_max_batch_size = 0,
      oo_group_commit_wait_durable = 0, oo_wal_engine = 0, oo_wal_durability = 0,
      oo_group_commit_idle_flush_ms = 0, oo_max_batch_size = 0, oo_compaction_background = 0,
      oo_max_sstables_per_level = 0, oo_memtable_max_size = 0, oo_sstable_target_size = 0,
      oo_sstable_max_size = 0\<rparr>"

definition options_from_v0 :: "F4KvsOpenOptionsV0 \<Rightarrow> F4KvsOpenOptions" where
  "options_from_v0 old =
     \<lparr>oo_struct_size = 0,
      oo_group_commit_enabled = v0_group_commit_enabled old,
      oo_group_commit_max_wait_ms = v0_group_commit_max_wait_ms old,
      oo_group_commit_max_batch_size = v0_group_commit_max_batch_size old,
      oo_group_commit_wait_durable = v0_group_commit_wait_durable old,
      oo_wal_engine = v0_wal_engine old,
      oo_wal_durability = v0_wal_durability old,
      oo_group_commit_idle_flush_ms = v0_group_commit_idle_flush_ms old,
      oo_max_batch_size = v0_max_batch_size old,
      oo_compaction_background = v0_compaction_background old,
      oo_max_sstables_per_level = v0_max_sstables_per_level old,
      oo_memtable_max_size = v0_memtable_max_size old,
      oo_sstable_target_size = v0_sstable_target_size old,
      oo_sstable_max_size = v0_sstable_max_size old\<rparr>"

type_synonym mem = "8 word list"

definition byte_of :: "nat \<Rightarrow> 32 word \<Rightarrow> 8 word" where
  "byte_of k v = of_nat (unat v div 256 ^ k)"

definition le32 :: "32 word \<Rightarrow> mem" where
  "le32 v = [byte_of 0 v, byte_of 1 v, byte_of 2 v, byte_of 3 v]"

definition u32_of_bytes :: "8 word \<Rightarrow> 8 word \<Rightarrow> 8 word \<Rightarrow> 8 word \<Rightarrow> 32 word" where
  "u32_of_bytes b0 b1 b2 b3 =
     of_nat (unat b0 + 256 * unat b1 + 65536 * unat b2 + 16777216 * unat b3)"

definition u32_at :: "mem \<Rightarrow> nat \<Rightarrow> 32 word" where
  "u32_at m i = u32_of_bytes (m ! i) (m ! (i + 1)) (m ! (i + 2)) (m ! (i + 3))"

text \<open>
  The C layouts: single bytes are followed by padding up to the next multiple of four. The content
  of the padding is arbitrary, \<open>pad i\<close> for the byte at offset \<open>i\<close>.
\<close>

definition encode_options :: "(nat \<Rightarrow> 8 word) \<Rightarrow> F4KvsOpenOptions \<Rightarrow> mem" where
  "encode_options pad o1 =
     le32 (oo_struct_size o1) @ [oo_group_commit_enabled o1, pad 5, pad 6, pad 7] @
     le32 (oo_group_commit_max_wait_ms o1) @ le32 (oo_group_commit_max_batch_size o1) @
     [oo_group_commit_wait_durable o1, oo_wal_engine o1, oo_wal_durability o1, pad 19] @
     le32 (oo_group_commit_idle_flush_ms o1) @ le32 (oo_max_batch_size o1) @
     [oo_compaction_background o1, pad 29, pad 30, pad 31] @
     le32 (oo_max_sstables_per_level o1) @ le32 (oo_memtable_max_size o1) @
     le32 (oo_sstable_target_size o1) @ le32 (oo_sstable_max_size o1)"

definition encode_v0 :: "(nat \<Rightarrow> 8 word) \<Rightarrow> F4KvsOpenOptionsV0 \<Rightarrow> mem" where
  "encode_v0 pad o0 =
     [v0_group_commit_enabled o0, pad 1, pad 2, pad 3] @
     le32 (v0_group_commit_max_wait_ms o0) @ le32 (v0_group_commit_max_batch_size o0) @
     [v0_group_commit_wait_durable o0, v0_wal_engine o0, v0_wal_durability o0, pad 15] @
     le32 (v0_group_commit_idle_flush_ms o0) @ le32 (v0_max_batch_size o0) @
     [v0_compaction_background o0, pad 25, pad 26, pad 27] @
     le32 (v0_max_sstables_per_level o0) @ le32 (v0_memtable_max_size o0) @
     le32 (v0_sstable_target_size o0) @ le32 (v0_sstable_max_size o0)"

definition decode_options :: "mem \<Rightarrow> F4KvsOpenOptions" where
  "decode_options m =
     \<lparr>oo_struct_size = u32_at m 0, oo_group_commit_enabled = m ! 4,
      oo_group_commit_max_wait_ms = u32_at m 8, oo_group_commit_max_batch_size = u32_at m 12,
      oo_group_commit_wait_durable = m ! 16, oo_wal_engine = m ! 17, oo_wal_durability = m ! 18,
      oo_group_commit_idle_flush_ms = u32_at m 20, oo_max_batch_size = u32_at m 24,
      oo_compaction_background = m ! 28,
      oo_max_sstables_per_level = u32_at m 32, oo_memtable_max_size = u32_at m 36,
      oo_sstable_target_size = u32_at m 40, oo_sstable_max_size = u32_at m 44\<rparr>"

definition decode_v0 :: "mem \<Rightarrow> F4KvsOpenOptionsV0" where
  "decode_v0 m =
     \<lparr>v0_group_commit_enabled = m ! 0,
      v0_group_commit_max_wait_ms = u32_at m 4, v0_group_commit_max_batch_size = u32_at m 8,
      v0_group_commit_wait_durable = m ! 12, v0_wal_engine = m ! 13, v0_wal_durability = m ! 14,
      v0_group_commit_idle_flush_ms = u32_at m 16, v0_max_batch_size = u32_at m 20,
      v0_compaction_background = m ! 24,
      v0_max_sstables_per_level = u32_at m 28, v0_memtable_max_size = u32_at m 32,
      v0_sstable_target_size = u32_at m 36, v0_sstable_max_size = u32_at m 40\<rparr>"

text \<open>
  The reader. Its argument is the caller's memory from the pointer on, or \<^const>\<open>None\<close> for a NULL
  pointer; the outer option is \<^const>\<open>None\<close> when the reader would leave that memory.
\<close>

definition read_open_options :: "mem option \<Rightarrow> F4KvsOpenOptions option option" where
  "read_open_options ptr =
     (case ptr of
        None \<Rightarrow> Some None
      | Some m \<Rightarrow>
          if length m < 4 then None
          else
            let first = unat (u32_at m 0) in
            if first < MIN_VERSIONED_OPEN_OPTIONS then
              (if length m < size_of_v0 then None
               else Some (Some (options_from_v0 (decode_v0 m))))
            else
              let n = min first size_of_options in
              if length m < n then None
              else Some (Some (decode_options (take n m @ replicate (size_of_options - n) 0))))"

section \<open>Applying the options\<close>

definition wal_durability_of :: "8 word \<Rightarrow> WalDurability" where
  "wal_durability_of b = (if b = 1 then Amortized else if b = 2 then Buffered else Strict)"

definition wal_engine_of :: "8 word \<Rightarrow> WalEngine" where
  "wal_engine_of b = (if b = 1 then Frame else if b = 2 then Indexed else Segment)"

text \<open>The part of \<^verbatim>\<open>apply_open_options\<close> that writes \<^verbatim>\<open>config.wal\<close>, statement by statement.\<close>

definition apply_wal_options ::
  "(WalDurability \<Rightarrow> WalConfig \<Rightarrow> WalConfig) \<Rightarrow> F4KvsOpenOptions \<Rightarrow> WalConfig \<Rightarrow> WalConfig" where
  "apply_wal_options apply_to op c0 =
     (let d = wal_durability_of (oo_wal_durability op);
          c1 = apply_to d c0;
          c2 = (if oo_group_commit_enabled op \<noteq> 0 then c1\<lparr>wal_group_commit_enabled := True\<rparr> else c1);
          c3 = (if 0 < oo_group_commit_max_wait_ms op
                then c2\<lparr>wal_group_commit_max_wait := unat (oo_group_commit_max_wait_ms op)\<rparr> else c2);
          c4 = (if 0 < oo_group_commit_max_batch_size op
                then c3\<lparr>wal_group_commit_max_batch_size := unat (oo_group_commit_max_batch_size op)\<rparr>
                else c3);
          c5 = (if oo_group_commit_wait_durable op \<noteq> 0
                then c4\<lparr>wal_group_commit_wait_durable := True\<rparr> else c4);
          c6 = (if 0 < oo_group_commit_idle_flush_ms op
                then c5\<lparr>wal_group_commit_idle_flush := Some (unat (oo_group_commit_idle_flush_ms op))\<rparr>
                else if d = Amortized \<and> wal_group_commit_idle_flush c5 = None
                then c5\<lparr>wal_group_commit_idle_flush := Some 100\<rparr>
                else c5);
          c7 = (if d = Amortized \<and> oo_group_commit_max_wait_ms op = 0
                then c6\<lparr>wal_group_commit_max_wait := 50\<rparr> else c6)
      in c7\<lparr>wal_engine_kind := wal_engine_of (oo_wal_engine op)\<rparr>)"

definition apply_open_options ::
  "(WalDurability \<Rightarrow> WalConfig \<Rightarrow> WalConfig) \<Rightarrow> F4KvsOpenOptions option \<Rightarrow> LsmConfig \<Rightarrow> LsmConfig" where
  "apply_open_options apply_to options c =
     (case options of
        None \<Rightarrow> c
      | Some op \<Rightarrow>
          let c1 = c\<lparr>cfg_wal := apply_wal_options apply_to op (cfg_wal c)\<rparr>;
              c2 = (if 0 < oo_max_batch_size op
                    then c1\<lparr>cfg_max_batch_size := unat (oo_max_batch_size op)\<rparr> else c1);
              c3 = (if oo_compaction_background op = 2 then c2\<lparr>cfg_background_enabled := False\<rparr>
                    else if oo_compaction_background op = 1 then c2\<lparr>cfg_background_enabled := True\<rparr>
                    else c2);
              c4 = (if 0 < oo_max_sstables_per_level op
                    then c3\<lparr>cfg_max_sstables_per_level := unat (oo_max_sstables_per_level op)\<rparr> else c3);
              c5 = (if 0 < oo_memtable_max_size op
                    then c4\<lparr>cfg_memtable_max_size := unat (oo_memtable_max_size op)\<rparr> else c4);
              c6 = (if 0 < oo_sstable_target_size op
                    then c5\<lparr>cfg_sstable_target_size := unat (oo_sstable_target_size op)\<rparr> else c5);
              c7 = (if 0 < oo_sstable_max_size op
                    then c6\<lparr>cfg_sstable_max_size := unat (oo_sstable_max_size op)\<rparr> else c6)
          in if cfg_sstable_max_size c7 < cfg_sstable_target_size c7
             then c7\<lparr>cfg_sstable_max_size := cfg_sstable_target_size c7\<rparr> else c7)"

section \<open>Lemmas on the layout\<close>

lemma length_le32 [simp]: "length (le32 v) = 4"
  by (simp add: le32_def)

lemma length_encode_options [simp]: "length (encode_options pad o1) = 48"
  by (simp add: encode_options_def)

lemma length_encode_v0 [simp]: "length (encode_v0 pad o0) = 44"
  by (simp add: encode_v0_def)

lemma nat_split_bytes:
  "(n::nat) mod 256 + 256 * (n div 256 mod 256) + 65536 * (n div 65536 mod 256) +
     16777216 * (n div 16777216) = n"
proof -
  have a: "n = 256 * (n div 256) + n mod 256" by simp
  have b: "n div 256 = 256 * (n div 65536) + n div 256 mod 256"
    using div_mult2_eq [of n 256 256] by simp
  have c: "n div 65536 = 256 * (n div 16777216) + n div 65536 mod 256"
    using div_mult2_eq [of n 65536 256] by simp
  show ?thesis using a b c by linarith
qed

lemma u32_of_byte_of [simp]:
  "u32_of_bytes (byte_of 0 v) (byte_of (Suc 0) v) (byte_of 2 v) (byte_of 3 v) = v"
proof -
  have v: "unat v < 4294967296" using unsigned_less [of v] by simp
  have "u32_of_bytes (byte_of 0 v) (byte_of (Suc 0) v) (byte_of 2 v) (byte_of 3 v) = of_nat (unat v)"
    unfolding u32_of_bytes_def byte_of_def unat_of_nat
    by (rule arg_cong [where f = of_nat]) (use nat_split_bytes [of "unat v"] v in simp)
  then show ?thesis by simp
qed

lemma decode_encode_options: "decode_options (encode_options pad o1) = o1"
  by (simp add: decode_options_def encode_options_def le32_def u32_at_def)

lemma decode_encode_v0: "decode_v0 (encode_v0 pad o0) = o0"
  by (simp add: decode_v0_def encode_v0_def le32_def u32_at_def)

lemma u32_at_encode_options: "u32_at (encode_options pad o1 @ s) 0 = oo_struct_size o1"
  by (simp add: encode_options_def le32_def u32_at_def)

lemma first_word_v0:
  "u32_at (encode_v0 pad o0) 0 =
     u32_of_bytes (v0_group_commit_enabled o0) (pad 1) (pad 2) (pad 3)"
  by (simp add: encode_v0_def u32_at_def numeral_2_eq_2 numeral_3_eq_3)

lemma unat_u32_of_bytes:
  "unat (u32_of_bytes b0 b1 b2 b3) =
     unat b0 + 256 * unat b1 + 65536 * unat b2 + 16777216 * unat b3"
proof -
  have "unat b0 < 256" "unat b1 < 256" "unat b2 < 256" "unat b3 < 256"
    using unsigned_less [of b0] unsigned_less [of b1] unsigned_less [of b2] unsigned_less [of b3]
    by simp_all
  then have "unat b0 + 256 * unat b1 + 65536 * unat b2 + 16777216 * unat b3 < 2 ^ 32" by simp
  then show ?thesis unfolding u32_of_bytes_def by (simp only: unat_of_nat) simp
qed

section \<open>The reader\<close>

lemmas option_sizes = size_of_options_def size_of_v0_def MIN_VERSIONED_OPEN_OPTIONS_def

text \<open>
  A caller that sets \<^verbatim>\<open>struct_size\<close> to the size of a struct at least as long as the library's gets its
  options back, whatever the padding and whatever newer fields follow.
\<close>

lemma read_versioned_full:
  assumes "48 \<le> unat (oo_struct_size o1)"
  shows "read_open_options (Some (encode_options pad o1 @ ext)) = Some (Some o1)"
proof -
  have "u32_at (encode_options pad o1 @ ext) 0 = oo_struct_size o1"
    by (rule u32_at_encode_options)
  with assms show ?thesis
    by (simp add: read_open_options_def option_sizes decode_encode_options Let_def min_def)
qed

text \<open>The older layout is recognised as long as the padding after its first byte is zero.\<close>

lemma read_legacy:
  assumes "unat (v0_group_commit_enabled o0) < 8" "pad 1 = 0" "pad 2 = 0" "pad 3 = 0"
  shows "read_open_options (Some (encode_v0 pad o0)) = Some (Some (options_from_v0 o0))"
  using assms
  by (simp add: read_open_options_def option_sizes first_word_v0 unat_u32_of_bytes decode_encode_v0)

text \<open>
  A non-zero padding byte makes the older layout look like a versioned struct, and the reader copies
  48 bytes of a 44-byte struct.
\<close>

lemma read_legacy_padding_overrun:
  assumes "pad 1 \<noteq> 0"
  shows "read_open_options (Some (encode_v0 pad o0)) = None"
proof -
  have "1 \<le> unat (pad 1)" using assms by (simp add: Suc_le_eq unat_gt_0)
  then have "256 \<le> unat (u32_at (encode_v0 pad o0) 0)"
    by (simp add: first_word_v0 unat_u32_of_bytes)
  then show ?thesis by (simp add: read_open_options_def option_sizes Let_def min_def)
qed

text \<open>
  The reader stays inside a caller's struct whose \<^verbatim>\<open>struct_size\<close> is truthful, and what lies beyond
  that size has no influence: the result is that of the same bytes followed by zeros.
\<close>

lemma read_versioned_prefix:
  assumes "8 \<le> unat (u32_at m 0)" "unat (u32_at m 0) \<le> length m"
  shows "read_open_options (Some m) =
     Some (Some (decode_options
       (take (min (unat (u32_at m 0)) 48) m @ replicate (48 - min (unat (u32_at m 0)) 48) 0)))"
  using assms by (simp add: read_open_options_def option_sizes Let_def)

section \<open>The configuration\<close>

lemma apply_open_options_None [simp]: "apply_open_options at None c = c"
  by (simp add: apply_open_options_def)

lemma apply_wal_engine: "wal_engine_kind (apply_wal_options at op c) = wal_engine_of (oo_wal_engine op)"
  by (simp add: apply_wal_options_def Let_def)

lemma apply_sstable_sizes:
  "cfg_sstable_target_size (apply_open_options at (Some op) c)
     \<le> cfg_sstable_max_size (apply_open_options at (Some op) c)"
  by (simp add: apply_open_options_def Let_def)

lemma apply_max_batch_size:
  "cfg_max_batch_size (apply_open_options at (Some op) c) =
     (if oo_max_batch_size op = 0 then cfg_max_batch_size c else unat (oo_max_batch_size op))"
  by (simp add: apply_open_options_def Let_def word_gt_0)

lemma apply_cfg_wal:
  "cfg_wal (apply_open_options at (Some op) c) = apply_wal_options at op (cfg_wal c)"
  by (simp add: apply_open_options_def Let_def)

lemma apply_data_dir [simp]: "cfg_data_dir (apply_open_options at o1 c) = cfg_data_dir c"
  by (cases o1) (simp_all add: apply_open_options_def Let_def)

end
