(* ===== verification/Lsm.thy ===== *)
theory Lsm
  imports Memory Open_Options "HOL-Library.AList" "HOL-Library.Sublist"
begin

text \<open>
  The environment of the C interface: the memory allocator and the engine library \<^verbatim>\<open>f4kvs-lsm\<close>, which
  is not part of the repository. Its operations are the fields of the record \<open>env\<close>; they act on an
  opaque library state \<open>'x\<close> (engines and disk) and name an engine by an identifier. \<open>lsm_laws\<close> collects
  what the documentation of the interface promises about them, as a relation between the library
  state and the contents \<open>kv\<close> of an open engine. \<open>ref_env\<close> is a small engine that satisfies the laws.
\<close>

type_synonym 'a reply = "bytes + 'a"

record ('x, 'c) env =
  allocator :: "'c allocator"
  temp_dir :: bytes
  process_id :: nat
  default_config :: LsmConfig
  wal_apply_to :: "WalDurability \<Rightarrow> WalConfig \<Rightarrow> WalConfig"
  lsm_new :: "LsmConfig \<Rightarrow> 'x \<Rightarrow> eid reply \<times> 'x"
  lsm_drop :: "eid \<Rightarrow> 'x \<Rightarrow> 'x"
  lsm_shutdown :: "eid \<Rightarrow> 'x \<Rightarrow> unit reply \<times> 'x"
  lsm_compact :: "eid \<Rightarrow> 'x \<Rightarrow> unit reply \<times> 'x"
  lsm_flush :: "eid \<Rightarrow> 'x \<Rightarrow> unit reply \<times> 'x"
  lsm_flush_wal :: "eid \<Rightarrow> 'x \<Rightarrow> unit reply \<times> 'x"
  lsm_set_bulk_import :: "eid \<Rightarrow> bool \<Rightarrow> 'x \<Rightarrow> 'x"
  lsm_max_batch_size :: "eid \<Rightarrow> 'x \<Rightarrow> nat"
  lsm_put :: "eid \<Rightarrow> bytes \<Rightarrow> lsm_value \<Rightarrow> 'x \<Rightarrow> unit reply \<times> 'x"
  lsm_batch_put :: "eid \<Rightarrow> (bytes \<times> lsm_value) list \<Rightarrow> 'x \<Rightarrow> unit reply \<times> 'x"
  lsm_get :: "eid \<Rightarrow> bytes \<Rightarrow> 'x \<Rightarrow> lsm_value option reply \<times> 'x"
  lsm_try_get_sync :: "eid \<Rightarrow> bytes \<Rightarrow> 'x \<Rightarrow> lsm_value option reply option \<times> 'x"
  lsm_delete :: "eid \<Rightarrow> bytes \<Rightarrow> 'x \<Rightarrow> unit reply \<times> 'x"
  lsm_batch_delete :: "eid \<Rightarrow> bytes list \<Rightarrow> 'x \<Rightarrow> unit reply \<times> 'x"
  lsm_exists :: "eid \<Rightarrow> bytes \<Rightarrow> 'x \<Rightarrow> bool reply \<times> 'x"
  lsm_scan_prefix :: "eid \<Rightarrow> bytes \<Rightarrow> 'x \<Rightarrow> bytes list reply \<times> 'x"
  lsm_scan_prefix_with_values :: "eid \<Rightarrow> bytes \<Rightarrow> 'x \<Rightarrow> (bytes \<times> lsm_value) list reply \<times> 'x"

section \<open>What the interface documents about the library\<close>

type_synonym 'x contents = "'x \<Rightarrow> eid \<Rightarrow> bytes \<rightharpoonup> lsm_value"

definition lsm_write_laws :: "('x, 'c) env \<Rightarrow> 'x contents \<Rightarrow> bool" where
  "lsm_write_laws E kv \<longleftrightarrow>
     (\<forall>e k v x x'. lsm_put E e k v x = (Inr (), x') \<longrightarrow> kv x' e = (kv x e)(k \<mapsto> v)) \<and>
     (\<forall>e kvs x x'. lsm_batch_put E e kvs x = (Inr (), x') \<longrightarrow> kv x' e = kv x e ++ map_of (rev kvs)) \<and>
     (\<forall>e k x x'. lsm_delete E e k x = (Inr (), x') \<longrightarrow> kv x' e = (kv x e)(k := None)) \<and>
     (\<forall>e ks x x'. lsm_batch_delete E e ks x = (Inr (), x') \<longrightarrow> kv x' e = kv x e |` (- set ks))"

definition lsm_read_laws :: "('x, 'c) env \<Rightarrow> 'x contents \<Rightarrow> bool" where
  "lsm_read_laws E kv \<longleftrightarrow>
     (\<forall>e k x r x'. lsm_get E e k x = (r, x') \<longrightarrow>
        kv x' e = kv x e \<and> (\<forall>v. r = Inr v \<longrightarrow> v = kv x e k)) \<and>
     (\<forall>e k x r x'. lsm_try_get_sync E e k x = (r, x') \<longrightarrow>
        kv x' e = kv x e \<and> (\<forall>v. r = Some (Inr v) \<longrightarrow> v = kv x e k)) \<and>
     (\<forall>e k x r x'. lsm_exists E e k x = (r, x') \<longrightarrow>
        kv x' e = kv x e \<and> (\<forall>b. r = Inr b \<longrightarrow> b = (kv x e k \<noteq> None))) \<and>
     (\<forall>e p x r x'. lsm_scan_prefix E e p x = (r, x') \<longrightarrow>
        kv x' e = kv x e \<and>
        (\<forall>ks. r = Inr ks \<longrightarrow> distinct ks \<and> set ks = {k \<in> dom (kv x e). prefix p k})) \<and>
     (\<forall>e p x r x'. lsm_scan_prefix_with_values E e p x = (r, x') \<longrightarrow>
        kv x' e = kv x e \<and>
        (\<forall>kvs. r = Inr kvs \<longrightarrow>
           distinct (map fst kvs) \<and> set kvs = {(k, v). kv x e k = Some v \<and> prefix p k}))"

definition lsm_keep_laws :: "('x, 'c) env \<Rightarrow> 'x contents \<Rightarrow> bool" where
  "lsm_keep_laws E kv \<longleftrightarrow>
     (\<forall>e x r x'. lsm_flush E e x = (r, x') \<longrightarrow> kv x' e = kv x e) \<and>
     (\<forall>e x r x'. lsm_flush_wal E e x = (r, x') \<longrightarrow> kv x' e = kv x e) \<and>
     (\<forall>e x r x'. lsm_compact E e x = (r, x') \<longrightarrow> kv x' e = kv x e) \<and>
     (\<forall>e b x. kv (lsm_set_bulk_import E e b x) e = kv x e)"

text \<open>An operation changes only the keys it names, even when it fails.\<close>

definition lsm_frame_laws :: "('x, 'c) env \<Rightarrow> 'x contents \<Rightarrow> bool" where
  "lsm_frame_laws E kv \<longleftrightarrow>
     (\<forall>e k v x r x' j. lsm_put E e k v x = (r, x') \<longrightarrow> j \<noteq> k \<longrightarrow> kv x' e j = kv x e j) \<and>
     (\<forall>e kvs x r x' j. lsm_batch_put E e kvs x = (r, x') \<longrightarrow> j \<notin> fst ` set kvs \<longrightarrow> kv x' e j = kv x e j) \<and>
     (\<forall>e k x r x' j. lsm_delete E e k x = (r, x') \<longrightarrow> j \<noteq> k \<longrightarrow> kv x' e j = kv x e j) \<and>
     (\<forall>e ks x r x' j. lsm_batch_delete E e ks x = (r, x') \<longrightarrow> j \<notin> set ks \<longrightarrow> kv x' e j = kv x e j)"

definition lsm_laws :: "('x, 'c) env \<Rightarrow> 'x contents \<Rightarrow> bool" where
  "lsm_laws E kv \<longleftrightarrow>
     lsm_write_laws E kv \<and> lsm_read_laws E kv \<and> lsm_keep_laws E kv \<and> lsm_frame_laws E kv"

lemma lsm_frameD:
  assumes "lsm_laws E kv"
  shows "lsm_put E e k v x = (r, x') \<Longrightarrow> j \<noteq> k \<Longrightarrow> kv x' e j = kv x e j"
    "lsm_batch_put E e kvs x = (r, x') \<Longrightarrow> j \<notin> fst ` set kvs \<Longrightarrow> kv x' e j = kv x e j"
    "lsm_delete E e k x = (r, x') \<Longrightarrow> j \<noteq> k \<Longrightarrow> kv x' e j = kv x e j"
    "lsm_batch_delete E e ks x = (r, x') \<Longrightarrow> j \<notin> set ks \<Longrightarrow> kv x' e j = kv x e j"
  using assms by (simp_all add: lsm_laws_def lsm_frame_laws_def)

lemma lsm_writeD:
  assumes "lsm_laws E kv"
  shows "lsm_put E e k v x = (Inr (), x') \<Longrightarrow> kv x' e = (kv x e)(k \<mapsto> v)"
    "lsm_batch_put E e kvs x = (Inr (), x') \<Longrightarrow> kv x' e = kv x e ++ map_of (rev kvs)"
    "lsm_delete E e k x = (Inr (), x') \<Longrightarrow> kv x' e = (kv x e)(k := None)"
    "lsm_batch_delete E e ks x = (Inr (), x') \<Longrightarrow> kv x' e = kv x e |` (- set ks)"
  using assms by (simp_all add: lsm_laws_def lsm_write_laws_def)

section \<open>A reference library\<close>

text \<open>
  Each directory of the disk is an association list; an engine is a directory and a batch limit.
  The allocator counts upwards, which is a fresh address in every reachable heap.
\<close>

record ref_lsm =
  ref_dir :: "eid \<Rightarrow> bytes"
  ref_cap :: "eid \<Rightarrow> nat"
  ref_disk :: "bytes \<Rightarrow> (bytes \<times> lsm_value) list"
  ref_next :: eid

definition ref_store :: "ref_lsm \<Rightarrow> eid \<Rightarrow> (bytes \<times> lsm_value) list" where
  "ref_store x e = ref_disk x (ref_dir x e)"

definition ref_kv :: "ref_lsm contents" where
  "ref_kv x e = map_of (ref_store x e)"

definition ref_write :: "eid \<Rightarrow> (bytes \<times> lsm_value) list \<Rightarrow> ref_lsm \<Rightarrow> ref_lsm" where
  "ref_write e st x = x\<lparr>ref_disk := (ref_disk x)(ref_dir x e := st)\<rparr>"

definition ref_allocator :: "'c allocator" where
  "ref_allocator n h = (if h (n + 2) = None then n + 2 else (LEAST a. 1 < a \<and> h a = None))"

definition ref_config :: LsmConfig where
  "ref_config =
     \<lparr>cfg_data_dir = [],
      cfg_wal = \<lparr>wal_dir = [], wal_sync_mode = ''Fsync'', wal_engine_kind = Segment,
        wal_group_commit_enabled = False, wal_group_commit_max_wait = 10,
        wal_group_commit_max_batch_size = 1000, wal_group_commit_wait_durable = False,
        wal_group_commit_idle_flush = None\<rparr>,
      cfg_max_batch_size = 10000, cfg_background_enabled = True, cfg_max_sstables_per_level = 10,
      cfg_memtable_max_size = 67108864, cfg_sstable_target_size = 67108864,
      cfg_sstable_max_size = 134217728\<rparr>"

definition ref_apply_to :: "WalDurability \<Rightarrow> WalConfig \<Rightarrow> WalConfig" where
  "ref_apply_to d c = (if d = Amortized then c\<lparr>wal_group_commit_enabled := True\<rparr> else c)"

definition ref_env :: "(ref_lsm, 'c) env" where
  "ref_env =
     \<lparr>allocator = ref_allocator, temp_dir = ''/tmp'', process_id = 7,
      default_config = ref_config, wal_apply_to = ref_apply_to,
      lsm_new = (\<lambda>c x. (Inr (ref_next x),
        x\<lparr>ref_dir := (ref_dir x)(ref_next x := cfg_data_dir c),
          ref_cap := (ref_cap x)(ref_next x := cfg_max_batch_size c), ref_next := Suc (ref_next x)\<rparr>)),
      lsm_drop = (\<lambda>e x. x),
      lsm_shutdown = (\<lambda>e x. (Inr (), x)),
      lsm_compact = (\<lambda>e x. (Inr (), x)),
      lsm_flush = (\<lambda>e x. (Inr (), x)),
      lsm_flush_wal = (\<lambda>e x. (Inr (), x)),
      lsm_set_bulk_import = (\<lambda>e b x. x),
      lsm_max_batch_size = (\<lambda>e x. ref_cap x e),
      lsm_put = (\<lambda>e k v x. (Inr (), ref_write e (AList.update k v (ref_store x e)) x)),
      lsm_batch_put = (\<lambda>e kvs x. (Inr (), ref_write e (rev kvs @ ref_store x e) x)),
      lsm_get = (\<lambda>e k x. (Inr (map_of (ref_store x e) k), x)),
      lsm_try_get_sync = (\<lambda>e k x. (None, x)),
      lsm_delete = (\<lambda>e k x. (Inr (), ref_write e (AList.delete k (ref_store x e)) x)),
      lsm_batch_delete =
        (\<lambda>e ks x. (Inr (), ref_write e (filter (\<lambda>(k, v). k \<notin> set ks) (ref_store x e)) x)),
      lsm_exists = (\<lambda>e k x. (Inr (map_of (ref_store x e) k \<noteq> None), x)),
      lsm_scan_prefix = (\<lambda>e p x. (Inr (remdups (filter (prefix p) (map fst (ref_store x e)))), x)),
      lsm_scan_prefix_with_values = (\<lambda>e p x.
        (Inr (map (\<lambda>k. (k, the (map_of (ref_store x e) k)))
               (remdups (filter (prefix p) (map fst (ref_store x e))))), x))\<rparr>"

text \<open>A library state with one open engine on an empty directory, and the matching world.\<close>

definition ref_init :: "nat \<Rightarrow> ref_lsm" where
  "ref_init cap = \<lparr>ref_dir = (\<lambda>_. ''d''), ref_cap = (\<lambda>_. cap), ref_disk = (\<lambda>_. []), ref_next = 1\<rparr>"

definition ref_world :: "nat \<Rightarrow> (ref_lsm, 'c) world" where
  "ref_world cap =
     \<lparr>heap = [2 \<mapsto> EngineBox 0], tick = 1, str_allocs = {}, bytes_allocs = Map.empty,
      last_error = (\<lambda>_. None), engine_counter = 0, arcs = (\<lambda>_. 1), lsm = ref_init cap\<rparr>"

section \<open>The reference library satisfies the laws\<close>

lemma ref_allocator_fresh: "fresh_allocator ref_allocator"
  unfolding fresh_allocator_def
proof (intro allI impI)
  fix n and h :: "'c heap"
  assume fin: "finite (dom h)"
  show "ref_allocator n h \<notin> dom h \<and> 1 < ref_allocator n h"
  proof (cases "h (n + 2) = None")
    case True
    then show ?thesis by (auto simp: ref_allocator_def domIff)
  next
    case False
    have "infinite ({a. 1 < a} - dom h)"
      using fin infinite_Ioi [of "1::nat"] by (simp add: greaterThan_def)
    then have "{a. 1 < a} - dom h \<noteq> {}" by (rule infinite_imp_nonempty)
    then obtain a where "a \<in> {a. 1 < a} - dom h" by (metis all_not_in_conv)
    then have "1 < a \<and> h a = None" by (simp add: domIff)
    then have "1 < (LEAST a. 1 < a \<and> h a = None) \<and> h (LEAST a. 1 < a \<and> h a = None) = None"
      by (rule LeastI)
    with False show ?thesis by (simp add: ref_allocator_def domIff)
  qed
qed

lemma ref_store_write [simp]: "ref_store (ref_write e st x) e = st"
  by (simp add: ref_store_def ref_write_def)

lemma map_of_filter_notin: "map_of (filter (\<lambda>(k, v). k \<notin> K) xs) = map_of xs |` (- K)"
  by (rule ext) (induction xs, auto simp: restrict_map_def)

lemma ref_write_laws: "lsm_write_laws ref_env ref_kv"
  by (auto simp: lsm_write_laws_def ref_env_def ref_kv_def update_conv' delete_conv' map_of_filter_notin)

lemma ref_scan_keys:
  "set (remdups (filter (prefix p) (map fst st))) = {k \<in> dom (map_of st). prefix p k}"
  by (auto simp only: dom_map_of_conv_image_fst set_remdups set_filter set_map)

lemma ref_scan_pairs:
  "set (map (\<lambda>k. (k, the (map_of st k))) (remdups (filter (prefix p) (map fst st)))) =
     {(k, v). map_of st k = Some v \<and> prefix p k}"
  unfolding set_map [of "\<lambda>k. (k, the (map_of st k))"] ref_scan_keys by (auto simp: image_iff)

lemma ref_read_laws: "lsm_read_laws ref_env ref_kv"
  unfolding lsm_read_laws_def
proof (intro conjI allI impI)
  fix e p x r x' kvs
  assume "lsm_scan_prefix_with_values ref_env e p x = (r, x')" "r = Inr kvs"
  then have "kvs = map (\<lambda>k. (k, the (map_of (ref_store x e) k)))
      (remdups (filter (prefix p) (map fst (ref_store x e))))"
    by (auto simp: ref_env_def)
  then show "set kvs = {(k, v). ref_kv x e k = Some v \<and> prefix p k}"
    by (simp only: ref_scan_pairs ref_kv_def)
next
  fix e p x r x' ks
  assume "lsm_scan_prefix ref_env e p x = (r, x')" "r = Inr ks"
  then have "ks = remdups (filter (prefix p) (map fst (ref_store x e)))"
    by (auto simp: ref_env_def)
  then show "set ks = {k \<in> dom (ref_kv x e). prefix p k}"
    by (simp only: ref_scan_keys ref_kv_def)
qed (auto simp: ref_env_def ref_kv_def comp_def)

lemma ref_frame_laws: "lsm_frame_laws ref_env ref_kv"
  by (auto simp: lsm_frame_laws_def ref_env_def ref_kv_def update_conv' delete_conv' map_of_filter_notin
      map_add_dom_app_simps(3) dom_map_of_conv_image_fst)

lemma ref_keep_laws: "lsm_keep_laws ref_env ref_kv"
  by (simp add: lsm_keep_laws_def ref_env_def)

lemma ref_laws: "lsm_laws ref_env ref_kv"
  by (simp add: lsm_laws_def ref_write_laws ref_read_laws ref_keep_laws ref_frame_laws)

lemma ref_world_inv: "reg_inv (ref_world cap)"
  by (auto simp: reg_inv_def ref_world_def split: if_splits)

end
