(* ===== verification/Ffi_Engine.thy ===== *)
theory Ffi_Engine
  imports Lsm
begin

text \<open>
  The C functions of \<^verbatim>\<open>crates/f4kvs-ffi/src/lib.rs\<close> the Go binding calls: argument validation, engine
  lifecycle, single and batch writes, reads, deletes and maintenance over NUL-terminated keys. Every
  function takes the calling thread (for the error slot) and the world; the result is \<^const>\<open>None\<close> when
  the call would dereference a pointer that does not point at what it should. Values written through
  an output pointer are returned; arrays of the caller are passed by content, \<^const>\<open>None\<close> for NULL.
\<close>

definition MAX_KEY_LENGTH :: nat where "MAX_KEY_LENGTH = 1 * 1024 * 1024"

definition MAX_VALUE_LENGTH :: nat where "MAX_VALUE_LENGTH = 100 * 1024 * 1024"

section \<open>Validation\<close>

definition validate_engine ::
  "tid \<Rightarrow> addr \<Rightarrow> ('x, 'c) world \<Rightarrow> ((F4KvsResult + eid) \<times> ('x, 'c) world) option" where
  "validate_engine t p w =
     (if p = null then
        Some (Inl ErrorInvalidArgument, set_last_error t ''Invalid argument: engine is null'' w)
      else case heap w p of
             Some (EngineBox e) \<Rightarrow> Some (Inr e, w)
           | _ \<Rightarrow> None)"

definition null_message :: "bytes \<Rightarrow> bytes" where
  "null_message field_name =
     (if field_name = ''key'' then ''Invalid argument: key is null''
      else if field_name = ''value'' then ''Invalid argument: value is null''
      else if field_name = ''prefix'' then ''Invalid argument: prefix is null''
      else ''Invalid argument: unknown field is null'')"

definition validate_c_string ::
  "tid \<Rightarrow> addr \<Rightarrow> nat \<Rightarrow> bytes \<Rightarrow> ('x, 'c) world \<Rightarrow>
   ((F4KvsResult + bytes) \<times> ('x, 'c) world) option" where
  "validate_c_string t p max_length field_name w =
     (if p = null then
        Some (Inl ErrorInvalidArgument, set_last_error t (null_message field_name) w)
      else
        do {
          s \<leftarrow> cstr_from_ptr w p;
          if max_length < length s then
            Some (Inl ErrorInvalidArgument,
              set_last_error t
                (''Invalid argument: '' @ field_name @ '' exceeds maximum length of '' @
                 show_nat max_length @ '' bytes'') w)
          else case from_utf8 s of
            Inr u \<Rightarrow> Some (Inr u, w)
          | Inl e \<Rightarrow>
              Some (Inl ErrorInvalidArgument,
                set_last_error t (''Invalid UTF-8 in '' @ field_name @ '': '' @ show_utf8_error e) w)
        })"

definition validate_data_dir ::
  "tid \<Rightarrow> addr \<Rightarrow> ('x, 'c) world \<Rightarrow> ((F4KvsResult + bytes) \<times> ('x, 'c) world) option" where
  "validate_data_dir t p w =
     (if p = null then
        Some (Inl ErrorInvalidArgument, set_last_error t ''Invalid argument: data_dir is null'' w)
      else
        do {
          s \<leftarrow> cstr_from_ptr w p;
          case from_utf8 s of
            Inl e \<Rightarrow>
              Some (Inl ErrorInvalidArgument,
                set_last_error t (''Invalid UTF-8 in data_dir: '' @ show_utf8_error e) w)
          | Inr u \<Rightarrow>
              if u = [] then
                Some (Inl ErrorInvalidArgument,
                  set_last_error t ''Invalid argument: data_dir is empty'' w)
              else Some (Inr u, w)
        })"

definition reject_batch_count ::
  "('x, 'c) env \<Rightarrow> tid \<Rightarrow> eid \<Rightarrow> nat \<Rightarrow> ('x, 'c) world \<Rightarrow> F4KvsResult option \<times> ('x, 'c) world" where
  "reject_batch_count E t e count w =
     (let mx = lsm_max_batch_size E e (lsm w) in
      if mx < count then
        (Some ErrorInvalidArgument,
         set_last_error t
           (''Invalid argument: batch count '' @ show_nat count @ '' exceeds max_batch_size '' @
            show_nat mx) w)
      else (None, w))"

section \<open>Calling the library\<close>

definition lsm_call :: "('x \<Rightarrow> 'a \<times> 'x) \<Rightarrow> ('x, 'c) world \<Rightarrow> 'a \<times> ('x, 'c) world" where
  "lsm_call f w = (let (r, x') = f (lsm w) in (r, w\<lparr>lsm := x'\<rparr>))"

text \<open>The common tail of the functions that return only a result code.\<close>

definition unit_result ::
  "tid \<Rightarrow> bytes \<Rightarrow> unit reply \<times> ('x, 'c) world \<Rightarrow> F4KvsResult \<times> ('x, 'c) world" where
  "unit_result t label rw =
     (case rw of
        (Inr _, w) \<Rightarrow> (Success, w)
      | (Inl e, w) \<Rightarrow> (ErrorStorage, set_last_error t (label @ e) w))"

section \<open>Engine lifecycle\<close>

fun show_result :: "F4KvsResult \<Rightarrow> bytes" where
  "show_result Success = ''Success''"
| "show_result ErrorInvalidArgument = ''ErrorInvalidArgument''"
| "show_result ErrorNotFound = ''ErrorNotFound''"
| "show_result ErrorStorage = ''ErrorStorage''"
| "show_result ErrorNetwork = ''ErrorNetwork''"
| "show_result ErrorTimeout = ''ErrorTimeout''"
| "show_result ErrorUnknown = ''ErrorUnknown''"

fun f4kvs_result_to_string :: "F4KvsResult \<Rightarrow> bytes" where
  "f4kvs_result_to_string Success = ''Success''"
| "f4kvs_result_to_string ErrorInvalidArgument = ''Invalid argument''"
| "f4kvs_result_to_string ErrorNotFound = ''Not found''"
| "f4kvs_result_to_string ErrorStorage = ''Storage error''"
| "f4kvs_result_to_string ErrorNetwork = ''Network error''"
| "f4kvs_result_to_string ErrorTimeout = ''Timeout''"
| "f4kvs_result_to_string ErrorUnknown = ''Unknown error''"

definition path_join :: "bytes \<Rightarrow> bytes \<Rightarrow> bytes" where
  "path_join d f = (if d = [] \<or> last d = CHR ''/'' then d @ f else d @ ''/'' @ f)"

definition unique_data_dir :: "('x, 'c) env \<Rightarrow> ('x, 'c) world \<Rightarrow> bytes \<times> ('x, 'c) world" where
  "unique_data_dir E w =
     (path_join (temp_dir E)
        (''f4kvs_ffi_'' @ show_nat (process_id E) @ ''_'' @ show_nat (unat (engine_counter w))),
      w\<lparr>engine_counter := engine_counter w + 1\<rparr>)"

definition engine_config :: "('x, 'c) env \<Rightarrow> bytes \<Rightarrow> F4KvsOpenOptions option \<Rightarrow> LsmConfig" where
  "engine_config E data_dir options =
     (let c0 = default_config E;
          c1 = c0\<lparr>cfg_data_dir := data_dir,
                 cfg_wal := (cfg_wal c0)\<lparr>wal_dir := path_join data_dir ''wal'',
                                         wal_sync_mode := ''FsyncAsync''\<rparr>\<rparr>
      in apply_open_options (wal_apply_to E) options c1)"

definition open_lsm_engine ::
  "('x, 'c) env \<Rightarrow> tid \<Rightarrow> bytes \<Rightarrow> F4KvsOpenOptions option \<Rightarrow> ('x, 'c) world \<Rightarrow>
   (F4KvsResult + eid) \<times> ('x, 'c) world" where
  "open_lsm_engine E t data_dir options w =
     (case lsm_call (lsm_new E (engine_config E data_dir options)) w of
        (Inr e, w1) \<Rightarrow> (Inr e, w1\<lparr>arcs := (arcs w1)(e := 1)\<rparr>)
      | (Inl m, w1) \<Rightarrow> (Inl ErrorStorage, set_last_error t (''Failed to open LSM engine: '' @ m) w1))"

text \<open>\<^verbatim>\<open>Box::into_raw\<close> of the handle, or the error message of the three open functions and NULL.\<close>

definition box_engine ::
  "('x, 'c) env \<Rightarrow> tid \<Rightarrow> bytes \<Rightarrow> (F4KvsResult + eid) \<times> ('x, 'c) world \<Rightarrow> addr \<times> ('x, 'c) world" where
  "box_engine E t label rw =
     (case rw of
        (Inr e, w) \<Rightarrow> alloc_block (allocator E) (EngineBox e) w
      | (Inl c, w) \<Rightarrow> (null, set_last_error t (label @ show_result c) w))"

definition f4kvs_engine_new :: "('x, 'c) env \<Rightarrow> tid \<Rightarrow> ('x, 'c) world \<Rightarrow> addr \<times> ('x, 'c) world" where
  "f4kvs_engine_new E t w =
     (let (dir, w1) = unique_data_dir E w in
      box_engine E t ''Failed to create engine: '' (open_lsm_engine E t dir None w1))"

definition f4kvs_engine_open ::
  "('x, 'c) env \<Rightarrow> tid \<Rightarrow> addr \<Rightarrow> ('x, 'c) world \<Rightarrow> (addr \<times> ('x, 'c) world) option" where
  "f4kvs_engine_open E t data_dir w =
     do {
       (r, w1) \<leftarrow> validate_data_dir t data_dir w;
       case r of
         Inl _ \<Rightarrow> Some (null, w1)
       | Inr path \<Rightarrow>
           Some (box_engine E t ''Failed to open engine: '' (open_lsm_engine E t path None w1))
     }"

definition f4kvs_engine_open_ex ::
  "('x, 'c) env \<Rightarrow> tid \<Rightarrow> addr \<Rightarrow> mem option \<Rightarrow> ('x, 'c) world \<Rightarrow> (addr \<times> ('x, 'c) world) option" where
  "f4kvs_engine_open_ex E t data_dir options w =
     do {
       (r, w1) \<leftarrow> validate_data_dir t data_dir w;
       case r of
         Inl _ \<Rightarrow> Some (null, w1)
       | Inr path \<Rightarrow>
           do {
             owned \<leftarrow> read_open_options options;
             Some (box_engine E t ''Failed to open engine: '' (open_lsm_engine E t path owned w1))
           }
     }"

text \<open>Functions of the form: validate the handle, run one library call, report.\<close>

definition engine_unit_call ::
  "tid \<Rightarrow> bytes \<Rightarrow> (eid \<Rightarrow> 'x \<Rightarrow> unit reply \<times> 'x) \<Rightarrow> addr \<Rightarrow> ('x, 'c) world \<Rightarrow>
   (F4KvsResult \<times> ('x, 'c) world) option" where
  "engine_unit_call t label f engine w =
     do {
       (r, w1) \<leftarrow> validate_engine t engine w;
       case r of
         Inl c \<Rightarrow> Some (c, w1)
       | Inr e \<Rightarrow> Some (unit_result t label (lsm_call (f e) w1))
     }"

definition f4kvs_engine_close ::
  "('x, 'c) env \<Rightarrow> tid \<Rightarrow> addr \<Rightarrow> ('x, 'c) world \<Rightarrow> (F4KvsResult \<times> ('x, 'c) world) option" where
  "f4kvs_engine_close E t = engine_unit_call t ''Close failed: '' (lsm_shutdown E)"

definition f4kvs_engine_compact ::
  "('x, 'c) env \<Rightarrow> tid \<Rightarrow> addr \<Rightarrow> ('x, 'c) world \<Rightarrow> (F4KvsResult \<times> ('x, 'c) world) option" where
  "f4kvs_engine_compact E t = engine_unit_call t ''Compact failed: '' (lsm_compact E)"

definition f4kvs_engine_flush ::
  "('x, 'c) env \<Rightarrow> tid \<Rightarrow> addr \<Rightarrow> ('x, 'c) world \<Rightarrow> (F4KvsResult \<times> ('x, 'c) world) option" where
  "f4kvs_engine_flush E t = engine_unit_call t ''Flush failed: '' (lsm_flush E)"

definition f4kvs_engine_flush_wal ::
  "('x, 'c) env \<Rightarrow> tid \<Rightarrow> addr \<Rightarrow> ('x, 'c) world \<Rightarrow> (F4KvsResult \<times> ('x, 'c) world) option" where
  "f4kvs_engine_flush_wal E t = engine_unit_call t ''Flush WAL failed: '' (lsm_flush_wal E)"

definition f4kvs_engine_set_bulk_import ::
  "('x, 'c) env \<Rightarrow> tid \<Rightarrow> addr \<Rightarrow> 8 word \<Rightarrow> ('x, 'c) world \<Rightarrow> (F4KvsResult \<times> ('x, 'c) world) option" where
  "f4kvs_engine_set_bulk_import E t engine enabled w =
     do {
       (r, w1) \<leftarrow> validate_engine t engine w;
       case r of
         Inl c \<Rightarrow> Some (c, w1)
       | Inr e \<Rightarrow> Some (Success, w1\<lparr>lsm := lsm_set_bulk_import E e (enabled \<noteq> 0) (lsm w1)\<rparr>)
     }"

definition drop_arc :: "('x, 'c) env \<Rightarrow> eid \<Rightarrow> ('x, 'c) world \<Rightarrow> ('x, 'c) world" where
  "drop_arc E e w =
     (let w1 = w\<lparr>arcs := (arcs w)(e := arcs w e - 1)\<rparr> in
      if arcs w e \<le> 1 then w1\<lparr>lsm := lsm_drop E e (lsm w1)\<rparr> else w1)"

definition f4kvs_engine_free ::
  "('x, 'c) env \<Rightarrow> addr \<Rightarrow> ('x, 'c) world \<Rightarrow> ('x, 'c) world option" where
  "f4kvs_engine_free E p w =
     (if p = null then Some w
      else case heap w p of
             Some (EngineBox e) \<Rightarrow> Some (drop_arc E e (drop_block p w))
           | _ \<Rightarrow> None)"

section \<open>Writes\<close>

definition f4kvs_engine_put ::
  "('x, 'c) env \<Rightarrow> tid \<Rightarrow> addr \<Rightarrow> addr \<Rightarrow> addr \<Rightarrow> ('x, 'c) world \<Rightarrow>
   (F4KvsResult \<times> ('x, 'c) world) option" where
  "f4kvs_engine_put E t engine key val w =
     do {
       (r, w1) \<leftarrow> validate_engine t engine w;
       case r of
         Inl c \<Rightarrow> Some (c, w1)
       | Inr e \<Rightarrow> do {
           (rk, w2) \<leftarrow> validate_c_string t key MAX_KEY_LENGTH ''key'' w1;
           case rk of
             Inl c \<Rightarrow> Some (c, w2)
           | Inr k \<Rightarrow> do {
               (rv, w3) \<leftarrow> validate_c_string t val MAX_VALUE_LENGTH ''value'' w2;
               case rv of
                 Inl c \<Rightarrow> Some (c, w3)
               | Inr v \<Rightarrow> Some (unit_result t ''Put failed: '' (lsm_call (lsm_put E e k (VString v)) w3))
             }
         }
     }"

definition f4kvs_engine_put_bytes ::
  "('x, 'c) env \<Rightarrow> tid \<Rightarrow> addr \<Rightarrow> addr \<Rightarrow> addr \<Rightarrow> nat \<Rightarrow> ('x, 'c) world \<Rightarrow>
   (F4KvsResult \<times> ('x, 'c) world) option" where
  "f4kvs_engine_put_bytes E t engine key val value_len w =
     do {
       (r, w1) \<leftarrow> validate_engine t engine w;
       case r of
         Inl c \<Rightarrow> Some (c, w1)
       | Inr e \<Rightarrow> do {
           (rk, w2) \<leftarrow> validate_c_string t key MAX_KEY_LENGTH ''key'' w1;
           case rk of
             Inl c \<Rightarrow> Some (c, w2)
           | Inr k \<Rightarrow>
               if MAX_VALUE_LENGTH < value_len then
                 Some (ErrorInvalidArgument,
                   set_last_error t
                     (''Invalid argument: value exceeds maximum length of '' @
                      show_nat MAX_VALUE_LENGTH @ '' bytes'') w2)
               else if 0 < value_len \<and> val = null then
                 Some (ErrorInvalidArgument, set_last_error t ''Invalid argument: value is null'' w2)
               else do {
                 bs \<leftarrow> (if value_len = 0 then Some [] else slice_from_raw w2 val value_len);
                 Some (unit_result t ''Put bytes failed: '' (lsm_call (lsm_put E e k (VBytes bs)) w2))
               }
         }
     }"

text \<open>The loop of \<^verbatim>\<open>f4kvs_engine_batch_put_bytes\<close> over the three arrays; \<open>i\<close> is the index for the messages.\<close>

fun batch_put_items ::
  "tid \<Rightarrow> nat \<Rightarrow> nat \<Rightarrow> addr list \<Rightarrow> addr list \<Rightarrow> nat list \<Rightarrow> ('x, 'c) world \<Rightarrow>
   ((F4KvsResult + (bytes \<times> lsm_value) list) \<times> ('x, 'c) world) option" where
  "batch_put_items t 0 i ks vs ls w = Some (Inr [], w)"
| "batch_put_items t (Suc n) i (k # ks) (v # vs) (l # ls) w =
     do {
       (rk, w1) \<leftarrow> validate_c_string t k MAX_KEY_LENGTH ''key'' w;
       case rk of
         Inl c \<Rightarrow> Some (Inl c, w1)
       | Inr key \<Rightarrow>
           if MAX_VALUE_LENGTH < l then
             Some (Inl ErrorInvalidArgument,
               set_last_error t
                 (''Invalid argument: value at index '' @ show_nat i @
                  '' exceeds maximum length of '' @ show_nat MAX_VALUE_LENGTH @ '' bytes'') w1)
           else if 0 < l \<and> v = null then
             Some (Inl ErrorInvalidArgument,
               set_last_error t
                 (''Invalid argument: value at index '' @ show_nat i @ '' is null'') w1)
           else do {
             bs \<leftarrow> (if l = 0 then Some [] else slice_from_raw w1 v l);
             (rest, w2) \<leftarrow> batch_put_items t n (Suc i) ks vs ls w1;
             Some (case rest of
                     Inl c \<Rightarrow> (Inl c, w2)
                   | Inr items \<Rightarrow> (Inr ((key, VBytes bs) # items), w2))
           }
     }"
| "batch_put_items t (Suc n) i _ _ _ w = None"

definition f4kvs_engine_batch_put_bytes ::
  "('x, 'c) env \<Rightarrow> tid \<Rightarrow> addr \<Rightarrow> addr list option \<Rightarrow> addr list option \<Rightarrow> nat list option \<Rightarrow> nat \<Rightarrow>
   ('x, 'c) world \<Rightarrow> (F4KvsResult \<times> ('x, 'c) world) option" where
  "f4kvs_engine_batch_put_bytes E t engine keys vals value_lens count w =
     do {
       (r, w1) \<leftarrow> validate_engine t engine w;
       case r of
         Inl c \<Rightarrow> Some (c, w1)
       | Inr e \<Rightarrow>
           (case reject_batch_count E t e count w1 of
              (Some c, w2) \<Rightarrow> Some (c, w2)
            | (None, w2) \<Rightarrow>
                if 0 < count \<and> (keys = None \<or> vals = None \<or> value_lens = None) then
                  Some (ErrorInvalidArgument,
                    set_last_error t ''Invalid argument: keys, values, or value_lens is null'' w2)
                else do {
                  (ri, w3) \<leftarrow> batch_put_items t count 0 (case_option [] id keys)
                               (case_option [] id vals) (case_option [] id value_lens) w2;
                  case ri of
                    Inl c \<Rightarrow> Some (c, w3)
                  | Inr items \<Rightarrow>
                      Some (unit_result t ''Batch put bytes failed: ''
                              (lsm_call (lsm_batch_put E e items) w3))
                })
     }"

definition f4kvs_engine_delete ::
  "('x, 'c) env \<Rightarrow> tid \<Rightarrow> addr \<Rightarrow> addr \<Rightarrow> ('x, 'c) world \<Rightarrow> (F4KvsResult \<times> ('x, 'c) world) option" where
  "f4kvs_engine_delete E t engine key w =
     do {
       (r, w1) \<leftarrow> validate_engine t engine w;
       case r of
         Inl c \<Rightarrow> Some (c, w1)
       | Inr e \<Rightarrow> do {
           (rk, w2) \<leftarrow> validate_c_string t key MAX_KEY_LENGTH ''key'' w1;
           case rk of
             Inl c \<Rightarrow> Some (c, w2)
           | Inr k \<Rightarrow> Some (unit_result t ''Delete failed: '' (lsm_call (lsm_delete E e k) w2))
         }
     }"

fun batch_delete_keys ::
  "tid \<Rightarrow> nat \<Rightarrow> addr list \<Rightarrow> ('x, 'c) world \<Rightarrow>
   ((F4KvsResult + bytes list) \<times> ('x, 'c) world) option" where
  "batch_delete_keys t 0 ks w = Some (Inr [], w)"
| "batch_delete_keys t (Suc n) (k # ks) w =
     do {
       (rk, w1) \<leftarrow> validate_c_string t k MAX_KEY_LENGTH ''key'' w;
       case rk of
         Inl c \<Rightarrow> Some (Inl c, w1)
       | Inr key \<Rightarrow> do {
           (rest, w2) \<leftarrow> batch_delete_keys t n ks w1;
           Some (case rest of Inl c \<Rightarrow> (Inl c, w2) | Inr keys \<Rightarrow> (Inr (key # keys), w2))
         }
     }"
| "batch_delete_keys t (Suc n) [] w = None"

definition f4kvs_engine_batch_delete ::
  "('x, 'c) env \<Rightarrow> tid \<Rightarrow> addr \<Rightarrow> addr list option \<Rightarrow> nat \<Rightarrow> ('x, 'c) world \<Rightarrow>
   (F4KvsResult \<times> ('x, 'c) world) option" where
  "f4kvs_engine_batch_delete E t engine keys count w =
     do {
       (r, w1) \<leftarrow> validate_engine t engine w;
       case r of
         Inl c \<Rightarrow> Some (c, w1)
       | Inr e \<Rightarrow>
           (case reject_batch_count E t e count w1 of
              (Some c, w2) \<Rightarrow> Some (c, w2)
            | (None, w2) \<Rightarrow>
                if 0 < count \<and> keys = None then
                  Some (ErrorInvalidArgument, set_last_error t ''Invalid argument: keys is null'' w2)
                else do {
                  (rk, w3) \<leftarrow> batch_delete_keys t count (case_option [] id keys) w2;
                  case rk of
                    Inl c \<Rightarrow> Some (c, w3)
                  | Inr ks \<Rightarrow>
                      Some (unit_result t ''Batch delete failed: ''
                              (lsm_call (lsm_batch_delete E e ks) w3))
                })
     }"

section \<open>Reads\<close>

text \<open>The second component of the result is what is stored through the output pointers, if anything is.\<close>

definition f4kvs_engine_get ::
  "('x, 'c) env \<Rightarrow> tid \<Rightarrow> addr \<Rightarrow> addr \<Rightarrow> addr \<Rightarrow> ('x, 'c) world \<Rightarrow>
   ((F4KvsResult \<times> addr option) \<times> ('x, 'c) world) option" where
  "f4kvs_engine_get E t engine key value_out w =
     (if value_out = null then
        Some ((ErrorInvalidArgument, None), set_last_error t ''Invalid argument: value_out is null'' w)
      else do {
        (r, w1) \<leftarrow> validate_engine t engine w;
        case r of
          Inl c \<Rightarrow> Some ((c, None), w1)
        | Inr e \<Rightarrow> do {
            (rk, w2) \<leftarrow> validate_c_string t key MAX_KEY_LENGTH ''key'' w1;
            case rk of
              Inl c \<Rightarrow> Some ((c, None), w2)
            | Inr k \<Rightarrow>
                (case lsm_call (lsm_get E e k) w2 of
                   (Inr (Some v), w3) \<Rightarrow>
                     (case allocate_c_string (allocator E) t (value_to_string v) w3 of
                        (Inr p, w4) \<Rightarrow> Some ((Success, Some p), w4)
                      | (Inl c, w4) \<Rightarrow> Some ((c, None), w4))
                 | (Inr None, w3) \<Rightarrow> Some ((ErrorNotFound, Some null), w3)
                 | (Inl m, w3) \<Rightarrow> Some ((ErrorStorage, None), set_last_error t (''Get failed: '' @ m) w3))
          }
      })"

definition f4kvs_engine_get_bytes ::
  "('x, 'c) env \<Rightarrow> tid \<Rightarrow> addr \<Rightarrow> addr \<Rightarrow> addr \<Rightarrow> addr \<Rightarrow> ('x, 'c) world \<Rightarrow>
   ((F4KvsResult \<times> (addr \<times> nat) option) \<times> ('x, 'c) world) option" where
  "f4kvs_engine_get_bytes E t engine key value_out value_len_out w =
     (if value_out = null \<or> value_len_out = null then
        Some ((ErrorInvalidArgument, None),
              set_last_error t ''Invalid argument: output pointer is null'' w)
      else do {
        (r, w1) \<leftarrow> validate_engine t engine w;
        case r of
          Inl c \<Rightarrow> Some ((c, None), w1)
        | Inr e \<Rightarrow> do {
            (rk, w2) \<leftarrow> validate_c_string t key MAX_KEY_LENGTH ''key'' w1;
            case rk of
              Inl c \<Rightarrow> Some ((c, None), w2)
            | Inr k \<Rightarrow>
                (case lsm_call (lsm_get E e k) w2 of
                   (Inr (Some v), w3) \<Rightarrow>
                     (let (p, w4) = allocate_bytes (allocator E) (value_to_bytes v) w3 in
                      Some ((Success, Some p), w4))
                 | (Inr None, w3) \<Rightarrow> Some ((ErrorNotFound, Some (null, 0)), w3)
                 | (Inl m, w3) \<Rightarrow>
                     Some ((ErrorStorage, None), set_last_error t (''Get bytes failed: '' @ m) w3))
          }
      })"

definition f4kvs_engine_exists ::
  "('x, 'c) env \<Rightarrow> tid \<Rightarrow> addr \<Rightarrow> addr \<Rightarrow> addr \<Rightarrow> ('x, 'c) world \<Rightarrow>
   ((F4KvsResult \<times> 32 word option) \<times> ('x, 'c) world) option" where
  "f4kvs_engine_exists E t engine key exists_out w =
     (if exists_out = null then
        Some ((ErrorInvalidArgument, None), set_last_error t ''Invalid argument: exists_out is null'' w)
      else do {
        (r, w1) \<leftarrow> validate_engine t engine w;
        case r of
          Inl c \<Rightarrow> Some ((c, None), w1)
        | Inr e \<Rightarrow> do {
            (rk, w2) \<leftarrow> validate_c_string t key MAX_KEY_LENGTH ''key'' w1;
            case rk of
              Inl c \<Rightarrow> Some ((c, None), w2)
            | Inr k \<Rightarrow>
                (case lsm_call (lsm_exists E e k) w2 of
                   (Inr b, w3) \<Rightarrow> Some ((Success, Some (if b then 1 else 0)), w3)
                 | (Inl m, w3) \<Rightarrow>
                     Some ((ErrorStorage, None), set_last_error t (''Exists check failed: '' @ m) w3))
          }
      })"

end
