(* ===== verification/Ffi_Scan.thy ===== *)
theory Ffi_Scan
  imports Ffi_Engine
begin

text \<open>
  Prefix scans over the C interface and the functions that free their results
  (\<^verbatim>\<open>f4kvs_engine_scan_prefix_keys\<close>, \<^verbatim>\<open>f4kvs_engine_scan_prefix\<close>, \<^verbatim>\<open>fill_scan_result\<close> and the two free
  functions of \<^verbatim>\<open>lib.rs\<close>). A result struct is a pair of an array pointer and a count; the array is
  one heap block, and the strings and buffers it points at are registered blocks of their own.
\<close>

record F4KvsKeyScanResult =
  ks_keys :: addr
  ks_count :: nat

record F4KvsScanResult =
  sr_pairs :: addr
  sr_count :: nat

fun free_strings :: "addr list \<Rightarrow> ('x, 'c) world \<Rightarrow> ('x, 'c) world option" where
  "free_strings [] w = Some w"
| "free_strings (p # ps) w = do { w1 \<leftarrow> f4kvs_string_free p w; free_strings ps w1 }"

fun free_pairs :: "F4KvsKVPair list \<Rightarrow> ('x, 'c) world \<Rightarrow> ('x, 'c) world option" where
  "free_pairs [] w = Some w"
| "free_pairs (q # qs) w =
     do {
       w1 \<leftarrow> f4kvs_string_free (pair_key q) w;
       w2 \<leftarrow> f4kvs_bytes_free (pair_value q) w1;
       free_pairs qs w2
     }"

text \<open>The loops that copy the keys, or the pairs, out; on a failure everything handed out so far is freed.\<close>

fun alloc_key_ptrs ::
  "'c allocator \<Rightarrow> tid \<Rightarrow> bytes list \<Rightarrow> addr list \<Rightarrow> ('x, 'c) world \<Rightarrow>
   ((F4KvsResult + addr list) \<times> ('x, 'c) world) option" where
  "alloc_key_ptrs al t [] ptrs w = Some (Inr ptrs, w)"
| "alloc_key_ptrs al t (k # ks) ptrs w =
     (case allocate_c_string al t k w of
        (Inr p, w1) \<Rightarrow> alloc_key_ptrs al t ks (ptrs @ [p]) w1
      | (Inl c, w1) \<Rightarrow> do { w2 \<leftarrow> free_strings ptrs w1; Some (Inl c, w2) })"

fun alloc_pairs ::
  "'c allocator \<Rightarrow> tid \<Rightarrow> (bytes \<times> lsm_value) list \<Rightarrow> F4KvsKVPair list \<Rightarrow> ('x, 'c) world \<Rightarrow>
   ((F4KvsResult + F4KvsKVPair list) \<times> ('x, 'c) world) option" where
  "alloc_pairs al t [] qs w = Some (Inr qs, w)"
| "alloc_pairs al t ((k, v) # kvs) qs w =
     (case allocate_c_string al t k w of
        (Inr kp, w1) \<Rightarrow>
          (let bs = value_to_bytes v; ((vp, _), w2) = allocate_bytes al bs w1 in
           alloc_pairs al t kvs
             (qs @ [\<lparr>pair_key = kp, pair_value = vp, pair_value_len = length bs\<rparr>]) w2)
      | (Inl c, w1) \<Rightarrow> do { w2 \<leftarrow> free_pairs qs w1; Some (Inl c, w2) })"

definition fill_key_scan ::
  "'c allocator \<Rightarrow> tid \<Rightarrow> bytes list \<Rightarrow> ('x, 'c) world \<Rightarrow>
   ((F4KvsResult \<times> F4KvsKeyScanResult option) \<times> ('x, 'c) world) option" where
  "fill_key_scan al t keys w =
     (if keys = [] then Some ((Success, Some \<lparr>ks_keys = null, ks_count = 0\<rparr>), w)
      else do {
        (r, w1) \<leftarrow> alloc_key_ptrs al t keys [] w;
        case r of
          Inl c \<Rightarrow> Some ((c, None), w1)
        | Inr ptrs \<Rightarrow>
            (let (p, w2) = alloc_block al (KeyPtrs ptrs) w1 in
             Some ((Success, Some \<lparr>ks_keys = p, ks_count = length keys\<rparr>), w2))
      })"

definition f4kvs_engine_scan_prefix_keys ::
  "('x, 'c) env \<Rightarrow> tid \<Rightarrow> addr \<Rightarrow> addr \<Rightarrow> addr \<Rightarrow> ('x, 'c) world \<Rightarrow>
   ((F4KvsResult \<times> F4KvsKeyScanResult option) \<times> ('x, 'c) world) option" where
  "f4kvs_engine_scan_prefix_keys E t engine pfx result_out w =
     (if result_out = null then
        Some ((ErrorInvalidArgument, None), set_last_error t ''Invalid argument: result_out is null'' w)
      else do {
        (r, w1) \<leftarrow> validate_engine t engine w;
        case r of
          Inl c \<Rightarrow> Some ((c, None), w1)
        | Inr e \<Rightarrow> do {
            (rp, w2) \<leftarrow> validate_c_string t pfx MAX_KEY_LENGTH ''prefix'' w1;
            case rp of
              Inl c \<Rightarrow> Some ((c, None), w2)
            | Inr p \<Rightarrow>
                (case lsm_call (lsm_scan_prefix E e p) w2 of
                   (Inr keys, w3) \<Rightarrow> fill_key_scan (allocator E) t keys w3
                 | (Inl m, w3) \<Rightarrow>
                     Some ((ErrorStorage, None),
                           set_last_error t (''Scan prefix keys failed: '' @ m) w3))
          }
      })"

definition f4kvs_key_scan_result_free ::
  "F4KvsKeyScanResult option \<Rightarrow> ('x, 'c) world \<Rightarrow> (F4KvsKeyScanResult option \<times> ('x, 'c) world) option" where
  "f4kvs_key_scan_result_free result w =
     (case result of
        None \<Rightarrow> Some (None, w)
      | Some scan \<Rightarrow>
          if ks_keys scan \<noteq> null \<and> 0 < ks_count scan then
            (case heap w (ks_keys scan) of
               Some (KeyPtrs ptrs) \<Rightarrow>
                 if length ptrs = ks_count scan then do {
                   w1 \<leftarrow> free_strings ptrs w;
                   Some (Some \<lparr>ks_keys = null, ks_count = 0\<rparr>, drop_block (ks_keys scan) w1)
                 }
                 else None
             | _ \<Rightarrow> None)
          else Some (Some scan, w))"

definition fill_scan_result ::
  "'c allocator \<Rightarrow> tid \<Rightarrow> (bytes \<times> lsm_value) list \<Rightarrow> ('x, 'c) world \<Rightarrow>
   ((F4KvsResult \<times> F4KvsScanResult option) \<times> ('x, 'c) world) option" where
  "fill_scan_result al t items w =
     (if items = [] then Some ((Success, Some \<lparr>sr_pairs = null, sr_count = 0\<rparr>), w)
      else do {
        (r, w1) \<leftarrow> alloc_pairs al t items [] w;
        case r of
          Inl c \<Rightarrow> Some ((c, None), w1)
        | Inr pairs \<Rightarrow>
            (let (p, w2) = alloc_block al (KVPairs pairs) w1 in
             Some ((Success, Some \<lparr>sr_pairs = p, sr_count = length items\<rparr>), w2))
      })"

definition f4kvs_engine_scan_prefix ::
  "('x, 'c) env \<Rightarrow> tid \<Rightarrow> addr \<Rightarrow> addr \<Rightarrow> addr \<Rightarrow> ('x, 'c) world \<Rightarrow>
   ((F4KvsResult \<times> F4KvsScanResult option) \<times> ('x, 'c) world) option" where
  "f4kvs_engine_scan_prefix E t engine pfx result_out w =
     (if result_out = null then
        Some ((ErrorInvalidArgument, None), set_last_error t ''Invalid argument: result_out is null'' w)
      else do {
        (r, w1) \<leftarrow> validate_engine t engine w;
        case r of
          Inl c \<Rightarrow> Some ((c, None), w1)
        | Inr e \<Rightarrow> do {
            (rp, w2) \<leftarrow> validate_c_string t pfx MAX_KEY_LENGTH ''prefix'' w1;
            case rp of
              Inl c \<Rightarrow> Some ((c, None), w2)
            | Inr p \<Rightarrow>
                (case lsm_call (lsm_scan_prefix_with_values E e p) w2 of
                   (Inr items, w3) \<Rightarrow> fill_scan_result (allocator E) t items w3
                 | (Inl m, w3) \<Rightarrow>
                     Some ((ErrorStorage, None), set_last_error t (''Scan prefix failed: '' @ m) w3))
          }
      })"

definition f4kvs_scan_result_free ::
  "F4KvsScanResult option \<Rightarrow> ('x, 'c) world \<Rightarrow> (F4KvsScanResult option \<times> ('x, 'c) world) option" where
  "f4kvs_scan_result_free result w =
     (case result of
        None \<Rightarrow> Some (None, w)
      | Some scan \<Rightarrow>
          if sr_pairs scan \<noteq> null \<and> 0 < sr_count scan then
            (case heap w (sr_pairs scan) of
               Some (KVPairs pairs) \<Rightarrow>
                 if length pairs = sr_count scan then do {
                   w1 \<leftarrow> free_pairs pairs w;
                   Some (Some \<lparr>sr_pairs = null, sr_count = 0\<rparr>, drop_block (sr_pairs scan) w1)
                 }
                 else None
             | _ \<Rightarrow> None)
          else Some (Some \<lparr>sr_pairs = null, sr_count = 0\<rparr>, w))"

end
