(* ===== verification/Go_Engine.thy ===== *)
theory Go_Engine
  imports Ffi_Scan
begin

text \<open>
  The Go binding \<^verbatim>\<open>go/f4kvs.go\<close>: the engine object with its read-write mutex, its constructors and its
  methods, each of which marshals its arguments into C memory, calls the C interface, converts the
  result and runs its deferred clean-up. A method takes the OS thread \<open>tc\<close> of the C call and the
  thread \<open>te\<close> on which \<^verbatim>\<open>lastError\<close> later runs, which cgo does not promise to be the same. A Go map
  argument is the list of its entries in the order in which \<^verbatim>\<open>range\<close> happens to visit them.
\<close>

section \<open>Errors, constants and state\<close>

text \<open>\<open>Errorf\<close> keeps the format string and the arguments; \<open>Wrapf\<close> is an \<^verbatim>\<open>Errorf\<close> with a \<^verbatim>\<open>%w\<close> argument.\<close>

datatype go_error =
    ErrNotFound
  | ErrClosed
  | ErrTxnCommitted
  | ErrTxnRolledBack
  | Errorf bytes "bytes list"
  | Wrapf bytes go_error

definition WalEngineSegment :: "8 word" where "WalEngineSegment = 0"

definition WalEngineFrame :: "8 word" where "WalEngineFrame = 1"

definition WalEngineIndexed :: "8 word" where "WalEngineIndexed = 2"

definition WalDurabilityStrict :: "8 word" where "WalDurabilityStrict = 0"

definition WalDurabilityAmortized :: "8 word" where "WalDurabilityAmortized = 1"

definition WalDurabilityBuffered :: "8 word" where "WalDurabilityBuffered = 2"

record F4KVS =
  handle :: addr
  mu_readers :: nat
  mu_writer :: bool
  closed :: bool

record ('x, 'c) go_state =
  g_engine :: F4KVS
  g_world :: "('x, 'c) world"

record OpenOptions =
  GroupCommitEnabled :: bool
  GroupCommitMaxWaitMs :: "32 word"
  GroupCommitMaxBatchSz :: "32 word"
  GroupCommitWaitDurable :: bool
  WalEngineOpt :: "8 word"
  WalDurabilityOpt :: "8 word"
  GroupCommitIdleFlushMs :: "32 word"
  MaxBatchSize :: "32 word"
  CompactionBackground :: "8 word"
  MaxSSTablesPerLevel :: "32 word"
  MemtableMaxSize :: "32 word"
  SstableTargetSize :: "32 word"
  SstableMaxSize :: "32 word"

section \<open>The read-write mutex\<close>

text \<open>\<^const>\<open>None\<close> is a lock that blocks, or the fatal error of unlocking a mutex that is not locked.\<close>

definition RLock :: "('x, 'c) go_state \<Rightarrow> ('x, 'c) go_state option" where
  "RLock g =
     (if mu_writer (g_engine g) then None
      else Some (g\<lparr>g_engine := (g_engine g)\<lparr>mu_readers := Suc (mu_readers (g_engine g))\<rparr>\<rparr>))"

definition RUnlock :: "('x, 'c) go_state \<Rightarrow> ('x, 'c) go_state option" where
  "RUnlock g =
     (if mu_readers (g_engine g) = 0 then None
      else Some (g\<lparr>g_engine := (g_engine g)\<lparr>mu_readers := mu_readers (g_engine g) - 1\<rparr>\<rparr>))"

definition Lock :: "('x, 'c) go_state \<Rightarrow> ('x, 'c) go_state option" where
  "Lock g =
     (if mu_writer (g_engine g) \<or> 0 < mu_readers (g_engine g) then None
      else Some (g\<lparr>g_engine := (g_engine g)\<lparr>mu_writer := True\<rparr>\<rparr>))"

definition Unlock :: "('x, 'c) go_state \<Rightarrow> ('x, 'c) go_state option" where
  "Unlock g =
     (if \<not> mu_writer (g_engine g) then None
      else Some (g\<lparr>g_engine := (g_engine g)\<lparr>mu_writer := False\<rparr>\<rparr>))"

definition rLockLive :: "('x, 'c) go_state \<Rightarrow> (go_error option \<times> ('x, 'c) go_state) option" where
  "rLockLive g =
     do {
       g1 \<leftarrow> RLock g;
       if closed (g_engine g1) \<or> handle (g_engine g1) = null then
         do { g2 \<leftarrow> RUnlock g1; Some (Some ErrClosed, g2) }
       else Some (None, g1)
     }"

section \<open>Helpers\<close>

definition lastError :: "tid \<Rightarrow> ('x, 'c) world \<Rightarrow> bytes" where
  "lastError t w = (case f4kvs_get_last_error t w of None \<Rightarrow> ''unknown error'' | Some m \<Rightarrow> m)"

text \<open>\<^verbatim>\<open>C.int\<close> of a \<^verbatim>\<open>size_t\<close>, and \<^verbatim>\<open>C.GoBytes\<close>, which panics on a negative length.\<close>

definition c_int :: "nat \<Rightarrow> int" where
  "c_int n = sint (of_nat n :: 32 word)"

definition go_bytes :: "('x, 'c) world \<Rightarrow> addr \<Rightarrow> int \<Rightarrow> bytes option" where
  "go_bytes w p n = (if n < 0 then None else slice_from_raw w p (nat n))"

text \<open>The address of a Go variable passed as an output pointer; the C side only compares it with NULL.\<close>

definition go_var :: addr where "go_var = 1"

text \<open>The memory of a Go byte slice, lent to C for the duration of a call; NULL for an empty slice.\<close>

definition lend_slice :: "'c allocator \<Rightarrow> bytes \<Rightarrow> ('x, 'c) world \<Rightarrow> addr \<times> ('x, 'c) world" where
  "lend_slice al v w = (if v = [] then (null, w) else alloc_block al (CMem v) w)"

definition reclaim_slice :: "addr \<Rightarrow> ('x, 'c) world \<Rightarrow> ('x, 'c) world" where
  "reclaim_slice p w = (if p = null then w else drop_block p w)"

section \<open>Constructors\<close>

definition new_F4KVS :: "addr \<Rightarrow> F4KVS" where
  "new_F4KVS h = \<lparr>handle = h, mu_readers = 0, mu_writer = False, closed = False\<rparr>"

definition NewMemoryEngine ::
  "('x, 'c) env \<Rightarrow> tid \<Rightarrow> tid \<Rightarrow> ('x, 'c) world \<Rightarrow> (go_error + F4KVS) \<times> ('x, 'c) world" where
  "NewMemoryEngine E tc te w =
     (let (h, w1) = f4kvs_engine_new E tc w in
      if h = null then (Inl (Errorf ''f4kvs memory engine: %s'' [lastError te w1]), w1)
      else (Inr (new_F4KVS h), w1))"

definition copts_of :: "OpenOptions \<Rightarrow> F4KvsOpenOptions" where
  "copts_of opts =
     \<lparr>oo_struct_size = of_nat size_of_options,
      oo_group_commit_enabled = (if GroupCommitEnabled opts then 1 else 0),
      oo_group_commit_max_wait_ms = GroupCommitMaxWaitMs opts,
      oo_group_commit_max_batch_size = GroupCommitMaxBatchSz opts,
      oo_group_commit_wait_durable = (if GroupCommitWaitDurable opts then 1 else 0),
      oo_wal_engine = WalEngineOpt opts,
      oo_wal_durability = WalDurabilityOpt opts,
      oo_group_commit_idle_flush_ms = GroupCommitIdleFlushMs opts,
      oo_max_batch_size = MaxBatchSize opts,
      oo_compaction_background = CompactionBackground opts,
      oo_max_sstables_per_level = MaxSSTablesPerLevel opts,
      oo_memtable_max_size = MemtableMaxSize opts,
      oo_sstable_target_size = SstableTargetSize opts,
      oo_sstable_max_size = SstableMaxSize opts\<rparr>"

text \<open>\<open>pad\<close> is the content of the padding bytes of the C struct.\<close>

definition NewPersistentEngineWithOptions ::
  "('x, 'c) env \<Rightarrow> (nat \<Rightarrow> 8 word) \<Rightarrow> tid \<Rightarrow> tid \<Rightarrow> bytes \<Rightarrow> OpenOptions option \<Rightarrow> ('x, 'c) world \<Rightarrow>
   ((go_error + F4KVS) \<times> ('x, 'c) world) option" where
  "NewPersistentEngineWithOptions E pad tc te path opts w =
     do {
       let (cpath, w1) = c_string (allocator E) path w;
       (h, w2) \<leftarrow> (case opts of
                     None \<Rightarrow> f4kvs_engine_open E tc cpath w1
                   | Some op \<Rightarrow>
                       f4kvs_engine_open_ex E tc cpath (Some (encode_options pad (copts_of op))) w1);
       let r = (if h = null then Inl (Errorf ''f4kvs open %s: %s'' [path, lastError te w2])
                else Inr (new_F4KVS h));
       w3 \<leftarrow> c_free cpath w2;
       Some (r, w3)
     }"

definition NewPersistentEngine ::
  "('x, 'c) env \<Rightarrow> tid \<Rightarrow> tid \<Rightarrow> bytes \<Rightarrow> ('x, 'c) world \<Rightarrow>
   ((go_error + F4KVS) \<times> ('x, 'c) world) option" where
  "NewPersistentEngine E tc te path w =
     NewPersistentEngineWithOptions E (\<lambda>_. 0) tc te path None w"

section \<open>Single-key methods\<close>

definition GetBytes ::
  "('x, 'c) env \<Rightarrow> tid \<Rightarrow> tid \<Rightarrow> bytes \<Rightarrow> ('x, 'c) go_state \<Rightarrow>
   ((go_error + bytes) \<times> ('x, 'c) go_state) option" where
  "GetBytes E tc te key g =
     do {
       (live, g1) \<leftarrow> rLockLive g;
       case live of
         Some err \<Rightarrow> Some (Inl err, g1)
       | None \<Rightarrow> do {
           let (ckey, w1) = c_string (allocator E) key (g_world g1);
           ((res, out), w2) \<leftarrow> f4kvs_engine_get_bytes E tc (handle (g_engine g1)) ckey go_var go_var w1;
           (r, w3) \<leftarrow>
             (if res = ErrorNotFound then Some (Inl ErrNotFound, w2)
              else if res \<noteq> Success then
                Some (Inl (Errorf ''f4kvs get %q: %s'' [key, lastError te w2]), w2)
              else
                (let (p, n) = (case out of None \<Rightarrow> (null, 0) | Some pn \<Rightarrow> pn) in
                 do {
                   v \<leftarrow> (if p = null \<or> n = 0 then Some [] else go_bytes w2 p (c_int n));
                   w3 \<leftarrow> f4kvs_bytes_free p w2;
                   Some (Inr v, w3)
                 }));
           w4 \<leftarrow> c_free ckey w3;
           g2 \<leftarrow> RUnlock (g1\<lparr>g_world := w4\<rparr>);
           Some (r, g2)
         }
     }"

definition Get ::
  "('x, 'c) env \<Rightarrow> tid \<Rightarrow> tid \<Rightarrow> bytes \<Rightarrow> ('x, 'c) go_state \<Rightarrow>
   ((go_error + bytes) \<times> ('x, 'c) go_state) option" where
  "Get E tc te key g =
     do {
       (r, g1) \<leftarrow> GetBytes E tc te key g;
       Some (case r of Inl err \<Rightarrow> (Inl err, g1) | Inr v \<Rightarrow> (Inr v, g1))
     }"

definition PutBytes ::
  "('x, 'c) env \<Rightarrow> tid \<Rightarrow> tid \<Rightarrow> bytes \<Rightarrow> bytes \<Rightarrow> ('x, 'c) go_state \<Rightarrow>
   (go_error option \<times> ('x, 'c) go_state) option" where
  "PutBytes E tc te key val g =
     do {
       (live, g1) \<leftarrow> rLockLive g;
       case live of
         Some err \<Rightarrow> Some (Some err, g1)
       | None \<Rightarrow> do {
           let (ckey, w1) = c_string (allocator E) key (g_world g1);
           let (ptr, w2) = lend_slice (allocator E) val w1;
           (res, w3) \<leftarrow> f4kvs_engine_put_bytes E tc (handle (g_engine g1)) ckey ptr (length val) w2;
           let w4 = reclaim_slice ptr w3;
           let r = (if res \<noteq> Success
                    then Some (Errorf ''f4kvs put %q: %s'' [key, lastError te w4]) else None);
           w5 \<leftarrow> c_free ckey w4;
           g2 \<leftarrow> RUnlock (g1\<lparr>g_world := w5\<rparr>);
           Some (r, g2)
         }
     }"

definition Put ::
  "('x, 'c) env \<Rightarrow> tid \<Rightarrow> tid \<Rightarrow> bytes \<Rightarrow> bytes \<Rightarrow> ('x, 'c) go_state \<Rightarrow>
   (go_error option \<times> ('x, 'c) go_state) option" where
  "Put E tc te key val g = PutBytes E tc te key val g"

definition Delete ::
  "('x, 'c) env \<Rightarrow> tid \<Rightarrow> tid \<Rightarrow> bytes \<Rightarrow> ('x, 'c) go_state \<Rightarrow>
   (go_error option \<times> ('x, 'c) go_state) option" where
  "Delete E tc te key g =
     do {
       (live, g1) \<leftarrow> rLockLive g;
       case live of
         Some err \<Rightarrow> Some (Some err, g1)
       | None \<Rightarrow> do {
           let (ckey, w1) = c_string (allocator E) key (g_world g1);
           (res, w2) \<leftarrow> f4kvs_engine_delete E tc (handle (g_engine g1)) ckey w1;
           let r = (if res = ErrorNotFound then None
                    else if res \<noteq> Success
                    then Some (Errorf ''f4kvs delete %q: %s'' [key, lastError te w2])
                    else None);
           w3 \<leftarrow> c_free ckey w2;
           g2 \<leftarrow> RUnlock (g1\<lparr>g_world := w3\<rparr>);
           Some (r, g2)
         }
     }"

section \<open>Scans\<close>

fun go_strings :: "('x, 'c) world \<Rightarrow> addr list \<Rightarrow> bytes list option" where
  "go_strings w [] = Some []"
| "go_strings w (p # ps) = do { s \<leftarrow> cstr_from_ptr w p; ss \<leftarrow> go_strings w ps; Some (s # ss) }"

text \<open>The loop over the key array; its cast to \<^verbatim>\<open>[1 << 30]*C.char\<close> limits a result to \<open>2 ^ 30\<close> keys.\<close>

definition read_keys :: "F4KvsKeyScanResult \<Rightarrow> ('x, 'c) world \<Rightarrow> bytes list option" where
  "read_keys result w =
     (if ks_keys result \<noteq> null \<and> 0 < ks_count result then
        (case heap w (ks_keys result) of
           Some (KeyPtrs ptrs) \<Rightarrow>
             if ks_count result \<le> 2 ^ 30 \<and> ks_count result \<le> length ptrs
             then go_strings w (take (ks_count result) ptrs) else None
         | _ \<Rightarrow> None)
      else Some [])"

text \<open>\<^const>\<open>None\<close> in the result is the nil slice.\<close>

definition scanPrefixLocked ::
  "('x, 'c) env \<Rightarrow> tid \<Rightarrow> bytes \<Rightarrow> ('x, 'c) go_state \<Rightarrow>
   (bytes list option \<times> ('x, 'c) go_state) option" where
  "scanPrefixLocked E tc pfx g =
     do {
       let (cprefix, w1) = c_string (allocator E) pfx (g_world g);
       ((res, out), w2) \<leftarrow>
         f4kvs_engine_scan_prefix_keys E tc (handle (g_engine g)) cprefix go_var w1;
       (r, w3) \<leftarrow>
         (if res \<noteq> Success then Some (None, w2)
          else
            (let result = (case out of None \<Rightarrow> \<lparr>ks_keys = null, ks_count = 0\<rparr> | Some s \<Rightarrow> s) in
             do {
               keys \<leftarrow> read_keys result w2;
               (_, w3) \<leftarrow> f4kvs_key_scan_result_free (Some result) w2;
               Some (Some keys, w3)
             }));
       w4 \<leftarrow> c_free cprefix w3;
       Some (r, g\<lparr>g_world := w4\<rparr>)
     }"

definition ScanPrefixKeys ::
  "('x, 'c) env \<Rightarrow> tid \<Rightarrow> bytes \<Rightarrow> ('x, 'c) go_state \<Rightarrow>
   (bytes list option \<times> ('x, 'c) go_state) option" where
  "ScanPrefixKeys E tc pfx g =
     do {
       g1 \<leftarrow> RLock g;
       (r, g2) \<leftarrow>
         (if closed (g_engine g1) \<or> handle (g_engine g1) = null then Some (None, g1)
          else scanPrefixLocked E tc pfx g1);
       g3 \<leftarrow> RUnlock g2;
       Some (r, g3)
     }"

definition GetAllKeys ::
  "('x, 'c) env \<Rightarrow> tid \<Rightarrow> ('x, 'c) go_state \<Rightarrow> (bytes list option \<times> ('x, 'c) go_state) option" where
  "GetAllKeys E tc g = ScanPrefixKeys E tc [] g"

section \<open>Batches\<close>

fun BatchPut ::
  "('x, 'c) env \<Rightarrow> tid \<Rightarrow> tid \<Rightarrow> (bytes \<times> bytes) list \<Rightarrow> ('x, 'c) go_state \<Rightarrow>
   (go_error option \<times> ('x, 'c) go_state) option" where
  "BatchPut E tc te [] g = Some (None, g)"
| "BatchPut E tc te ((k, v) # items) g =
     do {
       (r, g1) \<leftarrow> Put E tc te k v g;
       case r of
         Some err \<Rightarrow> Some (Some err, g1)
       | None \<Rightarrow> BatchPut E tc te items g1
     }"

fun batch_get ::
  "('x, 'c) env \<Rightarrow> tid \<Rightarrow> tid \<Rightarrow> bytes list \<Rightarrow> (bytes \<rightharpoonup> bytes) \<Rightarrow> ('x, 'c) go_state \<Rightarrow>
   ((go_error + (bytes \<rightharpoonup> bytes)) \<times> ('x, 'c) go_state) option" where
  "batch_get E tc te [] result g = Some (Inr result, g)"
| "batch_get E tc te (k # ks) result g =
     do {
       (r, g1) \<leftarrow> GetBytes E tc te k g;
       case r of
         Inl err \<Rightarrow> Some (Inl err, g1)
       | Inr v \<Rightarrow> batch_get E tc te ks (result(k \<mapsto> v)) g1
     }"

definition BatchGetBytes ::
  "('x, 'c) env \<Rightarrow> tid \<Rightarrow> tid \<Rightarrow> bytes list \<Rightarrow> ('x, 'c) go_state \<Rightarrow>
   ((go_error + (bytes \<rightharpoonup> bytes)) \<times> ('x, 'c) go_state) option" where
  "BatchGetBytes E tc te ks g = batch_get E tc te ks Map.empty g"

fun batch_get_values ::
  "('x, 'c) env \<Rightarrow> tid \<Rightarrow> tid \<Rightarrow> bytes list \<Rightarrow> (bytes \<rightharpoonup> bytes) \<Rightarrow> ('x, 'c) go_state \<Rightarrow>
   ((go_error + (bytes \<rightharpoonup> bytes)) \<times> ('x, 'c) go_state) option" where
  "batch_get_values E tc te [] result g = Some (Inr result, g)"
| "batch_get_values E tc te (k # ks) result g =
     do {
       (r, g1) \<leftarrow> Get E tc te k g;
       case r of
         Inl err \<Rightarrow> Some (Inl err, g1)
       | Inr v \<Rightarrow> batch_get_values E tc te ks (result(k \<mapsto> v)) g1
     }"

definition BatchGetValues ::
  "('x, 'c) env \<Rightarrow> tid \<Rightarrow> tid \<Rightarrow> bytes list \<Rightarrow> ('x, 'c) go_state \<Rightarrow>
   ((go_error + (bytes \<rightharpoonup> bytes)) \<times> ('x, 'c) go_state) option" where
  "BatchGetValues E tc te ks g = batch_get_values E tc te ks Map.empty g"

text \<open>
  The marshalling loop of \<^verbatim>\<open>BatchPutBytes\<close>: whether it finished, the three C arrays (as far as they were
  filled) and the world. Only a failed \<^verbatim>\<open>malloc\<close> of a value stops it.
\<close>

fun marshal_items ::
  "'c allocator \<Rightarrow> (bytes \<times> bytes) list \<Rightarrow> ('x, 'c) world \<Rightarrow>
   bool \<times> addr list \<times> addr list \<times> nat list \<times> ('x, 'c) world" where
  "marshal_items al [] w = (True, [], [], [], w)"
| "marshal_items al ((k, v) # items) w =
     (let (ck, w1) = c_string al k w in
      if v = [] then
        (let (ok, cks, cvs, ls, w2) = marshal_items al items w1 in
         (ok, ck # cks, null # cvs, 0 # ls, w2))
      else
        (let (buf, w2) = c_malloc_copy al v w1 in
         if buf = null then (False, [ck], [null], [length v], w1)
         else
           (let (ok, cks, cvs, ls, w3) = marshal_items al items w2 in
            (ok, ck # cks, buf # cvs, length v # ls, w3))))"

fun c_free_all :: "addr list \<Rightarrow> ('x, 'c) world \<Rightarrow> ('x, 'c) world option" where
  "c_free_all [] w = Some w"
| "c_free_all (p # ps) w = do { w1 \<leftarrow> c_free p w; c_free_all ps w1 }"

definition BatchPutBytes ::
  "('x, 'c) env \<Rightarrow> tid \<Rightarrow> tid \<Rightarrow> (bytes \<times> bytes) list \<Rightarrow> ('x, 'c) go_state \<Rightarrow>
   (go_error option \<times> ('x, 'c) go_state) option" where
  "BatchPutBytes E tc te items g =
     (if items = [] then Some (None, g)
      else do {
        (live, g1) \<leftarrow> rLockLive g;
        case live of
          Some err \<Rightarrow> Some (Some err, g1)
        | None \<Rightarrow> do {
            let (ok, cKeys, cValues, cLens, w1) = marshal_items (allocator E) items (g_world g1);
            (r, w2) \<leftarrow>
              (if \<not> ok then Some (Some (Errorf ''f4kvs batch put: out of memory'' []), w1)
               else do {
                 (res, w2) \<leftarrow> f4kvs_engine_batch_put_bytes E tc (handle (g_engine g1))
                               (Some cKeys) (Some cValues) (Some cLens) (length items) w1;
                 Some (if res \<noteq> Success
                       then Some (Errorf ''f4kvs batch put: %s'' [lastError te w2]) else None, w2)
               });
            w3 \<leftarrow> c_free_all cKeys w2;
            w4 \<leftarrow> c_free_all cValues w3;
            g2 \<leftarrow> RUnlock (g1\<lparr>g_world := w4\<rparr>);
            Some (r, g2)
          }
      })"

fun marshal_keys ::
  "'c allocator \<Rightarrow> bytes list \<Rightarrow> ('x, 'c) world \<Rightarrow> addr list \<times> ('x, 'c) world" where
  "marshal_keys al [] w = ([], w)"
| "marshal_keys al (k # ks) w =
     (let (ck, w1) = c_string al k w; (cks, w2) = marshal_keys al ks w1 in (ck # cks, w2))"

definition BatchDelete ::
  "('x, 'c) env \<Rightarrow> tid \<Rightarrow> tid \<Rightarrow> bytes list \<Rightarrow> ('x, 'c) go_state \<Rightarrow>
   (go_error option \<times> ('x, 'c) go_state) option" where
  "BatchDelete E tc te keys g =
     (if keys = [] then Some (None, g)
      else do {
        (live, g1) \<leftarrow> rLockLive g;
        case live of
          Some err \<Rightarrow> Some (Some err, g1)
        | None \<Rightarrow> do {
            let (cKeys, w1) = marshal_keys (allocator E) keys (g_world g1);
            (res, w2) \<leftarrow> f4kvs_engine_batch_delete E tc (handle (g_engine g1))
                          (Some cKeys) (length keys) w1;
            let r = (if res \<noteq> Success
                     then Some (Errorf ''f4kvs batch delete: %s'' [lastError te w2]) else None);
            w3 \<leftarrow> c_free_all cKeys w2;
            g2 \<leftarrow> RUnlock (g1\<lparr>g_world := w3\<rparr>);
            Some (r, g2)
          }
      })"

section \<open>Maintenance and closing\<close>

text \<open>The shape of \<^verbatim>\<open>SetBulkImport\<close>, \<^verbatim>\<open>Flush\<close>, \<^verbatim>\<open>FlushWAL\<close> and \<^verbatim>\<open>Sync\<close>: lock, call, convert, unlock.\<close>

definition maintenance ::
  "tid \<Rightarrow> bytes \<Rightarrow> (addr \<Rightarrow> ('x, 'c) world \<Rightarrow> (F4KvsResult \<times> ('x, 'c) world) option) \<Rightarrow>
   ('x, 'c) go_state \<Rightarrow> (go_error option \<times> ('x, 'c) go_state) option" where
  "maintenance te fmt f g =
     do {
       (live, g1) \<leftarrow> rLockLive g;
       case live of
         Some err \<Rightarrow> Some (Some err, g1)
       | None \<Rightarrow> do {
           (res, w1) \<leftarrow> f (handle (g_engine g1)) (g_world g1);
           let r = (if res \<noteq> Success then Some (Errorf fmt [lastError te w1]) else None);
           g2 \<leftarrow> RUnlock (g1\<lparr>g_world := w1\<rparr>);
           Some (r, g2)
         }
     }"

definition SetBulkImport ::
  "('x, 'c) env \<Rightarrow> tid \<Rightarrow> tid \<Rightarrow> bool \<Rightarrow> ('x, 'c) go_state \<Rightarrow>
   (go_error option \<times> ('x, 'c) go_state) option" where
  "SetBulkImport E tc te on g =
     maintenance te ''f4kvs set bulk import: %s''
       (\<lambda>h. f4kvs_engine_set_bulk_import E tc h (if on then 1 else 0)) g"

definition Flush ::
  "('x, 'c) env \<Rightarrow> tid \<Rightarrow> tid \<Rightarrow> ('x, 'c) go_state \<Rightarrow> (go_error option \<times> ('x, 'c) go_state) option" where
  "Flush E tc te g = maintenance te ''f4kvs flush: %s'' (f4kvs_engine_flush E tc) g"

definition FlushWAL ::
  "('x, 'c) env \<Rightarrow> tid \<Rightarrow> tid \<Rightarrow> ('x, 'c) go_state \<Rightarrow> (go_error option \<times> ('x, 'c) go_state) option" where
  "FlushWAL E tc te g = maintenance te ''f4kvs flush wal: %s'' (f4kvs_engine_flush_wal E tc) g"

definition Sync ::
  "('x, 'c) env \<Rightarrow> tid \<Rightarrow> tid \<Rightarrow> ('x, 'c) go_state \<Rightarrow> (go_error option \<times> ('x, 'c) go_state) option" where
  "Sync E tc te g = maintenance te ''f4kvs sync: %s'' (f4kvs_engine_compact E tc) g"

definition Close ::
  "('x, 'c) env \<Rightarrow> tid \<Rightarrow> ('x, 'c) go_state \<Rightarrow> ('x, 'c) go_state option" where
  "Close E tc g =
     do {
       g1 \<leftarrow> Lock g;
       if handle (g_engine g1) = null then Unlock g1
       else do {
         (_, w1) \<leftarrow> f4kvs_engine_close E tc (handle (g_engine g1)) (g_world g1);
         w2 \<leftarrow> f4kvs_engine_free E (handle (g_engine g1)) w1;
         Unlock (g1\<lparr>g_world := w2, g_engine := (g_engine g1)\<lparr>handle := null, closed := True\<rparr>\<rparr>)
       }
     }"

end
