(* ===== verification/Ffi_Contract.thy ===== *)
theory Ffi_Contract
  imports Ffi_Scan
begin

text \<open>
  What the C functions promise, without memory: the operations \<open>api_put\<close>, \<open>api_get\<close>, \<open>api_delete\<close>,
  \<open>api_batch_put\<close>, \<open>api_batch_delete\<close> and \<open>api_scan\<close> act on the library state alone and answer with a
  value or with a result code and a message. The lemmas show that each C function, called with valid
  pointers, does what its specification says, leaves the heap as the specification of ownership
  demands, and touches the error slot of the calling thread only.
\<close>

section \<open>Specification\<close>

type_synonym 'a answer = "(F4KvsResult \<times> bytes) + 'a"

definition c_message :: "bytes \<Rightarrow> bytes" where
  "c_message m = (case cstring_new m of Some s \<Rightarrow> s | None \<Rightarrow> escape_nul m)"

definition check_text :: "nat \<Rightarrow> bytes \<Rightarrow> bytes \<Rightarrow> bytes answer" where
  "check_text max_length field s =
     (if max_length < length s then
        Inl (ErrorInvalidArgument,
             ''Invalid argument: '' @ field @ '' exceeds maximum length of '' @
             show_nat max_length @ '' bytes'')
      else case from_utf8 s of
             Inr u \<Rightarrow> Inr u
           | Inl e \<Rightarrow>
               Inl (ErrorInvalidArgument, ''Invalid UTF-8 in '' @ field @ '': '' @ show_utf8_error e))"

definition storage :: "bytes \<Rightarrow> 'a reply \<times> 'x \<Rightarrow> 'a answer \<times> 'x" where
  "storage label rx =
     (case rx of (Inr a, x) \<Rightarrow> (Inr a, x) | (Inl m, x) \<Rightarrow> (Inl (ErrorStorage, label @ m), x))"

definition api_put :: "('x, 'c) env \<Rightarrow> eid \<Rightarrow> bytes \<Rightarrow> bytes \<Rightarrow> 'x \<Rightarrow> unit answer \<times> 'x" where
  "api_put E e k v x =
     (case check_text MAX_KEY_LENGTH ''key'' k of
        Inl err \<Rightarrow> (Inl err, x)
      | Inr key \<Rightarrow>
          if MAX_VALUE_LENGTH < length v then
            (Inl (ErrorInvalidArgument,
                  ''Invalid argument: value exceeds maximum length of '' @
                  show_nat MAX_VALUE_LENGTH @ '' bytes''), x)
          else storage ''Put bytes failed: '' (lsm_put E e key (VBytes v) x))"

definition api_get :: "('x, 'c) env \<Rightarrow> eid \<Rightarrow> bytes \<Rightarrow> 'x \<Rightarrow> lsm_value option answer \<times> 'x" where
  "api_get E e k x =
     (case check_text MAX_KEY_LENGTH ''key'' k of
        Inl err \<Rightarrow> (Inl err, x)
      | Inr key \<Rightarrow> storage ''Get bytes failed: '' (lsm_get E e key x))"

definition api_delete :: "('x, 'c) env \<Rightarrow> eid \<Rightarrow> bytes \<Rightarrow> 'x \<Rightarrow> unit answer \<times> 'x" where
  "api_delete E e k x =
     (case check_text MAX_KEY_LENGTH ''key'' k of
        Inl err \<Rightarrow> (Inl err, x)
      | Inr key \<Rightarrow> storage ''Delete failed: '' (lsm_delete E e key x))"

definition check_count :: "('x, 'c) env \<Rightarrow> eid \<Rightarrow> nat \<Rightarrow> 'x \<Rightarrow> unit answer" where
  "check_count E e n x =
     (if lsm_max_batch_size E e x < n then
        Inl (ErrorInvalidArgument,
             ''Invalid argument: batch count '' @ show_nat n @ '' exceeds max_batch_size '' @
             show_nat (lsm_max_batch_size E e x))
      else Inr ())"

text \<open>The items of a batch are checked in order; the first offender decides the message.\<close>

fun check_items :: "nat \<Rightarrow> (bytes \<times> bytes) list \<Rightarrow> (bytes \<times> lsm_value) list answer" where
  "check_items i [] = Inr []"
| "check_items i ((k, v) # items) =
     (case check_text MAX_KEY_LENGTH ''key'' k of
        Inl err \<Rightarrow> Inl err
      | Inr key \<Rightarrow>
          if MAX_VALUE_LENGTH < length v then
            Inl (ErrorInvalidArgument,
                 ''Invalid argument: value at index '' @ show_nat i @
                 '' exceeds maximum length of '' @ show_nat MAX_VALUE_LENGTH @ '' bytes'')
          else case check_items (Suc i) items of
                 Inl err \<Rightarrow> Inl err
               | Inr kvs \<Rightarrow> Inr ((key, VBytes v) # kvs))"

fun check_keys :: "bytes list \<Rightarrow> bytes list answer" where
  "check_keys [] = Inr []"
| "check_keys (k # ks) =
     (case check_text MAX_KEY_LENGTH ''key'' k of
        Inl err \<Rightarrow> Inl err
      | Inr key \<Rightarrow> (case check_keys ks of Inl err \<Rightarrow> Inl err | Inr keys \<Rightarrow> Inr (key # keys)))"

definition api_batch_put ::
  "('x, 'c) env \<Rightarrow> eid \<Rightarrow> (bytes \<times> bytes) list \<Rightarrow> 'x \<Rightarrow> unit answer \<times> 'x" where
  "api_batch_put E e items x =
     (case check_count E e (length items) x of
        Inl err \<Rightarrow> (Inl err, x)
      | Inr _ \<Rightarrow>
          (case check_items 0 items of
             Inl err \<Rightarrow> (Inl err, x)
           | Inr kvs \<Rightarrow> storage ''Batch put bytes failed: '' (lsm_batch_put E e kvs x)))"

definition api_batch_delete :: "('x, 'c) env \<Rightarrow> eid \<Rightarrow> bytes list \<Rightarrow> 'x \<Rightarrow> unit answer \<times> 'x" where
  "api_batch_delete E e ks x =
     (case check_count E e (length ks) x of
        Inl err \<Rightarrow> (Inl err, x)
      | Inr _ \<Rightarrow>
          (case check_keys ks of
             Inl err \<Rightarrow> (Inl err, x)
           | Inr keys \<Rightarrow> storage ''Batch delete failed: '' (lsm_batch_delete E e keys x)))"

text \<open>How an answer shows in the world: the new library state and, for an error, the message.\<close>

definition publish :: "tid \<Rightarrow> 'a answer \<times> 'x \<Rightarrow> ('x, 'c) world \<Rightarrow> ('x, 'c) world" where
  "publish t rx w =
     (case rx of
        (Inr _, x) \<Rightarrow> w\<lparr>lsm := x\<rparr>
      | (Inl (_, m), x) \<Rightarrow> set_last_error t m (w\<lparr>lsm := x\<rparr>))"

definition code_of :: "'a answer \<Rightarrow> F4KvsResult" where
  "code_of r = (case r of Inr _ \<Rightarrow> Success | Inl (c, _) \<Rightarrow> c)"

section \<open>Lemmas\<close>

lemma publish_simps [simp]:
  "heap (publish t rx w) = heap w"
  "tick (publish t rx w) = tick w"
  "str_allocs (publish t rx w) = str_allocs w"
  "bytes_allocs (publish t rx w) = bytes_allocs w"
  "engine_counter (publish t rx w) = engine_counter w"
  "arcs (publish t rx w) = arcs w"
  "lsm (publish t rx w) = snd rx"
  by (auto simp: publish_def split: prod.splits sum.splits)

lemma reg_inv_publish [simp]: "reg_inv (publish t rx w) = reg_inv w"
  by (rule reg_inv_cong) simp_all

lemma set_last_error_c_message:
  "set_last_error t m w = w\<lparr>last_error := (last_error w)(t := Some (c_message m))\<rparr>"
  by (simp add: set_last_error_def c_message_def)

lemma last_error_publish:
  "last_error (publish t rx w) =
     (case fst rx of Inr _ \<Rightarrow> last_error w | Inl (_, m) \<Rightarrow> (last_error w)(t := Some (c_message m)))"
  by (auto simp: publish_def set_last_error_c_message split: prod.splits sum.splits)

lemma validate_engine_live:
  "p \<noteq> null \<Longrightarrow> heap w p = Some (EngineBox e) \<Longrightarrow> validate_engine t p w = Some (Inr e, w)"
  by (simp add: validate_engine_def)

lemma validate_c_string_text:
  "p \<noteq> null \<Longrightarrow> cstr_from_ptr w p = Some s \<Longrightarrow>
   validate_c_string t p n f w =
     Some (case check_text n f s of
             Inr u \<Rightarrow> (Inr u, w)
           | Inl (c, m) \<Rightarrow> (Inl c, set_last_error t m w))"
  by (simp add: validate_c_string_def check_text_def split: sum.splits)

lemma check_text_Inr: "check_text n f s = Inr u \<longleftrightarrow> length s \<le> n \<and> valid_utf8 s \<and> u = s"
  by (auto simp: check_text_def from_utf8_eq split: sum.splits if_splits)

lemma unit_result_storage:
  "unit_result t label (lsm_call f w) =
     (code_of (fst (storage label (f (lsm w)))), publish t (storage label (f (lsm w))) w)"
  by (auto simp: unit_result_def lsm_call_def storage_def code_of_def publish_def
      split: prod.splits sum.splits)

lemma check_text_cases [case_names ok bad]:
  obtains u where "check_text n f s = Inr u" | m where "check_text n f s = Inl (ErrorInvalidArgument, m)"
proof -
  have "(\<exists>u. check_text n f s = Inr u) \<or> (\<exists>m. check_text n f s = Inl (ErrorInvalidArgument, m))"
    by (auto simp: check_text_def split: sum.splits)
  with that show thesis by blast
qed

text \<open>Each C function, called with valid pointers, answers as its specification does.\<close>

lemma put_bytes_refines:
  assumes "engine \<noteq> null" "heap w engine = Some (EngineBox e)"
    and "key \<noteq> null" "cstr_from_ptr w key = Some k"
    and "v \<noteq> [] \<Longrightarrow> val \<noteq> null \<and> slice_from_raw w val (length v) = Some v"
  shows "f4kvs_engine_put_bytes E t engine key val (length v) w =
     Some (code_of (fst (api_put E e k v (lsm w))), publish t (api_put E e k v (lsm w)) w)"
  using assms
  by (cases rule: check_text_cases [of MAX_KEY_LENGTH "''key''" k])
    (auto simp: f4kvs_engine_put_bytes_def api_put_def validate_engine_live validate_c_string_text
      unit_result_storage code_of_def publish_def)

lemma delete_refines:
  assumes "engine \<noteq> null" "heap w engine = Some (EngineBox e)"
    and "key \<noteq> null" "cstr_from_ptr w key = Some k"
  shows "f4kvs_engine_delete E t engine key w =
     Some (code_of (fst (api_delete E e k (lsm w))), publish t (api_delete E e k (lsm w)) w)"
  using assms
  by (cases rule: check_text_cases [of MAX_KEY_LENGTH "''key''" k])
    (auto simp: f4kvs_engine_delete_def api_delete_def validate_engine_live validate_c_string_text
      unit_result_storage code_of_def publish_def)

lemma get_bytes_refines:
  assumes "engine \<noteq> null" "heap w engine = Some (EngineBox e)"
    and "key \<noteq> null" "cstr_from_ptr w key = Some k" "vo \<noteq> null" "vl \<noteq> null"
  shows "f4kvs_engine_get_bytes E t engine key vo vl w =
     (let rx = api_get E e k (lsm w); w1 = publish t rx w in
      case fst rx of
        Inr (Some v) \<Rightarrow>
          (let (p, w2) = allocate_bytes (allocator E) (value_to_bytes v) w1 in
           Some ((Success, Some p), w2))
      | Inr None \<Rightarrow> Some ((ErrorNotFound, Some (null, 0)), w1)
      | Inl (c, _) \<Rightarrow> Some ((c, None), w1))"
  using assms
  by (cases rule: check_text_cases [of MAX_KEY_LENGTH "''key''" k])
    (auto simp: f4kvs_engine_get_bytes_def api_get_def validate_engine_live validate_c_string_text
      storage_def lsm_call_def publish_def split: prod.splits sum.splits option.splits)


text \<open>What a C string holds of a Go string: everything before the first NUL byte.\<close>

definition c_cut :: "bytes \<Rightarrow> bytes" where
  "c_cut s = takeWhile (\<lambda>c. c \<noteq> NUL) s"

definition cut_items :: "(bytes \<times> bytes) list \<Rightarrow> (bytes \<times> bytes) list" where
  "cut_items items = map (\<lambda>(k, v). (c_cut k, v)) items"

lemma c_cut_id [simp]: "NUL \<notin> set s \<Longrightarrow> c_cut s = s"
  unfolding c_cut_def takeWhile_eq_self_iff by blast

lemma cut_items_simps [simp]:
  "cut_items [] = []" "cut_items ((k, v) # items) = (c_cut k, v) # cut_items items"
  "length (cut_items items) = length items"
  by (simp_all add: cut_items_def)

text \<open>The three arrays of a batch hold the marshalled items.\<close>

fun marshalled ::
  "('x, 'c) world \<Rightarrow> (bytes \<times> bytes) list \<Rightarrow> addr list \<Rightarrow> addr list \<Rightarrow> nat list \<Rightarrow> bool" where
  "marshalled w [] [] [] [] = True"
| "marshalled w ((k, v) # items) (a # cks) (b # cvs) (l # ls) =
     (a \<noteq> null \<and> cstr_from_ptr w a = Some (c_cut k) \<and> l = length v \<and>
      (v \<noteq> [] \<longrightarrow> b \<noteq> null \<and> slice_from_raw w b (length v) = Some v) \<and>
      marshalled w items cks cvs ls)"
| "marshalled w _ _ _ _ = False"

lemma check_items_code: "check_items i items = Inl (c, m) \<Longrightarrow> c = ErrorInvalidArgument"
proof (induction i items rule: check_items.induct)
  case (2 i k v items)
  then show ?case
    by (cases rule: check_text_cases [of MAX_KEY_LENGTH "''key''" k])
      (auto split: if_splits sum.splits)
qed simp

lemma batch_put_items_refines:
  "marshalled w items cks cvs ls \<Longrightarrow>
   batch_put_items t (length items) i cks cvs ls w =
     Some (case check_items i (cut_items items) of
             Inr kvs \<Rightarrow> (Inr kvs, w)
           | Inl (c, m) \<Rightarrow> (Inl c, set_last_error t m w))"
proof (induction w items cks cvs ls arbitrary: i rule: marshalled.induct)
  case (2 w k v items a cks b cvs l ls)
  from 2 show ?case
    by (cases rule: check_text_cases [of MAX_KEY_LENGTH "''key''" "c_cut k"])
      (auto simp: validate_c_string_text split: sum.splits)
qed simp_all

lemma check_count_reject:
  "reject_batch_count E t e n w =
     (case check_count E e n (lsm w) of
        Inr _ \<Rightarrow> (None, w)
      | Inl (c, m) \<Rightarrow> (Some c, set_last_error t m w))"
  by (simp add: reject_batch_count_def check_count_def Let_def)

lemma batch_put_bytes_refines:
  assumes "engine \<noteq> null" "heap w engine = Some (EngineBox e)" "marshalled w items cks cvs ls"
  shows "f4kvs_engine_batch_put_bytes E t engine (Some cks) (Some cvs) (Some ls) (length items) w =
     Some (code_of (fst (api_batch_put E e (cut_items items) (lsm w))),
           publish t (api_batch_put E e (cut_items items) (lsm w)) w)"
  using assms
  by (auto simp: f4kvs_engine_batch_put_bytes_def api_batch_put_def validate_engine_live
      check_count_reject batch_put_items_refines unit_result_storage code_of_def publish_def
      split: sum.splits)

fun marshalled_keys :: "('x, 'c) world \<Rightarrow> bytes list \<Rightarrow> addr list \<Rightarrow> bool" where
  "marshalled_keys w [] [] = True"
| "marshalled_keys w (k # ks) (a # cks) =
     (a \<noteq> null \<and> cstr_from_ptr w a = Some (c_cut k) \<and> marshalled_keys w ks cks)"
| "marshalled_keys w _ _ = False"

lemma batch_delete_keys_refines:
  "marshalled_keys w ks cks \<Longrightarrow>
   batch_delete_keys t (length ks) cks w =
     Some (case check_keys (map c_cut ks) of
             Inr keys \<Rightarrow> (Inr keys, w)
           | Inl (c, m) \<Rightarrow> (Inl c, set_last_error t m w))"
proof (induction w ks cks rule: marshalled_keys.induct)
  case (2 w k ks a cks)
  from 2 show ?case
    by (cases rule: check_text_cases [of MAX_KEY_LENGTH "''key''" "c_cut k"])
      (auto simp: validate_c_string_text split: sum.splits)
qed simp_all

lemma batch_delete_refines:
  assumes "engine \<noteq> null" "heap w engine = Some (EngineBox e)" "marshalled_keys w ks cks"
  shows "f4kvs_engine_batch_delete E t engine (Some cks) (length ks) w =
     Some (code_of (fst (api_batch_delete E e (map c_cut ks) (lsm w))),
           publish t (api_batch_delete E e (map c_cut ks) (lsm w)) w)"
  using assms
  by (auto simp: f4kvs_engine_batch_delete_def api_batch_delete_def validate_engine_live
      check_count_reject batch_delete_keys_refines unit_result_storage code_of_def publish_def
      split: sum.splits)

lemma engine_unit_call_refines:
  "engine \<noteq> null \<Longrightarrow> heap w engine = Some (EngineBox e) \<Longrightarrow>
   engine_unit_call t label f engine w =
     Some (code_of (fst (storage label (f e (lsm w)))), publish t (storage label (f e (lsm w))) w)"
  by (simp add: engine_unit_call_def validate_engine_live unit_result_storage)

end
