(* ===== verification/Scan_Contract.thy ===== *)
theory Scan_Contract
  imports Ffi_Contract
begin

text \<open>
  What a key scan over the C interface promises. The specification \<open>api_scan\<close> also shows the limit of
  the interface: a key with a NUL byte (which the length-prefixed functions accept) cannot be handed
  out as a C string, so a scan that meets one fails as a whole. The lemmas follow the strings of a
  result from their allocation to \<^verbatim>\<open>f4kvs_key_scan_result_free\<close>: a scan followed by its free leaves the
  heap and the registry as they were, and a failed scan hands nothing out.
\<close>

section \<open>Specification\<close>

definition has_nul :: "bytes \<Rightarrow> bool" where
  "has_nul s \<longleftrightarrow> NUL \<in> set s"

definition check_nul :: "bytes list \<Rightarrow> bytes list answer" where
  "check_nul ks =
     (case find has_nul ks of
        None \<Rightarrow> Inr ks
      | Some k \<Rightarrow>
          Inl (ErrorStorage,
               ''Failed to create C string: nul byte found in provided data at position: '' @
               show_nat (nul_position k)))"

definition api_scan :: "('x, 'c) env \<Rightarrow> eid \<Rightarrow> bytes \<Rightarrow> 'x \<Rightarrow> bytes list answer \<times> 'x" where
  "api_scan E e p x =
     (case check_text MAX_KEY_LENGTH ''prefix'' p of
        Inl err \<Rightarrow> (Inl err, x)
      | Inr pfx \<Rightarrow>
          (case storage ''Scan prefix keys failed: '' (lsm_scan_prefix E e pfx x) of
             (Inl err, x') \<Rightarrow> (Inl err, x')
           | (Inr ks, x') \<Rightarrow> (check_nul ks, x')))"

section \<open>Allocating and freeing the strings of a result\<close>

definition str_blocks :: "addr list \<Rightarrow> bytes list \<Rightarrow> 'c heap" where
  "str_blocks ptrs ks = map_of (zip ptrs (map (\<lambda>k. RStr (k @ [NUL])) ks))"

text \<open>The world after the strings \<open>ks\<close> were handed out at the addresses \<open>ptrs\<close>.\<close>

definition with_strs :: "addr list \<Rightarrow> bytes list \<Rightarrow> nat \<Rightarrow> ('x, 'c) world \<Rightarrow> ('x, 'c) world" where
  "with_strs ptrs ks n w =
     w\<lparr>heap := heap w ++ str_blocks ptrs ks, tick := n, str_allocs := str_allocs w \<union> set ptrs\<rparr>"

definition new_ptrs :: "addr list \<Rightarrow> bytes list \<Rightarrow> ('x, 'c) world \<Rightarrow> bool" where
  "new_ptrs ptrs ks w \<longleftrightarrow>
     length ptrs = length ks \<and> distinct ptrs \<and> set ptrs \<inter> dom (heap w) = {} \<and> (\<forall>a\<in>set ptrs. 1 < a)"

lemma str_blocks_simps [simp]:
  "str_blocks [] ks = Map.empty"
  "str_blocks (p # ptrs) (k # ks) = (str_blocks ptrs ks)(p \<mapsto> RStr (k @ [NUL]))"
  by (simp_all add: str_blocks_def)

lemma dom_str_blocks: "length ptrs = length ks \<Longrightarrow> dom (str_blocks ptrs ks) = set ptrs"
  by (simp add: str_blocks_def)

lemma allocate_c_string_ok:
  assumes "fresh_allocator al" "reg_inv w" "NUL \<notin> set k"
  obtains p where
    "allocate_c_string al t k w =
       (Inr p, w\<lparr>heap := (heap w)(p \<mapsto> RStr (k @ [NUL])), tick := Suc (tick w),
                str_allocs := insert p (str_allocs w)\<rparr>)"
    "heap w p = None" "1 < p"
proof -
  from assms(1,2) obtain a where
    "alloc_block al (RStr (k @ [NUL])) w =
       (a, w\<lparr>heap := (heap w)(a \<mapsto> RStr (k @ [NUL])), tick := Suc (tick w)\<rparr>)"
    "heap w a = None" "1 < a"
    by (rule alloc_blockE)
  with assms(3) show thesis
    by (intro that) (auto simp: allocate_c_string_def cstring_new_def str_register_def)
qed

lemma alloc_key_ptrs_ok:
  assumes "fresh_allocator al" "reg_inv w" "\<forall>k\<in>set ks. \<not> has_nul k"
  shows "\<exists>ptrs n. new_ptrs ptrs ks w \<and> reg_inv (with_strs ptrs ks n w) \<and>
     (\<forall>rest. alloc_key_ptrs al t (ks @ rest) acc w =
        alloc_key_ptrs al t rest (acc @ ptrs) (with_strs ptrs ks n w))"
  using assms(2,3)
proof (induction ks arbitrary: acc w)
  case Nil
  then show ?case
    by (intro exI [of _ "[]"] exI [of _ "tick w"]) (simp add: new_ptrs_def with_strs_def)
next
  case (Cons k ks)
  from Cons.prems have "NUL \<notin> set k" by (simp add: has_nul_def)
  with assms(1) Cons.prems(1) obtain p where
    p: "allocate_c_string al t k w =
       (Inr p, w\<lparr>heap := (heap w)(p \<mapsto> RStr (k @ [NUL])), tick := Suc (tick w),
                str_allocs := insert p (str_allocs w)\<rparr>)"
      (is "_ = (Inr p, ?w1)")
    and new: "heap w p = None" "1 < p"
    by (rule allocate_c_string_ok)
  have "reg_inv ?w1" using allocate_c_string_inv [OF assms(1) Cons.prems(1) p] .
  with Cons.prems obtain ptrs n where
    IH: "new_ptrs ptrs ks ?w1" "reg_inv (with_strs ptrs ks n ?w1)"
      "\<And>rest. alloc_key_ptrs al t (ks @ rest) (acc @ [p]) ?w1 =
        alloc_key_ptrs al t rest ((acc @ [p]) @ ptrs) (with_strs ptrs ks n ?w1)"
    using Cons.IH [of ?w1 "acc @ [p]"] by auto
  from IH(1) have pn: "p \<notin> set ptrs" and len: "length ptrs = length ks"
    by (auto simp: new_ptrs_def)
  have eq: "with_strs ptrs ks n ?w1 = with_strs (p # ptrs) (k # ks) n w"
    using pn len by (simp add: with_strs_def dom_str_blocks map_add_upd_left)
  have "new_ptrs (p # ptrs) (k # ks) w"
    using IH(1) new pn by (auto simp: new_ptrs_def)
  with IH p eq show ?case
    by (intro exI [of _ "p # ptrs"] exI [of _ n]) simp
qed

lemma free_strings_ok:
  "distinct ptrs \<Longrightarrow> \<forall>p\<in>set ptrs. p \<noteq> null \<and> p \<in> str_allocs w \<and> is_str (heap w p) \<Longrightarrow>
   free_strings ptrs w =
     Some (w\<lparr>heap := heap w |` (- set ptrs), str_allocs := str_allocs w - set ptrs\<rparr>)"
proof (induction ptrs arbitrary: w)
  case Nil
  then show ?case by simp
next
  case (Cons p ptrs)
  then obtain s where "heap w p = Some (RStr s)" by (auto simp: is_str_iff)
  with Cons.prems have 1: "f4kvs_string_free p w =
      Some (w\<lparr>heap := (heap w)(p := None), str_allocs := str_allocs w - {p}\<rparr>)" (is "_ = Some ?w1")
    by (simp add: f4kvs_string_free_def str_is_allocated_def str_unregister_def drop_block_def)
  have "free_strings ptrs ?w1 =
      Some (?w1\<lparr>heap := heap ?w1 |` (- set ptrs), str_allocs := str_allocs ?w1 - set ptrs\<rparr>)"
    using Cons.prems by (intro Cons.IH) auto
  moreover have "((heap w)(p := None)) |` (- set ptrs) = heap w |` (- set (p # ptrs))"
    by (auto simp: restrict_map_def fun_eq_iff)
  moreover have "str_allocs w - {p} - set ptrs = str_allocs w - set (p # ptrs)" by auto
  ultimately show ?case using 1 by simp
qed

text \<open>Freeing what was handed out restores the heap and the registry.\<close>

lemma str_blocks_is_str:
  "length ptrs = length ks \<Longrightarrow> p \<in> set ptrs \<Longrightarrow> is_str (str_blocks ptrs ks p)"
  by (induction ptrs ks rule: list_induct2) auto

lemma is_str_with_strs:
  assumes "new_ptrs ptrs ks w" "p \<in> set ptrs"
  shows "is_str (heap (with_strs ptrs ks n w) p)"
proof -
  have "length ptrs = length ks" using assms(1) by (simp add: new_ptrs_def)
  then show ?thesis
    using assms(2) by (simp add: with_strs_def map_add_dom_app_simps(1) dom_str_blocks str_blocks_is_str)
qed

lemma with_strs_restrict:
  assumes "new_ptrs ptrs ks w"
  shows "(heap w ++ str_blocks ptrs ks) |` (- set ptrs) = heap w"
proof
  fix a
  have l: "length ptrs = length ks" and n: "set ptrs \<inter> dom (heap w) = {}"
    using assms by (auto simp: new_ptrs_def)
  show "((heap w ++ str_blocks ptrs ks) |` (- set ptrs)) a = heap w a"
  proof (cases "a \<in> set ptrs")
    case True
    with n have "heap w a = None" by (auto simp: domIff)
    with True show ?thesis by simp
  next
    case False
    with l show ?thesis by (simp add: map_add_dom_app_simps(3) dom_str_blocks)
  qed
qed

lemma new_ptrs_unregistered:
  "reg_inv w \<Longrightarrow> new_ptrs ptrs ks w \<Longrightarrow> str_allocs w \<inter> set ptrs = {}"
  by (fastforce simp: new_ptrs_def reg_invD(4) is_str_iff)

lemma free_with_strs:
  assumes "reg_inv w" "new_ptrs ptrs ks w"
  shows "free_strings ptrs (with_strs ptrs ks n w) = Some (w\<lparr>tick := n\<rparr>)"
proof -
  have "distinct ptrs" using assms(2) by (simp add: new_ptrs_def)
  moreover have "\<forall>p\<in>set ptrs. p \<noteq> null \<and> p \<in> str_allocs (with_strs ptrs ks n w) \<and>
      is_str (heap (with_strs ptrs ks n w) p)"
    using assms(2) is_str_with_strs [OF assms(2)]
    by (auto simp: new_ptrs_def with_strs_def)
  ultimately have "free_strings ptrs (with_strs ptrs ks n w) =
      Some ((with_strs ptrs ks n w)\<lparr>heap := heap (with_strs ptrs ks n w) |` (- set ptrs),
        str_allocs := str_allocs (with_strs ptrs ks n w) - set ptrs\<rparr>)"
    by (rule free_strings_ok)
  moreover have "str_allocs w \<union> set ptrs - set ptrs = str_allocs w"
    using new_ptrs_unregistered [OF assms] by auto
  ultimately show ?thesis
    by (simp add: with_strs_def with_strs_restrict [OF assms(2)])
qed


lemma with_strs_set_last_error:
  "with_strs ptrs ks n (set_last_error t m w) = set_last_error t m (with_strs ptrs ks n w)"
  by (simp add: with_strs_def set_last_error_def)

lemma set_last_error_tick: "set_last_error t m (w\<lparr>tick := n\<rparr>) = (set_last_error t m w)\<lparr>tick := n\<rparr>"
  by (simp add: set_last_error_def)

lemma new_ptrs_set_last_error [simp]:
  "new_ptrs ptrs ks (set_last_error t m w) = new_ptrs ptrs ks w"
  by (simp add: new_ptrs_def)

lemma find_has_nulE:
  assumes "find has_nul ks = Some k"
  obtains ks1 ks2 where "ks = ks1 @ k # ks2" "\<forall>x\<in>set ks1. \<not> has_nul x" "has_nul k"
proof -
  from assms have "\<exists>x\<in>set ks. has_nul x" by (metis find_None_iff not_None_eq)
  then obtain ks1 x ks2 where d: "ks = ks1 @ x # ks2" "has_nul x" "\<forall>y\<in>set ks1. \<not> has_nul y"
    by (rule split_list_first_propE)
  then have "find has_nul ks = Some x" by (induction ks1 arbitrary: ks) auto
  with assms d that show thesis by auto
qed

text \<open>A failed scan hands nothing out: the strings made before the offending key are freed again.\<close>

lemma alloc_key_ptrs_nul:
  assumes "fresh_allocator al" "reg_inv w" "check_nul ks = Inl (c, m)"
  shows "\<exists>n. alloc_key_ptrs al t ks [] w = Some (Inl c, set_last_error t m (w\<lparr>tick := n\<rparr>))"
proof -
  from assms(3) obtain k where k: "find has_nul ks = Some k" and cm: "c = ErrorStorage"
    "m = ''Failed to create C string: nul byte found in provided data at position: '' @
         show_nat (nul_position k)"
    by (auto simp: check_nul_def split: option.splits)
  from find_has_nulE [OF k] obtain ks1 ks2 where
    ks: "ks = ks1 @ k # ks2" "\<forall>x\<in>set ks1. \<not> has_nul x" "has_nul k" .
  from alloc_key_ptrs_ok [OF assms(1,2) ks(2), of t "[]"] obtain ptrs n where
    p: "new_ptrs ptrs ks1 w"
      "alloc_key_ptrs al t ks [] w = alloc_key_ptrs al t (k # ks2) ptrs (with_strs ptrs ks1 n w)"
    using ks(1) by auto
  have "free_strings ptrs (set_last_error t m (with_strs ptrs ks1 n w)) =
      Some ((set_last_error t m w)\<lparr>tick := n\<rparr>)"
    using free_with_strs [of "set_last_error t m w" ptrs ks1 n] assms(2) p(1)
    by (simp add: with_strs_set_last_error)
  with p(2) ks(3) cm show ?thesis
    by (intro exI [of _ n])
      (simp add: allocate_c_string_def cstring_new_def has_nul_def set_last_error_def)
qed

lemma cstr_RStr: "heap w p = Some (RStr (k @ [NUL])) \<Longrightarrow> cstr_from_ptr w p = Some (c_cut k)"
  by (simp add: cstr_from_ptr_def mem_at_def c_cut_def)

lemma str_blocks_cstr:
  "length ptrs = length ks \<Longrightarrow> distinct ptrs \<Longrightarrow> \<forall>k\<in>set ks. \<not> has_nul k \<Longrightarrow>
   (\<forall>p\<in>set ptrs. heap w p = str_blocks ptrs ks p) \<Longrightarrow>
   list_all2 (\<lambda>p k. cstr_from_ptr w p = Some k) ptrs ks"
proof (induction ptrs ks rule: list_induct2)
  case Nil
  then show ?case by simp
next
  case (Cons p ptrs k ks)
  have "cstr_from_ptr w p = Some k"
    using Cons.prems cstr_RStr [of w p k] by (simp add: has_nul_def)
  moreover have "\<forall>q\<in>set ptrs. heap w q = str_blocks ptrs ks q"
    using Cons.prems by auto
  ultimately show ?case using Cons by simp
qed

text \<open>
  A successful key scan: the array and its strings are readable, and freeing the result restores the
  heap and the registry.
\<close>

lemma fill_key_scan_ok:
  assumes "fresh_allocator al" "reg_inv w" "\<forall>k\<in>set ks. \<not> has_nul k" "ks \<noteq> []"
  shows "\<exists>p ptrs n W. fill_key_scan al t ks w = Some ((Success, Some \<lparr>ks_keys = p, ks_count = length ks\<rparr>), W) \<and>
     p \<noteq> null \<and> heap W p = Some (KeyPtrs ptrs) \<and> length ptrs = length ks \<and>
     list_all2 (\<lambda>q k. cstr_from_ptr W q = Some k) ptrs ks \<and>
     f4kvs_key_scan_result_free (Some \<lparr>ks_keys = p, ks_count = length ks\<rparr>) W =
       Some (Some \<lparr>ks_keys = null, ks_count = 0\<rparr>, w\<lparr>tick := n\<rparr>)"
proof -
  from alloc_key_ptrs_ok [OF assms(1-3), of t "[]"] obtain ptrs n where
    new: "new_ptrs ptrs ks w" and inv: "reg_inv (with_strs ptrs ks n w)"
    and al: "alloc_key_ptrs al t ks [] w = Some (Inr ptrs, with_strs ptrs ks n w)"
    by (metis append.right_neutral append_Nil alloc_key_ptrs.simps(1))
  from assms(1) inv obtain p where
    p: "alloc_block al (KeyPtrs ptrs) (with_strs ptrs ks n w) =
         (p, (with_strs ptrs ks n w)\<lparr>heap := (heap (with_strs ptrs ks n w))(p \<mapsto> KeyPtrs ptrs),
             tick := Suc (tick (with_strs ptrs ks n w))\<rparr>)"
      "heap (with_strs ptrs ks n w) p = None" "1 < p"
    by (rule alloc_blockE)
  have len: "length ptrs = length ks" and dis: "distinct ptrs" using new by (auto simp: new_ptrs_def)
  have pn: "p \<notin> set ptrs" "heap w p = None"
    using p(2) is_str_with_strs [OF new, of p n] by (fastforce, simp add: with_strs_def)
  let ?w0 = "w\<lparr>heap := (heap w)(p \<mapsto> KeyPtrs ptrs)\<rparr>"
  have W: "(with_strs ptrs ks n w)\<lparr>heap := (heap (with_strs ptrs ks n w))(p \<mapsto> KeyPtrs ptrs),
      tick := Suc (tick (with_strs ptrs ks n w))\<rparr> = with_strs ptrs ks (Suc n) ?w0"
    using pn len by (simp add: with_strs_def dom_str_blocks map_add_upd_left)
  have new0: "new_ptrs ptrs ks ?w0" using new pn by (auto simp: new_ptrs_def)
  have "reg_inv ?w0"
    using reg_inv_insert_plain [OF assms(2) pn(2) p(3), of "KeyPtrs ptrs" "tick w"]
    by (simp cong: reg_inv_cong)
  from free_with_strs [OF this new0, of "Suc n"]
  have free: "free_strings ptrs (with_strs ptrs ks (Suc n) ?w0) = Some (?w0\<lparr>tick := Suc n\<rparr>)" .
  have hp: "heap (with_strs ptrs ks (Suc n) ?w0) p = Some (KeyPtrs ptrs)"
    using pn len by (simp add: with_strs_def map_add_dom_app_simps(3) dom_str_blocks)
  have "list_all2 (\<lambda>q k. cstr_from_ptr (with_strs ptrs ks (Suc n) ?w0) q = Some k) ptrs ks"
    using len dis assms(3)
    by (intro str_blocks_cstr) (auto simp: with_strs_def map_add_dom_app_simps(1) dom_str_blocks)
  moreover have "f4kvs_key_scan_result_free (Some \<lparr>ks_keys = p, ks_count = length ks\<rparr>)
      (with_strs ptrs ks (Suc n) ?w0) = Some (Some \<lparr>ks_keys = null, ks_count = 0\<rparr>, w\<lparr>tick := Suc n\<rparr>)"
    using hp free len assms(4) p(3) pn(2)
    by (simp add: f4kvs_key_scan_result_free_def drop_block_def fun_upd_idem)
  moreover have "fill_key_scan al t ks w =
      Some ((Success, Some \<lparr>ks_keys = p, ks_count = length ks\<rparr>), with_strs ptrs ks (Suc n) ?w0)"
    using assms(4) al p(1) W by (simp add: fill_key_scan_def)
  ultimately show ?thesis using hp len p(3) by auto
qed


text \<open>What a caller of \<^verbatim>\<open>f4kvs_engine_scan_prefix_keys\<close> may rely on, for each answer of the specification.\<close>

definition readable_keys :: "F4KvsKeyScanResult \<Rightarrow> bytes list \<Rightarrow> ('x, 'c) world \<Rightarrow> bool" where
  "readable_keys res ks w \<longleftrightarrow>
     ks_count res = length ks \<and>
     (if ks = [] then ks_keys res = null
      else ks_keys res \<noteq> null \<and>
        (\<exists>ptrs. heap w (ks_keys res) = Some (KeyPtrs ptrs) \<and>
           list_all2 (\<lambda>q k. cstr_from_ptr w q = Some k) ptrs ks))"

lemma check_nul_Inr: "check_nul ks = Inr ks' \<longleftrightarrow> ks' = ks \<and> (\<forall>k\<in>set ks. \<not> has_nul k)"
  by (auto simp: check_nul_def find_None_iff find_Some_iff split: option.splits)

lemma fill_key_scan_refines:
  assumes "fresh_allocator al" "reg_inv w"
  shows "case check_nul ks of
      Inl (c, m) \<Rightarrow> \<exists>n. fill_key_scan al t ks w = Some ((c, None), set_last_error t m (w\<lparr>tick := n\<rparr>))
    | Inr _ \<Rightarrow> \<exists>res res' W n. fill_key_scan al t ks w = Some ((Success, Some res), W) \<and>
        readable_keys res ks W \<and> f4kvs_key_scan_result_free (Some res) W = Some (res', w\<lparr>tick := n\<rparr>)"
proof (cases "check_nul ks")
  case (Inl cm)
  obtain c m where cm: "cm = (c, m)" by (cases cm)
  with Inl have "ks \<noteq> []" by (auto simp: check_nul_def)
  with alloc_key_ptrs_nul [OF assms, of ks c m t] Inl cm show ?thesis
    by (auto simp: fill_key_scan_def)
next
  case (Inr ks')
  then have nn: "\<forall>k\<in>set ks. \<not> has_nul k" by (simp add: check_nul_Inr)
  show ?thesis
  proof (cases "ks = []")
    case True
    with Inr show ?thesis
      by (auto simp: fill_key_scan_def readable_keys_def f4kvs_key_scan_result_free_def
          intro!: exI [of _ "tick w"])
  next
    case False
    from fill_key_scan_ok [OF assms nn False, of t] Inr False show ?thesis
      unfolding readable_keys_def by fastforce
  qed
qed

lemma scan_prefix_keys_refines:
  assumes "engine \<noteq> null" "heap w engine = Some (EngineBox e)" "pfx \<noteq> null"
    and "cstr_from_ptr w pfx = Some p" "out \<noteq> null" "fresh_allocator (allocator E)" "reg_inv w"
  shows "let rx = api_scan E e p (lsm w) in
    case fst rx of
      Inl (c, m) \<Rightarrow> \<exists>n. f4kvs_engine_scan_prefix_keys E t engine pfx out w =
        Some ((c, None), (publish t rx w)\<lparr>tick := n\<rparr>)
    | Inr ks \<Rightarrow> \<exists>res res' W n. f4kvs_engine_scan_prefix_keys E t engine pfx out w =
        Some ((Success, Some res), W) \<and> readable_keys res ks W \<and>
        f4kvs_key_scan_result_free (Some res) W = Some (res', (publish t rx w)\<lparr>tick := n\<rparr>)"
proof -
  note open_scan = f4kvs_engine_scan_prefix_keys_def api_scan_def validate_engine_live [OF assms(1,2)]
    validate_c_string_text [OF assms(3,4)] assms(5) lsm_call_def publish_def storage_def
  show ?thesis
  proof (cases rule: check_text_cases [of MAX_KEY_LENGTH "''prefix''" p])
    case (bad m)
    then show ?thesis by (auto simp: open_scan intro!: exI [of _ "tick w"])
  next
    case (ok u)
    obtain r x' where r: "lsm_scan_prefix E e u (lsm w) = (r, x')" by fastforce
    show ?thesis
    proof (cases r)
      case (Inl m)
      with ok r show ?thesis by (auto simp: open_scan intro!: exI [of _ "tick w"])
    next
      case (Inr ks)
      from fill_key_scan_refines [OF assms(6), where w = "w\<lparr>lsm := x'\<rparr>" and ks = ks and t = t] assms(7)
      have fill: "case check_nul ks of
          Inl (c, m) \<Rightarrow> \<exists>n. fill_key_scan (allocator E) t ks (w\<lparr>lsm := x'\<rparr>) =
            Some ((c, None), set_last_error t m (w\<lparr>lsm := x', tick := n\<rparr>))
        | Inr _ \<Rightarrow> \<exists>res res' W n. fill_key_scan (allocator E) t ks (w\<lparr>lsm := x'\<rparr>) = Some ((Success, Some res), W) \<and>
            readable_keys res ks W \<and>
            f4kvs_key_scan_result_free (Some res) W = Some (res', w\<lparr>lsm := x', tick := n\<rparr>)"
        by simp
      show ?thesis
      proof (cases "check_nul ks")
        case (Inl cm)
        then show ?thesis
          using fill ok r Inr by (cases cm) (auto simp: open_scan set_last_error_tick)
      next
        case (Inr ks')
        then have "ks' = ks" by (simp add: check_nul_Inr)
        then show ?thesis
          using fill ok r Inr \<open>r = Inr ks\<close> by (simp add: open_scan)
      qed
    qed
  qed
qed

end
