(* ===== verification/Go_Contract.thy ===== *)
theory Go_Contract
  imports Go_Engine Scan_Contract
begin

text \<open>
  What the methods of the Go engine object promise. On a live engine every method returns (no
  undefined memory access, no panic, no blocked lock), answers as the specification of the C
  interface does for the key as C sees it, and leaves the C heap, the registries and the lock as it
  found them. On a closed engine it returns \<^verbatim>\<open>ErrClosed\<close> without touching C memory.
\<close>

section \<open>Live engines\<close>

definition live :: "('x, 'c) go_state \<Rightarrow> eid \<Rightarrow> bool" where
  "live g e \<longleftrightarrow>
     reg_inv (g_world g) \<and> \<not> mu_writer (g_engine g) \<and> \<not> closed (g_engine g) \<and>
     handle (g_engine g) \<noteq> null \<and> heap (g_world g) (handle (g_engine g)) = Some (EngineBox e)"

definition is_closed :: "('x, 'c) go_state \<Rightarrow> bool" where
  "is_closed g \<longleftrightarrow>
     reg_inv (g_world g) \<and> \<not> mu_writer (g_engine g) \<and> closed (g_engine g) \<and> handle (g_engine g) = null"

text \<open>The Go error made of an answer, with the message \<^verbatim>\<open>lastError\<close> finds in the world \<open>w\<close>.\<close>

definition go_err :: "bytes \<Rightarrow> bytes list \<Rightarrow> tid \<Rightarrow> ('x, 'c) world \<Rightarrow> 'a answer \<Rightarrow> go_error option" where
  "go_err fmt args te w r =
     (case r of Inr _ \<Rightarrow> None | Inl _ \<Rightarrow> Some (Errorf fmt (args @ [lastError te w])))"

definition proper :: "'a answer \<Rightarrow> bool" where
  "proper r \<longleftrightarrow> (\<forall>c m. r = Inl (c, m) \<longrightarrow> c = ErrorInvalidArgument \<or> c = ErrorStorage)"

lemma properD: "proper r \<Longrightarrow> r = Inl (c, m) \<Longrightarrow> c \<noteq> Success \<and> c \<noteq> ErrorNotFound"
  by (auto simp: proper_def)

lemma storage_code: "fst (storage label rx) = Inl (c, m) \<Longrightarrow> c = ErrorStorage"
  by (auto simp: storage_def split: prod.splits sum.splits)

lemma proper_storage: "proper (fst (storage label rx))"
  by (auto simp: proper_def dest: storage_code)

lemma proper_check_text: "check_text n f s = Inl (c, m) \<Longrightarrow> c = ErrorInvalidArgument"
  by (cases rule: check_text_cases [of n f s]) auto

lemma check_keys_code: "check_keys ks = Inl (c, m) \<Longrightarrow> c = ErrorInvalidArgument"
  by (induction ks) (auto dest: proper_check_text split: sum.splits)

lemma proper_api:
  "proper (fst (api_put E e k v x))" "proper (fst (api_get E e k x))" "proper (fst (api_delete E e k x))"
  "proper (fst (api_batch_put E e items x))" "proper (fst (api_batch_delete E e ks x))"
  by (auto simp: api_put_def api_get_def api_delete_def api_batch_put_def api_batch_delete_def
      check_count_def proper_def dest: proper_check_text check_items_code check_keys_code storage_code
      split: sum.splits if_splits)

lemma code_of_Success: "proper r \<Longrightarrow> code_of r = Success \<longleftrightarrow> (\<exists>a. r = Inr a)"
  by (auto simp: code_of_def dest: properD split: sum.splits)

lemma code_of_not_found: "proper r \<Longrightarrow> code_of r \<noteq> ErrorNotFound"
  by (auto simp: code_of_def dest: properD split: sum.splits)

lemma go_err_code:
  "proper r \<Longrightarrow> code_of r = Success \<Longrightarrow> go_err fmt args te w r = None"
  "code_of r \<noteq> Success \<Longrightarrow> go_err fmt args te w r = Some (Errorf fmt (args @ [lastError te w]))"
  by (auto simp: code_of_Success go_err_def) (auto simp: code_of_def split: sum.splits)

section \<open>Locks and C memory\<close>

lemma rLockLive_live:
  "live g e \<Longrightarrow>
   rLockLive g = Some (None, g\<lparr>g_engine := (g_engine g)\<lparr>mu_readers := Suc (mu_readers (g_engine g))\<rparr>\<rparr>)"
  by (simp add: rLockLive_def RLock_def live_def)

lemma rLockLive_closed: "is_closed g \<Longrightarrow> rLockLive g = Some (Some ErrClosed, g)"
  by (simp add: rLockLive_def RLock_def RUnlock_def is_closed_def)

lemma RUnlock_RLock:
  "RUnlock (g\<lparr>g_engine := (g_engine g)\<lparr>mu_readers := Suc (mu_readers (g_engine g))\<rparr>, g_world := w\<rparr>) =
     Some (g\<lparr>g_world := w\<rparr>)"
  by (simp add: RUnlock_def)

lemma c_stringE:
  assumes "fresh_allocator al" "reg_inv w"
  obtains a where
    "c_string al s w = (a, w\<lparr>heap := (heap w)(a \<mapsto> CMem (s @ [NUL])), tick := Suc (tick w)\<rparr>)"
    "heap w a = None" "1 < a"
  using alloc_blockE [OF assms] by (metis c_string_def c_malloc_copy_def)

lemma cstr_CMem [simp]:
  "heap w a = Some (CMem (s @ [NUL])) \<Longrightarrow> cstr_from_ptr w a = Some (c_cut s)"
  by (simp add: cstr_from_ptr_def mem_at_def c_cut_def)

lemma slice_CMem [simp]: "heap w a = Some (CMem v) \<Longrightarrow> slice_from_raw w a (length v) = Some v"
  by (simp add: slice_from_raw_def mem_at_def)

lemma publish_upd:
  "publish t rx (w\<lparr>heap := h\<rparr>) = (publish t rx w)\<lparr>heap := h\<rparr>"
  "publish t rx (w\<lparr>tick := n\<rparr>) = (publish t rx w)\<lparr>tick := n\<rparr>"
  by (auto simp: publish_def set_last_error_def split: prod.splits sum.splits)

lemma lastError_mem [simp]:
  "lastError te (w\<lparr>heap := h\<rparr>) = lastError te w"
  "lastError te (w\<lparr>tick := n\<rparr>) = lastError te w"
  by (simp_all add: lastError_def f4kvs_get_last_error_def)

lemma heap_restore:
  "heap w a = None \<Longrightarrow> (publish t rx w)\<lparr>heap := (heap w)(a := None), tick := n\<rparr> = (publish t rx w)\<lparr>tick := n\<rparr>"
  "heap w a = None \<Longrightarrow> (publish t rx w)\<lparr>tick := n, heap := (heap w)(a := None)\<rparr> = (publish t rx w)\<lparr>tick := n\<rparr>"
  by (simp_all add: fun_upd_idem)

lemma live_handle: "live g e \<Longrightarrow> heap (g_world g) a = None \<Longrightarrow> handle (g_engine g) \<noteq> a"
  by (auto simp: live_def)

section \<open>The single-key methods\<close>

text \<open>The state after a method: the answer is published, only the allocation tick moves.\<close>

definition after :: "tid \<Rightarrow> 'a answer \<times> 'x \<Rightarrow> nat \<Rightarrow> ('x, 'c) go_state \<Rightarrow> ('x, 'c) go_state" where
  "after tc rx n g = g\<lparr>g_world := (publish tc rx (g_world g))\<lparr>tick := n\<rparr>\<rparr>"

lemma Delete_refines:
  assumes "live g e" "fresh_allocator (allocator E)"
  shows "\<exists>n. Delete E tc te key g =
     (let rx = api_delete E e (c_cut key) (lsm (g_world g)); g' = after tc rx n g in
      Some (go_err ''f4kvs delete %q: %s'' [key] te (g_world g') (fst rx), g'))"
proof -
  let ?w = "g_world g" and ?rx = "api_delete E e (c_cut key) (lsm (g_world g))"
  from assms have inv: "reg_inv ?w" by (simp add: live_def)
  from assms(2) inv obtain a where
    a: "c_string (allocator E) key ?w =
         (a, ?w\<lparr>heap := (heap ?w)(a \<mapsto> CMem (key @ [NUL])), tick := Suc (tick ?w)\<rparr>)" (is "_ = (a, ?w1)")
      "heap ?w a = None" "1 < a"
    by (rule c_stringE)
  have "f4kvs_engine_delete E tc (handle (g_engine g)) a ?w1 =
      Some (code_of (fst (api_delete E e (c_cut key) (lsm ?w1))),
            publish tc (api_delete E e (c_cut key) (lsm ?w1)) ?w1)"
    using assms(1) a live_handle [OF assms(1) a(2)]
    by (intro delete_refines) (auto simp: live_def)
  then show ?thesis
    using assms(1) a(2,3)
    by (intro exI [of _ "Suc (tick ?w)"])
      (auto simp: Delete_def rLockLive_live a(1) after_def publish_upd c_free_def drop_block_def RUnlock_def
        proper_api code_of_not_found go_err_code heap_restore Let_def)
qed


lemma lend_sliceE:
  fixes w :: "('x, 'c) world"
  assumes "fresh_allocator al" "reg_inv w"
  obtains p n h where
    "lend_slice al v w = (p, w\<lparr>heap := h, tick := n\<rparr>)"
    "v \<noteq> [] \<longrightarrow> p \<noteq> null \<and> h p = Some (CMem v)"
    "\<forall>W :: ('x, 'c) world. heap W = h \<longrightarrow> reclaim_slice p W = W\<lparr>heap := heap w\<rparr>"
    "\<forall>a b. heap w a = Some b \<longrightarrow> h a = Some b"
proof (cases "v = []")
  case True
  show thesis
    by (rule that [of null "tick w" "heap w"]) (auto simp: True lend_slice_def reclaim_slice_def)
next
  case False
  from alloc_blockE [OF assms, of "CMem v"] obtain a where
    a: "alloc_block al (CMem v) w = (a, w\<lparr>heap := (heap w)(a \<mapsto> CMem v), tick := Suc (tick w)\<rparr>)"
      "heap w a = None" "1 < a" .
  show thesis
    by (rule that [of a "Suc (tick w)" "(heap w)(a \<mapsto> CMem v)"])
      (use False a in \<open>auto simp: lend_slice_def reclaim_slice_def drop_block_def fun_upd_idem\<close>)
qed

lemma PutBytes_refines:
  fixes g :: "('x, 'c) go_state"
  assumes "live g e" "fresh_allocator (allocator E)"
  shows "\<exists>n. PutBytes E tc te key v g =
     (let rx = api_put E e (c_cut key) v (lsm (g_world g)); g' = after tc rx n g in
      Some (go_err ''f4kvs put %q: %s'' [key] te (g_world g') (fst rx), g'))"
proof -
  let ?w = "g_world g" and ?rx = "api_put E e (c_cut key) v (lsm (g_world g))"
  from assms have inv: "reg_inv ?w" by (simp add: live_def)
  from assms(2) inv obtain a where
    a: "c_string (allocator E) key ?w =
         (a, ?w\<lparr>heap := (heap ?w)(a \<mapsto> CMem (key @ [NUL])), tick := Suc (tick ?w)\<rparr>)" (is "_ = (a, ?w1)")
      "heap ?w a = None" "1 < a"
    by (rule c_stringE)
  have inv1: "reg_inv ?w1" using inv a(2,3) by (rule reg_inv_insert_plain) simp
  from lend_sliceE [OF assms(2) inv1, of v] obtain p n h where
    p: "lend_slice (allocator E) v ?w1 = (p, ?w1\<lparr>heap := h, tick := n\<rparr>)"
      "v \<noteq> [] \<longrightarrow> p \<noteq> null \<and> h p = Some (CMem v)"
      "\<forall>W :: ('x, 'c) world. heap W = h \<longrightarrow> reclaim_slice p W = W\<lparr>heap := heap ?w1\<rparr>"
      "\<forall>a b. heap ?w1 a = Some b \<longrightarrow> h a = Some b" .
  let ?w2 = "?w1\<lparr>heap := h, tick := n\<rparr>"
  have "h (handle (g_engine g)) = Some (EngineBox e)" "h a = Some (CMem (key @ [NUL]))"
    using assms(1) live_handle [OF assms(1) a(2)] by (auto intro!: p(4) [rule_format] simp: live_def)
  then have "f4kvs_engine_put_bytes E tc (handle (g_engine g)) a p (length v) ?w2 =
      Some (code_of (fst (api_put E e (c_cut key) v (lsm ?w2))),
            publish tc (api_put E e (c_cut key) v (lsm ?w2)) ?w2)"
    using assms(1) a p(2)
    by (intro put_bytes_refines) (auto simp: live_def)
  then show ?thesis
    using assms(1) a(2,3) p(1)
    by (intro exI [of _ n])
      (auto simp: PutBytes_def rLockLive_live a(1) after_def publish_upd c_free_def drop_block_def
        RUnlock_def p(3) proper_api go_err_code heap_restore Let_def)
qed

lemma c_int_small: "n < 2 ^ 31 \<Longrightarrow> c_int n = int n"
  by (simp add: c_int_def signed_of_nat signed_take_bit_int_eq_self)

lemma allocate_bytes_free:
  assumes "fresh_allocator al" "reg_inv w"
  obtains p w1 n where
    "allocate_bytes al s w = ((p, length s), w1)" "p \<noteq> null" "lsm w1 = lsm w"
    "s \<noteq> [] \<Longrightarrow> slice_from_raw w1 p (length s) = Some s"
    "f4kvs_bytes_free p w1 =
       Some (w\<lparr>tick := n, bytes_allocs := if s = [] then (bytes_allocs w)(1 := None) else bytes_allocs w\<rparr>)"
proof (cases "s = []")
  case True
  show thesis
    by (rule that [of 1 "w\<lparr>bytes_allocs := (bytes_allocs w)(1 \<mapsto> 0)\<rparr>" "tick w"])
      (simp_all add: True allocate_bytes_def bytes_register_def f4kvs_bytes_free_def bytes_unregister_def)
next
  case False
  from alloc_blockE [OF assms, of "RBytes s"] obtain a where
    a: "alloc_block al (RBytes s) w = (a, w\<lparr>heap := (heap w)(a \<mapsto> RBytes s), tick := Suc (tick w)\<rparr>)"
      "heap w a = None" "1 < a" .
  have "bytes_allocs w a = None" using reg_invD(5) [OF assms(2), of a] a(2,3) by simp
  then show thesis
    by (intro that [of a "w\<lparr>heap := (heap w)(a \<mapsto> RBytes s), tick := Suc (tick w),
          bytes_allocs := (bytes_allocs w)(a \<mapsto> length s)\<rparr>" "Suc (tick w)"])
      (use False a in \<open>simp_all add: allocate_bytes_def bytes_register_def f4kvs_bytes_free_def
        bytes_unregister_def drop_block_def slice_from_raw_def mem_at_def fun_upd_idem\<close>)
qed


text \<open>
  Reading an empty value registers the shared address 1 and frees it again, so a registration of an
  empty buffer that another caller still holds is forgotten; nothing else changes.
\<close>

definition forget_empty :: "lsm_value option answer \<Rightarrow> ('x, 'c) world \<Rightarrow> ('x, 'c) world" where
  "forget_empty r w =
     (case r of
        Inr (Some v) \<Rightarrow>
          if value_to_bytes v = [] then w\<lparr>bytes_allocs := (bytes_allocs w)(1 := None)\<rparr> else w
      | _ \<Rightarrow> w)"

definition after_get ::
  "tid \<Rightarrow> lsm_value option answer \<times> 'x \<Rightarrow> nat \<Rightarrow> ('x, 'c) go_state \<Rightarrow> ('x, 'c) go_state" where
  "after_get tc rx n g =
     g\<lparr>g_world := forget_empty (fst rx) ((publish tc rx (g_world g))\<lparr>tick := n\<rparr>)\<rparr>"

definition get_answer ::
  "bytes \<Rightarrow> tid \<Rightarrow> ('x, 'c) world \<Rightarrow> lsm_value option answer \<Rightarrow> go_error + bytes" where
  "get_answer key te w r =
     (case r of
        Inr (Some v) \<Rightarrow> Inr (value_to_bytes v)
      | Inr None \<Rightarrow> Inl ErrNotFound
      | Inl _ \<Rightarrow> Inl (Errorf ''f4kvs get %q: %s'' [key, lastError te w]))"

lemma publish_bytes_allocs:
  "publish t rx (w\<lparr>bytes_allocs := b\<rparr>) = (publish t rx w)\<lparr>bytes_allocs := b\<rparr>"
  by (auto simp: publish_def set_last_error_def split: prod.splits sum.splits)

lemma GetBytes_refines:
  assumes "live g e" "fresh_allocator (allocator E)"
    and small: "\<And>v. fst (api_get E e (c_cut key) (lsm (g_world g))) = Inr (Some v) \<Longrightarrow>
           length (value_to_bytes v) < 2 ^ 31"
  shows "\<exists>n. GetBytes E tc te key g =
     (let rx = api_get E e (c_cut key) (lsm (g_world g)); g' = after_get tc rx n g in
      Some (get_answer key te (g_world g') (fst rx), g'))"
proof -
  let ?w = "g_world g" and ?rx = "api_get E e (c_cut key) (lsm (g_world g))"
  from assms have inv: "reg_inv ?w" by (simp add: live_def)
  from assms(2) inv obtain a where
    a: "c_string (allocator E) key ?w =
         (a, ?w\<lparr>heap := (heap ?w)(a \<mapsto> CMem (key @ [NUL])), tick := Suc (tick ?w)\<rparr>)" (is "_ = (a, ?w1)")
      "heap ?w a = None" "1 < a"
    by (rule c_stringE)
  have inv1: "reg_inv ?w1" using inv a(2,3) by (rule reg_inv_insert_plain) simp
  have inv2: "reg_inv (publish tc ?rx ?w1)" using inv1 by simp
  have call: "f4kvs_engine_get_bytes E tc (handle (g_engine g)) a go_var go_var ?w1 =
     (let rx = api_get E e (c_cut key) (lsm ?w1); w1 = publish tc rx ?w1 in
      case fst rx of
        Inr (Some v) \<Rightarrow>
          (let (p, w2) = allocate_bytes (allocator E) (value_to_bytes v) w1 in
           Some ((Success, Some p), w2))
      | Inr None \<Rightarrow> Some ((ErrorNotFound, Some (null, 0)), w1)
      | Inl (c, _) \<Rightarrow> Some ((c, None), w1))"
    using assms(1) a live_handle [OF assms(1) a(2)]
    by (intro get_bytes_refines) (auto simp: live_def go_var_def)
  note unfold = GetBytes_def rLockLive_live [OF assms(1)] a(1) call after_get_def forget_empty_def
    get_answer_def Let_def     publish_upd c_free_def drop_block_def RUnlock_def heap_restore [OF a(2)]
  show ?thesis
  proof (cases "fst ?rx")
    case (Inl cm)
    obtain c m where cm: "cm = (c, m)" by (cases cm)
    with Inl have "c \<noteq> Success" "c \<noteq> ErrorNotFound"
      using properD [OF proper_api(2) [of E e "c_cut key" "lsm ?w"]] by auto
    with Inl cm a(2,3) show ?thesis
      by (intro exI [of _ "Suc (tick ?w)"]) (simp add: unfold)
  next
    case (Inr vo)
    show ?thesis
    proof (cases vo)
      case None
      with Inr a(2,3) show ?thesis
        by (intro exI [of _ "Suc (tick ?w)"]) (simp add: unfold)
    next
      case (Some v)
      from allocate_bytes_free [OF assms(2) inv2, of "value_to_bytes v"] obtain p w1 n where
        p: "allocate_bytes (allocator E) (value_to_bytes v) (publish tc ?rx ?w1) =
             ((p, length (value_to_bytes v)), w1)"
          "p \<noteq> null" "value_to_bytes v \<noteq> [] \<Longrightarrow> slice_from_raw w1 p (length (value_to_bytes v)) = Some (value_to_bytes v)"
          "f4kvs_bytes_free p w1 = Some ((publish tc ?rx ?w1)\<lparr>tick := n, bytes_allocs :=
             if value_to_bytes v = [] then (bytes_allocs (publish tc ?rx ?w1))(1 := None)
             else bytes_allocs (publish tc ?rx ?w1)\<rparr>)"
        by metis
      have "go_bytes w1 p (c_int (length (value_to_bytes v))) = Some (value_to_bytes v)"
        if "value_to_bytes v \<noteq> []"
        using p(3) [OF that] small [of v] Inr Some by (simp add: go_bytes_def c_int_small)
      with Inr Some a(2,3) p(1,2,4) show ?thesis
        by (intro exI [of _ n]) (auto simp: unfold publish_upd heap_restore fun_upd_idem)
    qed
  qed
qed

end
