(* ===== verification/Go_Batch.thy ===== *)
theory Go_Batch
  imports Go_Contract
begin

text \<open>
  The methods of the Go engine object that move several blocks over the C interface: the batch
  operations, which marshal their arguments into C arrays and release them in deferred calls, the
  key scan, the maintenance calls and \<^verbatim>\<open>Close\<close>. Each refines its specification and gives every block back.
\<close>

section \<open>Blocks lent to C\<close>

text \<open>The heap \<open>h\<close> is \<open>h0\<close> and the blocks \<open>ps\<close>, which came from C \<^verbatim>\<open>malloc\<close>.\<close>

definition lent :: "addr list \<Rightarrow> 'c heap \<Rightarrow> 'c heap \<Rightarrow> bool" where
  "lent ps h0 h \<longleftrightarrow>
     distinct ps \<and> null \<notin> set ps \<and> (\<forall>p\<in>set ps. \<exists>s. h p = Some (CMem s)) \<and>
     set ps \<inter> dom h0 = {} \<and> h |` (- set ps) = h0"

lemma lent_Nil [simp]: "lent [] h0 h \<longleftrightarrow> h = h0"
  by (simp add: lent_def restrict_map_def)

lemma lent_le:
  assumes "lent ps h0 h" "h0 a = Some b"
  shows "h a = Some b" "a \<notin> set ps"
proof -
  from assms have "(h |` (- set ps)) a = Some b" by (simp add: lent_def)
  then show "h a = Some b" "a \<notin> set ps" by (auto simp: restrict_map_def split: if_splits)
qed

lemma lent_Cons:
  assumes "lent ps (h0(a \<mapsto> CMem s)) h" "h0 a = None" "a \<noteq> null"
  shows "lent (a # ps) h0 h"
proof -
  have a: "h a = Some (CMem s)" "a \<notin> set ps" using lent_le [OF assms(1), of a] by auto
  have "h |` (- set (a # ps)) = (h |` (- set ps))(a := None)" by (auto simp: restrict_map_def)
  also have "\<dots> = h0" using assms by (simp add: lent_def fun_upd_idem)
  finally show ?thesis using assms a by (auto simp: lent_def)
qed

lemma lent_insert: "lent (a # b # xs @ ys) h0 h \<Longrightarrow> lent (a # xs @ b # ys) h0 h"
  unfolding lent_def by (auto simp: insert_commute)

lemma c_free_all_append:
  "c_free_all (xs @ ys) w = do { w1 \<leftarrow> c_free_all xs w; c_free_all ys w1 }"
  by (induction xs arbitrary: w) (auto split: Option.bind_splits)

lemma c_free_all_null: "c_free_all (filter (\<lambda>p. p \<noteq> null) ps) w = c_free_all ps w"
  by (induction ps arbitrary: w) (auto simp: c_free_def split: Option.bind_splits)

lemma c_free_all_lent: "lent ps h0 (heap w) \<Longrightarrow> c_free_all ps w = Some (w\<lparr>heap := h0\<rparr>)"
proof (induction ps arbitrary: w)
  case Nil
  then show ?case by simp
next
  case (Cons p ps)
  let ?w1 = "w\<lparr>heap := (heap w)(p := None)\<rparr>"
  from Cons.prems obtain s where "heap w p = Some (CMem s)" "p \<noteq> null" by (auto simp: lent_def)
  then have 1: "c_free p w = Some ?w1" by (simp add: c_free_def drop_block_def)
  have "lent ps h0 (heap ?w1)"
    using Cons.prems by (auto simp: lent_def restrict_map_def fun_eq_iff split: if_splits)
  from Cons.IH [OF this] 1 show ?case by simp
qed

lemma c_free_two:
  assumes "lent (xs @ filter (\<lambda>p. p \<noteq> null) ys) h0 (heap w)"
  shows "do { w1 \<leftarrow> c_free_all xs w; w2 \<leftarrow> c_free_all ys w1; f w2 } = f (w\<lparr>heap := h0\<rparr>)"
proof -
  have "do { w1 \<leftarrow> c_free_all xs w; w2 \<leftarrow> c_free_all ys w1; f w2 } =
      do { w2 \<leftarrow> c_free_all (xs @ filter (\<lambda>p. p \<noteq> null) ys) w; f w2 }"
    by (simp only: c_free_all_append c_free_all_null bind_assoc)
  then show ?thesis using c_free_all_lent [OF assms] by simp
qed

section \<open>Marshalling\<close>

lemma marshal_keys_ok:
  fixes w :: "('x, 'c) world"
  assumes "fresh_allocator al" "reg_inv w"
  shows "\<exists>cks h n. marshal_keys al ks w = (cks, w\<lparr>heap := h, tick := n\<rparr>) \<and> lent cks (heap w) h \<and>
     (\<forall>W :: ('x, 'c) world. heap W = h \<longrightarrow> marshalled_keys W ks cks)"
  using assms(2)
proof (induction ks arbitrary: w)
  case Nil
  then show ?case by (intro exI [of _ "[]"] exI [of _ "heap w"] exI [of _ "tick w"]) simp
next
  case (Cons k ks)
  from c_stringE [OF assms(1) Cons.prems, of k] obtain a where
    a: "c_string al k w = (a, w\<lparr>heap := (heap w)(a \<mapsto> CMem (k @ [NUL])), tick := Suc (tick w)\<rparr>)"
      (is "_ = (a, ?w1)") "heap w a = None" "1 < a" .
  have "reg_inv ?w1" using Cons.prems a(2,3) by (rule reg_inv_insert_plain) simp
  from Cons.IH [OF this] obtain cks h n where
    IH: "marshal_keys al ks ?w1 = (cks, ?w1\<lparr>heap := h, tick := n\<rparr>)" "lent cks (heap ?w1) h"
      "\<forall>W :: ('x, 'c) world. heap W = h \<longrightarrow> marshalled_keys W ks cks" by (elim exE conjE)
  have "lent (a # cks) (heap w) h" using IH(2) a by (auto intro: lent_Cons)
  moreover have "h a = Some (CMem (k @ [NUL]))" using lent_le(1) [OF IH(2), of a] by simp
  ultimately show ?case
    using a IH by (intro exI [of _ "a # cks"] exI [of _ h] exI [of _ n]) simp
qed

lemma marshal_items_ok:
  fixes w :: "('x, 'c) world"
  assumes "fresh_allocator al" "reg_inv w"
  shows "\<exists>cks cvs ls h n. marshal_items al items w = (True, cks, cvs, ls, w\<lparr>heap := h, tick := n\<rparr>) \<and>
     lent (cks @ filter (\<lambda>p. p \<noteq> null) cvs) (heap w) h \<and>
     (\<forall>W :: ('x, 'c) world. heap W = h \<longrightarrow> marshalled W items cks cvs ls)"
  using assms(2)
proof (induction items arbitrary: w)
  case Nil
  then show ?case
    by (intro exI [of _ "[]"] exI [of _ "heap w"] exI [of _ "tick w"]) simp
next
  case (Cons kv items)
  obtain k v where kv: "kv = (k, v)" by (cases kv)
  from c_stringE [OF assms(1) Cons.prems, of k] obtain a where
    a: "c_string al k w = (a, w\<lparr>heap := (heap w)(a \<mapsto> CMem (k @ [NUL])), tick := Suc (tick w)\<rparr>)"
      (is "_ = (a, ?w1)") "heap w a = None" "1 < a" .
  have inv1: "reg_inv ?w1" using Cons.prems a(2,3) by (rule reg_inv_insert_plain) simp
  show ?case
  proof (cases "v = []")
    case True
    from Cons.IH [OF inv1] obtain cks cvs ls h n where
      IH: "marshal_items al items ?w1 = (True, cks, cvs, ls, ?w1\<lparr>heap := h, tick := n\<rparr>)"
        "lent (cks @ filter (\<lambda>p. p \<noteq> null) cvs) (heap ?w1) h"
        "\<forall>W :: ('x, 'c) world. heap W = h \<longrightarrow> marshalled W items cks cvs ls" by (elim exE conjE)
    have "lent (a # cks @ filter (\<lambda>p. p \<noteq> null) cvs) (heap w) h"
      using IH(2) a by (auto intro: lent_Cons)
    moreover have "h a = Some (CMem (k @ [NUL]))" using lent_le(1) [OF IH(2), of a] by simp
    ultimately show ?thesis
      using True kv a IH
      by (intro exI [of _ "a # cks"] exI [of _ "null # cvs"] exI [of _ "0 # ls"] exI [of _ h] exI [of _ n]) simp
  next
    case False
    from alloc_blockE [OF assms(1) inv1, of "CMem v"] obtain b where
      b: "alloc_block al (CMem v) ?w1 =
           (b, w\<lparr>heap := (heap ?w1)(b \<mapsto> CMem v), tick := Suc (Suc (tick w))\<rparr>)" (is "_ = (b, ?w2)")
        "heap ?w1 b = None" "1 < b" by auto
    have "reg_inv (?w1\<lparr>heap := (heap ?w1)(b \<mapsto> CMem v), tick := Suc (Suc (tick w))\<rparr>)"
      using inv1 b(2,3) by (rule reg_inv_insert_plain) simp
    then have inv2: "reg_inv ?w2" by simp
    from Cons.IH [OF inv2] obtain cks cvs ls h n where
      IH: "marshal_items al items ?w2 = (True, cks, cvs, ls, ?w2\<lparr>heap := h, tick := n\<rparr>)"
        "lent (cks @ filter (\<lambda>p. p \<noteq> null) cvs) (heap ?w2) h"
        "\<forall>W :: ('x, 'c) world. heap W = h \<longrightarrow> marshalled W items cks cvs ls" by (elim exE conjE)
    have "lent (b # cks @ filter (\<lambda>p. p \<noteq> null) cvs) (heap ?w1) h"
      using IH(2) b by (auto intro: lent_Cons)
    then have "lent (a # b # cks @ filter (\<lambda>p. p \<noteq> null) cvs) (heap w) h"
      using a by (auto intro: lent_Cons)
    then have "lent (a # cks @ b # filter (\<lambda>p. p \<noteq> null) cvs) (heap w) h" by (rule lent_insert)
    moreover have "h a = Some (CMem (k @ [NUL]))" "h b = Some (CMem v)"
      using lent_le(1) [OF IH(2), of a] lent_le(1) [OF IH(2), of b] b(2) by (auto split: if_splits)
    ultimately show ?thesis
      using False kv a b IH
      by (intro exI [of _ "a # cks"] exI [of _ "b # cvs"] exI [of _ "length v # ls"] exI [of _ h] exI [of _ n])
        (simp add: c_malloc_copy_def)
  qed
qed

section \<open>The batch methods\<close>

lemma lent_engine:
  "live g e \<Longrightarrow> lent ps (heap (g_world g)) h \<Longrightarrow> h (handle (g_engine g)) = Some (EngineBox e)"
  by (auto simp: live_def dest: lent_le(1))

lemma publish_heap_id [simp]: "(publish t rx w)\<lparr>tick := n, heap := heap w\<rparr> = (publish t rx w)\<lparr>tick := n\<rparr>"
  "(publish t rx w)\<lparr>heap := heap w, tick := n\<rparr> = (publish t rx w)\<lparr>tick := n\<rparr>"
  by simp_all

lemma BatchDelete_refines:
  fixes g :: "('x, 'c) go_state"
  assumes "live g e" "fresh_allocator (allocator E)" "ks \<noteq> []"
  shows "\<exists>n. BatchDelete E tc te ks g =
     (let rx = api_batch_delete E e (map c_cut ks) (lsm (g_world g)); g' = after tc rx n g in
      Some (go_err ''f4kvs batch delete: %s'' [] te (g_world g') (fst rx), g'))"
proof -
  let ?w = "g_world g"
  from assms have inv: "reg_inv ?w" by (simp add: live_def)
  from marshal_keys_ok [OF assms(2) inv, of ks] obtain cks h n where
    m: "marshal_keys (allocator E) ks ?w = (cks, ?w\<lparr>heap := h, tick := n\<rparr>)" "lent cks (heap ?w) h"
    and mk: "\<forall>W :: ('x, 'c) world. heap W = h \<longrightarrow> marshalled_keys W ks cks"
    by (elim exE conjE)
  let ?w1 = "?w\<lparr>heap := h, tick := n\<rparr>"
  have "f4kvs_engine_batch_delete E tc (handle (g_engine g)) (Some cks) (length ks) ?w1 =
      Some (code_of (fst (api_batch_delete E e (map c_cut ks) (lsm ?w1))),
            publish tc (api_batch_delete E e (map c_cut ks) (lsm ?w1)) ?w1)"
    using assms(1) mk lent_engine [OF assms(1) m(2)]
    by (intro batch_delete_refines) (auto simp: live_def)
  then show ?thesis
    using assms m(2)
    by (intro exI [of _ n])
      (auto simp: BatchDelete_def rLockLive_live m(1) after_def publish_upd c_free_all_lent [of _ "heap ?w"]
        RUnlock_def proper_api go_err_code Let_def)
qed

lemma BatchPutBytes_refines:
  fixes g :: "('x, 'c) go_state"
  assumes "live g e" "fresh_allocator (allocator E)" "items \<noteq> []"
  shows "\<exists>n. BatchPutBytes E tc te items g =
     (let rx = api_batch_put E e (cut_items items) (lsm (g_world g)); g' = after tc rx n g in
      Some (go_err ''f4kvs batch put: %s'' [] te (g_world g') (fst rx), g'))"
proof -
  let ?w = "g_world g"
  from assms have inv: "reg_inv ?w" by (simp add: live_def)
  from marshal_items_ok [OF assms(2) inv, of items] obtain cks cvs ls h n where
    m: "marshal_items (allocator E) items ?w = (True, cks, cvs, ls, ?w\<lparr>heap := h, tick := n\<rparr>)"
      "lent (cks @ filter (\<lambda>p. p \<noteq> null) cvs) (heap ?w) h"
    and mk: "\<forall>W :: ('x, 'c) world. heap W = h \<longrightarrow> marshalled W items cks cvs ls"
    by (elim exE conjE)
  let ?w1 = "?w\<lparr>heap := h, tick := n\<rparr>"
  have "f4kvs_engine_batch_put_bytes E tc (handle (g_engine g)) (Some cks) (Some cvs) (Some ls)
          (length items) ?w1 =
      Some (code_of (fst (api_batch_put E e (cut_items items) (lsm ?w1))),
            publish tc (api_batch_put E e (cut_items items) (lsm ?w1)) ?w1)"
    using assms(1) mk lent_engine [OF assms(1) m(2)]
    by (intro batch_put_bytes_refines) (auto simp: live_def)
  then show ?thesis
    using assms m(2)
    by (intro exI [of _ n])
      (auto simp: BatchPutBytes_def rLockLive_live m(1) after_def publish_upd
        c_free_two [of _ _ "heap ?w"] RUnlock_def proper_api go_err_code Let_def)
qed

section \<open>The key scan\<close>

lemma go_strings_list_all2:
  "list_all2 (\<lambda>q k. cstr_from_ptr w q = Some k) ptrs ks \<Longrightarrow>
   length ks \<le> length ptrs \<and> go_strings w (take (length ks) ptrs) = Some ks"
  by (induction rule: list_all2_induct) auto

lemma proper_scan: "proper (fst (api_scan E e p x))"
  by (auto simp: proper_def api_scan_def check_nul_def dest: proper_check_text
      split: sum.splits prod.splits option.splits) (metis fst_conv storage_code)

lemma ScanPrefixKeys_refines:
  assumes "live g e" "fresh_allocator (allocator E)"
    and small: "\<And>ks. fst (api_scan E e (c_cut pfx) (lsm (g_world g))) = Inr ks \<Longrightarrow> length ks \<le> 2 ^ 30"
  shows "\<exists>n. ScanPrefixKeys E tc pfx g =
     (let rx = api_scan E e (c_cut pfx) (lsm (g_world g)) in
      Some (case fst rx of Inr ks \<Rightarrow> Some ks | Inl _ \<Rightarrow> None, after tc rx n g))"
proof -
  let ?w = "g_world g" and ?rx = "api_scan E e (c_cut pfx) (lsm (g_world g))"
  from assms have inv: "reg_inv ?w" by (simp add: live_def)
  from assms(2) inv obtain a where
    a: "c_string (allocator E) pfx ?w =
         (a, ?w\<lparr>heap := (heap ?w)(a \<mapsto> CMem (pfx @ [NUL])), tick := Suc (tick ?w)\<rparr>)" (is "_ = (a, ?w1)")
      "heap ?w a = None" "1 < a"
    by (rule c_stringE)
  have inv1: "reg_inv ?w1" using inv a(2,3) by (rule reg_inv_insert_plain) simp
  have call: "let rx = ?rx in
    case fst rx of
      Inl (c, m) \<Rightarrow> \<exists>n. f4kvs_engine_scan_prefix_keys E tc (handle (g_engine g)) a go_var ?w1 =
        Some ((c, None), (publish tc rx ?w1)\<lparr>tick := n\<rparr>)
    | Inr ks \<Rightarrow> \<exists>res res' W n. f4kvs_engine_scan_prefix_keys E tc (handle (g_engine g)) a go_var ?w1 =
        Some ((Success, Some res), W) \<and> readable_keys res ks W \<and>
        f4kvs_key_scan_result_free (Some res) W = Some (res', (publish tc rx ?w1)\<lparr>tick := n\<rparr>)"
    using scan_prefix_keys_refines [of "handle (g_engine g)" ?w1 e a "c_cut pfx" go_var E tc]
      assms(1,2) inv1 a live_handle [OF assms(1) a(2)] by (simp add: live_def go_var_def)
  note unfold = ScanPrefixKeys_def scanPrefixLocked_def RLock_def RUnlock_def a(1) after_def
    publish_upd c_free_def drop_block_def heap_restore [OF a(2)] Let_def
  from assms(1) have lv: "\<not> mu_writer (g_engine g)" "\<not> closed (g_engine g)" "handle (g_engine g) \<noteq> null"
    by (simp_all add: live_def)
  show ?thesis
  proof (cases "fst ?rx")
    case (Inl cm)
    obtain c m where cm: "cm = (c, m)" by (cases cm)
    with call Inl obtain n where
      "f4kvs_engine_scan_prefix_keys E tc (handle (g_engine g)) a go_var ?w1 =
         Some ((c, None), (publish tc ?rx ?w1)\<lparr>tick := n\<rparr>)" by auto
    moreover have "c \<noteq> Success" using properD [OF proper_scan [of E e "c_cut pfx" "lsm ?w"]] Inl cm by simp
    ultimately show ?thesis
      using lv a(2,3) Inl by (intro exI [of _ n]) (simp add: unfold)
  next
    case (Inr ks)
    with call obtain res res' W n where
      s: "f4kvs_engine_scan_prefix_keys E tc (handle (g_engine g)) a go_var ?w1 = Some ((Success, Some res), W)"
        "readable_keys res ks W"
        "f4kvs_key_scan_result_free (Some res) W = Some (res', (publish tc ?rx ?w1)\<lparr>tick := n\<rparr>)"
      by auto
    from s(2) small [OF Inr] have "read_keys res W = Some ks"
      by (auto simp: read_keys_def readable_keys_def dest: go_strings_list_all2 split: if_splits)
    with s lv a(2,3) Inr show ?thesis
      by (intro exI [of _ n]) (simp add: unfold)
  qed
qed

section \<open>Maintenance\<close>

lemma maintenance_refines:
  assumes "live g e"
  shows "maintenance te fmt (engine_unit_call tc label f) g =
     (let rx = storage label (f e (lsm (g_world g))); g' = g\<lparr>g_world := publish tc rx (g_world g)\<rparr> in
      Some (go_err fmt [] te (g_world g') (fst rx), g'))"
proof -
  have "engine_unit_call tc label f (handle (g_engine g)) (g_world g) =
      Some (code_of (fst (storage label (f e (lsm (g_world g))))),
            publish tc (storage label (f e (lsm (g_world g)))) (g_world g))"
    using assms by (auto simp: live_def intro!: engine_unit_call_refines)
  then show ?thesis
    using rLockLive_live [OF assms]
    by (auto simp: maintenance_def RUnlock_def go_err_code proper_storage Let_def)
qed

lemma Flush_refines:
  "live g e \<Longrightarrow> Flush E tc te g =
     (let rx = storage ''Flush failed: '' (lsm_flush E e (lsm (g_world g)));
          g' = g\<lparr>g_world := publish tc rx (g_world g)\<rparr> in
      Some (go_err ''f4kvs flush: %s'' [] te (g_world g') (fst rx), g'))"
  by (simp add: Flush_def f4kvs_engine_flush_def maintenance_refines)

lemma FlushWAL_refines:
  "live g e \<Longrightarrow> FlushWAL E tc te g =
     (let rx = storage ''Flush WAL failed: '' (lsm_flush_wal E e (lsm (g_world g)));
          g' = g\<lparr>g_world := publish tc rx (g_world g)\<rparr> in
      Some (go_err ''f4kvs flush wal: %s'' [] te (g_world g') (fst rx), g'))"
  by (simp add: FlushWAL_def f4kvs_engine_flush_wal_def maintenance_refines)

lemma Sync_refines:
  "live g e \<Longrightarrow> Sync E tc te g =
     (let rx = storage ''Compact failed: '' (lsm_compact E e (lsm (g_world g)));
          g' = g\<lparr>g_world := publish tc rx (g_world g)\<rparr> in
      Some (go_err ''f4kvs sync: %s'' [] te (g_world g') (fst rx), g'))"
  by (simp add: Sync_def f4kvs_engine_compact_def maintenance_refines)

lemma SetBulkImport_refines:
  "live g e \<Longrightarrow> SetBulkImport E tc te on g =
     Some (None, g\<lparr>g_world := (g_world g)\<lparr>lsm := lsm_set_bulk_import E e on (lsm (g_world g))\<rparr>\<rparr>)"
  by (simp add: SetBulkImport_def maintenance_def rLockLive_live RUnlock_def
      f4kvs_engine_set_bulk_import_def validate_engine_live live_def)

section \<open>Closing\<close>

text \<open>The effect of \<^verbatim>\<open>f4kvs_engine_close\<close> and \<^verbatim>\<open>f4kvs_engine_free\<close> on a live engine that no call is using.\<close>

lemma Close_live:
  assumes "live g e" "mu_readers (g_engine g) = 0"
  shows "\<exists>g'. Close E tc g = Some g' \<and> is_closed g' \<and> mu_readers (g_engine g') = 0 \<and>
     heap (g_world g') = (heap (g_world g))(handle (g_engine g) := None) \<and>
     arcs (g_world g') e = arcs (g_world g) e - 1 \<and>
     lsm (g_world g') =
       (let x = snd (lsm_shutdown E e (lsm (g_world g))) in
        if arcs (g_world g) e \<le> 1 then lsm_drop E e x else x)"
proof -
  let ?h = "handle (g_engine g)" and ?rx = "storage ''Close failed: '' (lsm_shutdown E e (lsm (g_world g)))"
  from assms have lv: "\<not> mu_writer (g_engine g)" "?h \<noteq> null" "reg_inv (g_world g)"
    "heap (g_world g) ?h = Some (EngineBox e)" by (simp_all add: live_def)
  have inv: "reg_inv (drop_block ?h (publish tc ?rx (g_world g)))"
    using lv by (auto intro: reg_inv_drop_plain [where b = "EngineBox e"])
  have x: "snd ?rx = snd (lsm_shutdown E e (lsm (g_world g)))"
    by (auto simp: storage_def split: prod.splits sum.splits)
  have "f4kvs_engine_close E tc ?h (g_world g) = Some (code_of (fst ?rx), publish tc ?rx (g_world g))"
    using lv by (simp add: f4kvs_engine_close_def engine_unit_call_refines)
  then show ?thesis
    using lv assms(2) inv x
    by (auto simp: Close_def Lock_def Unlock_def f4kvs_engine_free_def is_closed_def drop_arc_def
        drop_block_def Let_def)
qed

lemma Close_closed: "is_closed g \<Longrightarrow> mu_readers (g_engine g) = 0 \<Longrightarrow> Close E tc g = Some g"
  by (simp add: Close_def Lock_def Unlock_def is_closed_def)

text \<open>On a closed engine no method reaches C.\<close>

lemma closed_methods:
  assumes "is_closed g"
  shows "GetBytes E tc te k g = Some (Inl ErrClosed, g)"
    "PutBytes E tc te k v g = Some (Some ErrClosed, g)"
    "Delete E tc te k g = Some (Some ErrClosed, g)"
    "items \<noteq> [] \<Longrightarrow> BatchPutBytes E tc te items g = Some (Some ErrClosed, g)"
    "ks \<noteq> [] \<Longrightarrow> BatchDelete E tc te ks g = Some (Some ErrClosed, g)"
    "maintenance te fmt f g = Some (Some ErrClosed, g)"
    "ScanPrefixKeys E tc k g = Some (None, g)"
  using assms rLockLive_closed [OF assms]
  by (simp_all add: GetBytes_def PutBytes_def Delete_def BatchPutBytes_def BatchDelete_def maintenance_def
      ScanPrefixKeys_def RLock_def RUnlock_def is_closed_def)

end
