(* ===== verification/Txn.thy ===== *)
theory Txn
  imports Go_Engine
begin

text \<open>
  Transactions of the Go binding (\<^verbatim>\<open>go/transaction.go\<close>): writes are staged in a Go map and applied by
  \<^verbatim>\<open>Commit\<close> as one batch put followed by one batch delete. The operations take the methods of the
  engine object they call as parameters. The locale \<open>kv_engine\<close> is what they rely on of these methods;
  inside it the transaction is shown to be an overlay over the contents of the engine.
\<close>

section \<open>Transactions\<close>

datatype txnOpKind = opPut | opDelete

record txnOp =
  op_kind :: txnOpKind
  op_value :: bytes

text \<open>\<open>ops\<close> is a Go map, \<^const>\<open>None\<close> when it is nil. A nil map reads as an empty one.\<close>

record Transaction =
  ops :: "(bytes \<rightharpoonup> txnOp) option"
  committed :: bool
  rolledBack :: bool

definition BeginTransaction :: Transaction where
  "BeginTransaction = \<lparr>ops = None, committed = False, rolledBack = False\<rparr>"

definition go_map :: "('k \<rightharpoonup> 'v) option \<Rightarrow> 'k \<rightharpoonup> 'v" where
  "go_map m = (case m of None \<Rightarrow> Map.empty | Some f \<Rightarrow> f)"

definition checkActive :: "Transaction \<Rightarrow> go_error option" where
  "checkActive t =
     (if committed t then Some ErrTxnCommitted
      else if rolledBack t then Some ErrTxnRolledBack
      else None)"

definition txn_GetBytes ::
  "(bytes \<Rightarrow> 's \<Rightarrow> ((go_error + bytes) \<times> 's) option) \<Rightarrow> bytes \<Rightarrow> Transaction \<Rightarrow> 's \<Rightarrow>
   ((go_error + bytes) \<times> 's) option" where
  "txn_GetBytes get key t s =
     (case checkActive t of
        Some err \<Rightarrow> Some (Inl err, s)
      | None \<Rightarrow>
          (case go_map (ops t) key of
             Some op \<Rightarrow>
               if op_kind op = opDelete then Some (Inl ErrNotFound, s) else Some (Inr (op_value op), s)
           | None \<Rightarrow> get key s))"

definition txn_Get ::
  "(bytes \<Rightarrow> 's \<Rightarrow> ((go_error + bytes) \<times> 's) option) \<Rightarrow> bytes \<Rightarrow> Transaction \<Rightarrow> 's \<Rightarrow>
   ((go_error + bytes) \<times> 's) option" where
  "txn_Get get key t s =
     do {
       (r, s1) \<leftarrow> txn_GetBytes get key t s;
       Some (case r of Inl err \<Rightarrow> (Inl err, s1) | Inr v \<Rightarrow> (Inr v, s1))
     }"

definition stage :: "bytes \<Rightarrow> txnOp \<Rightarrow> Transaction \<Rightarrow> Transaction" where
  "stage key op t = t\<lparr>ops := Some ((go_map (ops t))(key \<mapsto> op))\<rparr>"

definition txn_PutBytes :: "bytes \<Rightarrow> bytes \<Rightarrow> Transaction \<Rightarrow> go_error option \<times> Transaction" where
  "txn_PutBytes key val t =
     (case checkActive t of
        Some err \<Rightarrow> (Some err, t)
      | None \<Rightarrow> (None, stage key \<lparr>op_kind = opPut, op_value = val\<rparr> t))"

definition txn_Put :: "bytes \<Rightarrow> bytes \<Rightarrow> Transaction \<Rightarrow> go_error option \<times> Transaction" where
  "txn_Put key val t = txn_PutBytes key val t"

definition txn_Delete :: "bytes \<Rightarrow> Transaction \<Rightarrow> go_error option \<times> Transaction" where
  "txn_Delete key t =
     (case checkActive t of
        Some err \<Rightarrow> (Some err, t)
      | None \<Rightarrow> (None, stage key \<lparr>op_kind = opDelete, op_value = []\<rparr> t))"

text \<open>
  The loop of \<^verbatim>\<open>Commit\<close> over the staged operations, in the order \<open>ord\<close> in which \<^verbatim>\<open>range\<close> visits the keys:
  a map of the values to put and the list of the keys to delete.
\<close>

fun split_ops ::
  "bytes list \<Rightarrow> (bytes \<rightharpoonup> txnOp) \<Rightarrow> (bytes \<rightharpoonup> bytes) \<Rightarrow> bytes list \<Rightarrow> (bytes \<rightharpoonup> bytes) \<times> bytes list" where
  "split_ops [] m puts deletes = (puts, deletes)"
| "split_ops (key # ord) m puts deletes =
     (case m key of
        None \<Rightarrow> split_ops ord m puts deletes
      | Some op \<Rightarrow>
          (case op_kind op of
             opPut \<Rightarrow> split_ops ord m (puts(key \<mapsto> op_value op)) deletes
           | opDelete \<Rightarrow> split_ops ord m puts (deletes @ [key])))"

text \<open>\<open>items_of pord puts\<close> is the map \<open>puts\<close> in the order in which the engine's \<^verbatim>\<open>range\<close> visits it.\<close>

definition items_of :: "bytes list \<Rightarrow> (bytes \<rightharpoonup> bytes) \<Rightarrow> (bytes \<times> bytes) list" where
  "items_of pord puts = List.map_filter (\<lambda>k. map_option (Pair k) (puts k)) pord"

definition txn_Commit ::
  "((bytes \<times> bytes) list \<Rightarrow> 's \<Rightarrow> (go_error option \<times> 's) option) \<Rightarrow>
   (bytes list \<Rightarrow> 's \<Rightarrow> (go_error option \<times> 's) option) \<Rightarrow>
   bytes list \<Rightarrow> bytes list \<Rightarrow> Transaction \<Rightarrow> 's \<Rightarrow> ((go_error option \<times> Transaction) \<times> 's) option" where
  "txn_Commit batch_put batch_delete ord pord t s =
     (if committed t then Some ((Some ErrTxnCommitted, t), s)
      else if rolledBack t then Some ((Some ErrTxnRolledBack, t), s)
      else
        let (puts, deletes) = split_ops ord (go_map (ops t)) Map.empty []; items = items_of pord puts in
        do {
          (r1, s1) \<leftarrow> (if items \<noteq> [] then batch_put items s else Some (None, s));
          case r1 of
            Some err \<Rightarrow> Some ((Some (Wrapf ''commit batch put: %w'' err), t), s1)
          | None \<Rightarrow> do {
              (r2, s2) \<leftarrow> (if deletes \<noteq> [] then batch_delete deletes s1 else Some (None, s1));
              case r2 of
                Some err \<Rightarrow> Some ((Some (Wrapf ''commit batch delete: %w'' err), t), s2)
              | None \<Rightarrow> Some ((None, t\<lparr>committed := True, ops := None\<rparr>), s2)
            }
        })"

definition txn_Rollback :: "Transaction \<Rightarrow> go_error option \<times> Transaction" where
  "txn_Rollback t =
     (if committed t then (Some ErrTxnCommitted, t)
      else if rolledBack t then (None, t)
      else (None, t\<lparr>rolledBack := True, ops := None\<rparr>))"

section \<open>Staged operations as an overlay\<close>

definition active :: "Transaction \<Rightarrow> bool" where
  "active t \<longleftrightarrow> \<not> committed t \<and> \<not> rolledBack t"

definition overlay :: "(bytes \<rightharpoonup> txnOp) \<Rightarrow> (bytes \<rightharpoonup> bytes) \<Rightarrow> bytes \<rightharpoonup> bytes" where
  "overlay m c k =
     (case m k of
        None \<Rightarrow> c k
      | Some op \<Rightarrow> (case op_kind op of opPut \<Rightarrow> Some (op_value op) | opDelete \<Rightarrow> None))"

text \<open>An order in which \<^verbatim>\<open>range\<close> may visit a map.\<close>

definition range_order :: "bytes list \<Rightarrow> (bytes \<rightharpoonup> 'v) \<Rightarrow> bool" where
  "range_order ord m \<longleftrightarrow> distinct ord \<and> set ord = dom m"

definition put_values :: "(bytes \<rightharpoonup> txnOp) \<Rightarrow> bytes \<rightharpoonup> bytes" where
  "put_values m k =
     (case m k of None \<Rightarrow> None | Some op \<Rightarrow> if op_kind op = opPut then Some (op_value op) else None)"

definition deleted_keys :: "(bytes \<rightharpoonup> txnOp) \<Rightarrow> bytes set" where
  "deleted_keys m = {k. \<exists>op. m k = Some op \<and> op_kind op = opDelete}"

lemma checkActive_active [simp]: "checkActive t = None \<longleftrightarrow> active t"
  by (simp add: checkActive_def active_def)

lemma active_check: "active t \<Longrightarrow> checkActive t = None"
  by simp

lemma put_values_at:
  "m k = None \<Longrightarrow> put_values m k = None"
  "m k = Some op \<Longrightarrow> op_kind op = opPut \<Longrightarrow> put_values m k = Some (op_value op)"
  "m k = Some op \<Longrightarrow> op_kind op = opDelete \<Longrightarrow> put_values m k = None"
  by (simp_all add: put_values_def)

lemma put_values_insert:
  "key \<notin> S \<Longrightarrow> puts ++ (put_values m |` insert key S) =
     (case put_values m key of None \<Rightarrow> puts | Some v \<Rightarrow> puts(key \<mapsto> v)) ++ (put_values m |` S)"
  by (auto simp: map_add_def restrict_map_def fun_eq_iff split: option.splits)

lemma split_ops_spec:
  "distinct ord \<Longrightarrow>
   split_ops ord m puts deletes =
     (puts ++ (put_values m |` set ord),
      deletes @ filter (\<lambda>k. k \<in> deleted_keys m) ord)"
proof (induction ord arbitrary: puts deletes)
  case Nil
  then show ?case by (simp add: restrict_map_def map_add_def)
next
  case (Cons key ord)
  then show ?case
    by (auto simp: put_values_insert put_values_at deleted_keys_def
        split: option.splits txnOpKind.splits)
qed

lemma split_ops_range:
  assumes "range_order ord m"
  shows "split_ops ord m Map.empty [] = (put_values m, filter (\<lambda>k. k \<in> deleted_keys m) ord)"
proof -
  have "put_values m |` set ord = put_values m"
    using assms by (auto simp: range_order_def put_values_def restrict_map_def fun_eq_iff
        split: option.splits)
  then show ?thesis using assms by (simp add: split_ops_spec range_order_def)
qed

lemma dom_put_values: "dom (put_values m) \<subseteq> dom m"
  by (auto simp: put_values_def split: option.splits)

lemma items_of_range:
  assumes "range_order pord p"
  shows "map_of (items_of pord p) = p" "map fst (items_of pord p) = pord"
    "distinct (map fst (items_of pord p))" "items_of pord p = [] \<longleftrightarrow> p = Map.empty"
proof -
  have m: "map fst (items_of ks p) = ks \<and> map_of (items_of ks p) = p |` set ks" if "set ks \<subseteq> dom p" for ks
    using that
  proof (induction ks)
    case Nil
    then show ?case by (simp add: items_of_def restrict_map_def)
  next
    case (Cons k ks)
    then show ?case by (auto simp: items_of_def restrict_map_def fun_eq_iff)
  qed
  from assms have "set pord \<subseteq> dom p" by (simp add: range_order_def)
  from m [OF this] assms show 1: "map fst (items_of pord p) = pord" and "map_of (items_of pord p) = p"
    by (auto simp: range_order_def restrict_map_def fun_eq_iff)
  then show "distinct (map fst (items_of pord p))" "items_of pord p = [] \<longleftrightarrow> p = Map.empty"
    using assms by (auto simp: range_order_def)
qed

lemma overlay_split: "overlay m c = (c ++ put_values m) |` (- deleted_keys m)"
  by (auto simp: overlay_def put_values_def deleted_keys_def map_add_def restrict_map_def fun_eq_iff
      split: option.splits txnOpKind.splits)

section \<open>What a transaction relies on\<close>

text \<open>
  The three methods a transaction calls, on a state with an invariant \<open>ok\<close> and contents. A method
  returns on every state with the invariant, and what it answers fits the contents; a failed write
  may have changed the contents of the keys it names, but no others.
\<close>

locale kv_engine =
  fixes get :: "bytes \<Rightarrow> 's \<Rightarrow> ((go_error + bytes) \<times> 's) option"
    and batch_put :: "(bytes \<times> bytes) list \<Rightarrow> 's \<Rightarrow> (go_error option \<times> 's) option"
    and batch_delete :: "bytes list \<Rightarrow> 's \<Rightarrow> (go_error option \<times> 's) option"
    and ok :: "'s \<Rightarrow> bool"
    and contents :: "'s \<Rightarrow> bytes \<rightharpoonup> bytes"
    and key_ok :: "bytes \<Rightarrow> bool"
    and max_len :: nat
  assumes get_total:
      "ok s \<Longrightarrow> key_ok k \<Longrightarrow> (\<And>v. contents s k = Some v \<Longrightarrow> length v < max_len) \<Longrightarrow>
       \<exists>r s'. get k s = Some (r, s') \<and> ok s' \<and> contents s' = contents s \<and>
         (\<forall>v. r = Inr v \<longrightarrow> contents s k = Some v) \<and> (r = Inl ErrNotFound \<longrightarrow> contents s k = None)"
    and batch_put_total:
      "ok s \<Longrightarrow> items \<noteq> [] \<Longrightarrow> distinct (map fst items) \<Longrightarrow> (\<forall>k\<in>fst ` set items. key_ok k) \<Longrightarrow>
       \<exists>r s'. batch_put items s = Some (r, s') \<and> ok s' \<and>
         (\<forall>k. k \<notin> fst ` set items \<longrightarrow> contents s' k = contents s k) \<and>
         (r = None \<longrightarrow> contents s' = contents s ++ map_of items)"
    and batch_delete_total:
      "ok s \<Longrightarrow> ks \<noteq> [] \<Longrightarrow> (\<forall>k\<in>set ks. key_ok k) \<Longrightarrow>
       \<exists>r s'. batch_delete ks s = Some (r, s') \<and> ok s' \<and>
         (\<forall>k. k \<notin> set ks \<longrightarrow> contents s' k = contents s k) \<and>
         (r = None \<longrightarrow> contents s' = contents s |` (- set ks))"
begin

text \<open>A read sees the staged writes over the contents of the engine.\<close>

lemma txn_get_overlay:
  assumes "active t" "ok s" "key_ok k" "\<And>v. contents s k = Some v \<Longrightarrow> length v < max_len"
  shows "\<exists>r s'. txn_GetBytes get k t s = Some (r, s') \<and> ok s' \<and> contents s' = contents s \<and>
     (\<forall>v. r = Inr v \<longrightarrow> overlay (go_map (ops t)) (contents s) k = Some v) \<and>
     (r = Inl ErrNotFound \<longrightarrow> overlay (go_map (ops t)) (contents s) k = None) \<and>
     (k \<in> dom (go_map (ops t)) \<longrightarrow> (\<exists>v. r = Inr v) \<or> r = Inl ErrNotFound)"
proof (cases "go_map (ops t) k")
  case None
  with get_total [OF assms(2,3,4)] assms(1) show ?thesis
    by (auto simp: txn_GetBytes_def overlay_def active_check domIff)
next
  case (Some op)
  with assms show ?thesis
    by (cases "op_kind op") (auto simp: txn_GetBytes_def overlay_def active_check)
qed

text \<open>The two halves of a commit, each skipped when there is nothing to do.\<close>

lemma commit_puts:
  assumes "ok s" "range_order pord p" "\<forall>k\<in>dom p. key_ok k"
  shows "\<exists>r s1. (if items_of pord p \<noteq> [] then batch_put (items_of pord p) s else Some (None, s)) =
       Some (r, s1) \<and> ok s1 \<and> (\<forall>k. k \<notin> dom p \<longrightarrow> contents s1 k = contents s k) \<and>
       (r = None \<longrightarrow> contents s1 = contents s ++ p)"
proof (cases "items_of pord p = []")
  case True
  with assms items_of_range [OF assms(2)] show ?thesis by auto
next
  case False
  have d: "fst ` set (items_of pord p) = dom p"
    using items_of_range(1) [OF assms(2)] by (metis dom_map_of_conv_image_fst)
  from batch_put_total [OF assms(1) False items_of_range(3) [OF assms(2)]] assms(3) False
  show ?thesis unfolding d items_of_range(1) [OF assms(2)] by simp
qed

lemma commit_deletes:
  assumes "ok s" "\<forall>k\<in>set ks. key_ok k"
  shows "\<exists>r s1. (if ks \<noteq> [] then batch_delete ks s else Some (None, s)) = Some (r, s1) \<and> ok s1 \<and>
       (\<forall>k. k \<notin> set ks \<longrightarrow> contents s1 k = contents s k) \<and>
       (r = None \<longrightarrow> contents s1 = contents s |` (- set ks))"
proof (cases "ks = []")
  case True
  with assms show ?thesis by (auto simp: restrict_map_def)
next
  case False
  with batch_delete_total [OF assms(1) False assms(2)] show ?thesis by simp
qed

text \<open>
  \<^verbatim>\<open>Commit\<close> of an active transaction returns. When it reports success the contents of the engine are
  what the transaction showed and the transaction is finished. When it fails, only keys the
  transaction staged may have changed and the transaction is still active, with all its operations.
\<close>

lemma commit_total:
  assumes "active t" "ok s" "\<forall>k\<in>dom (go_map (ops t)). key_ok k"
    and "range_order ord (go_map (ops t))" "range_order pord (put_values (go_map (ops t)))"
  shows "\<exists>r t' s'. txn_Commit batch_put batch_delete ord pord t s = Some ((r, t'), s') \<and> ok s' \<and>
     (\<forall>k. k \<notin> dom (go_map (ops t)) \<longrightarrow> contents s' k = contents s k) \<and>
     (if r = None
      then contents s' = overlay (go_map (ops t)) (contents s) \<and> t' = t\<lparr>committed := True, ops := None\<rparr>
      else t' = t)"
proof -
  let ?m = "go_map (ops t)" and ?p = "put_values (go_map (ops t))"
  let ?ds = "filter (\<lambda>k. k \<in> deleted_keys ?m) ord"
  have ds: "set ?ds = deleted_keys ?m" and dm: "deleted_keys ?m \<subseteq> dom ?m"
    using assms(4) by (auto simp: range_order_def deleted_keys_def)
  from dom_put_values assms(3) have "\<forall>k\<in>dom ?p. key_ok k" by blast
  from commit_puts [OF assms(2,5) this] obtain r1 s1 where
    1: "(if items_of pord ?p \<noteq> [] then batch_put (items_of pord ?p) s else Some (None, s)) = Some (r1, s1)"
      "ok s1" "\<forall>k. k \<notin> dom ?p \<longrightarrow> contents s1 k = contents s k"
      "r1 = None \<longrightarrow> contents s1 = contents s ++ ?p" by auto
  have "\<forall>k\<in>set ?ds. key_ok k" using dm ds assms(3) by blast
  from commit_deletes [OF 1(2) this] obtain r2 s2 where
    2: "(if ?ds \<noteq> [] then batch_delete ?ds s1 else Some (None, s1)) = Some (r2, s2)" "ok s2"
      "\<forall>k. k \<notin> set ?ds \<longrightarrow> contents s2 k = contents s1 k"
      "r2 = None \<longrightarrow> contents s2 = contents s1 |` (- set ?ds)" by auto
  have far: "\<forall>k. k \<notin> dom ?m \<longrightarrow> contents s1 k = contents s k"
    using 1(3) dom_put_values [of ?m] by blast
  then have far2: "\<forall>k. k \<notin> dom ?m \<longrightarrow> contents s2 k = contents s k"
    using 2(3) ds dm by (metis subsetD)
  from assms(1) have na: "\<not> committed t" "\<not> rolledBack t" by (simp_all add: active_def)
  show ?thesis
  proof (cases r1)
    case (Some err)
    with 1 far na show ?thesis
      by (simp add: txn_Commit_def split_ops_range [OF assms(4)])
  next
    case None
    with 1(4) 2(4) ds have "r2 = None \<longrightarrow> contents s2 = overlay ?m (contents s)"
      by (simp add: overlay_split)
    with None 1 2 far2 na show ?thesis
      by (cases r2) (simp_all add: txn_Commit_def split_ops_range [OF assms(4)])
  qed
qed

text \<open>A commit that failed may be tried again: when a later one succeeds, the result is the same.\<close>

lemma overlay_retry:
  "(\<And>k. k \<notin> dom m \<Longrightarrow> c' k = c k) \<Longrightarrow> overlay m c' = overlay m c"
  by (auto simp: overlay_def fun_eq_iff domIff split: option.splits)

lemma commit_retry:
  assumes "active t" "ok s" "\<forall>k\<in>dom (go_map (ops t)). key_ok k"
    and "range_order ord (go_map (ops t))" "range_order pord (put_values (go_map (ops t)))"
    and "range_order ord' (go_map (ops t))" "range_order pord' (put_values (go_map (ops t)))"
    and first: "txn_Commit batch_put batch_delete ord pord t s = Some ((Some err, t1), s1)"
    and again: "txn_Commit batch_put batch_delete ord' pord' t1 s1 = Some ((None, t2), s2)"
  shows "contents s2 = overlay (go_map (ops t)) (contents s)"
proof -
  from commit_total [OF assms(1-5)] first
  have 1: "t1 = t" "ok s1" "\<forall>k. k \<notin> dom (go_map (ops t)) \<longrightarrow> contents s1 k = contents s k" by auto
  from commit_total [OF assms(1) 1(2) assms(3,6,7)] again 1(1)
  have "contents s2 = overlay (go_map (ops t)) (contents s1)" by auto
  with 1(3) show ?thesis using overlay_retry [of "go_map (ops t)" "contents s1" "contents s"] by simp
qed

end

section \<open>The life of a transaction\<close>

text \<open>
  Every state-changing call keeps a finished object as it is; on an active one \<^verbatim>\<open>Commit\<close> finishes the
  object exactly when it reports success.
\<close>

lemma txn_calls_finished:
  assumes "\<not> active t"
  shows "snd (txn_PutBytes k v t) = t" "fst (txn_PutBytes k v t) \<noteq> None"
    "snd (txn_Delete k t) = t" "fst (txn_Delete k t) \<noteq> None" "snd (txn_Rollback t) = t"
  using assms
  by (auto simp: txn_PutBytes_def txn_Delete_def txn_Rollback_def checkActive_def active_def)

lemma txn_commit_result:
  assumes "txn_Commit bp bd ord pord t s = Some ((r, t'), s')"
  shows "if active t then (if r = None then t' = t\<lparr>committed := True, ops := None\<rparr> else t' = t)
     else t' = t \<and> s' = s \<and> r \<noteq> None"
  using assms
  by (auto simp: txn_Commit_def active_def Let_def
      split: if_splits prod.splits Option.bind_splits option.splits)

text \<open>
  The life of a transaction object beside its engine: any of its state-changing methods is called, on
  an active or a finished object, with any arguments and in any order of \<^verbatim>\<open>range\<close>, or something else
  changes the engine. Each rule is a call of the method itself.
\<close>

inductive txn_step ::
  "((bytes \<times> bytes) list \<Rightarrow> 's \<Rightarrow> (go_error option \<times> 's) option) \<Rightarrow>
   (bytes list \<Rightarrow> 's \<Rightarrow> (go_error option \<times> 's) option) \<Rightarrow> Transaction \<times> 's \<Rightarrow> Transaction \<times> 's \<Rightarrow> bool"
  for bp bd where
  put_bytes: "txn_PutBytes k v t = (r, t') \<Longrightarrow> txn_step bp bd (t, s) (t', s)"
| put: "txn_Put k v t = (r, t') \<Longrightarrow> txn_step bp bd (t, s) (t', s)"
| delete: "txn_Delete k t = (r, t') \<Longrightarrow> txn_step bp bd (t, s) (t', s)"
| commit: "txn_Commit bp bd ord pord t s = Some ((r, t'), s') \<Longrightarrow> txn_step bp bd (t, s) (t', s')"
| rollback: "txn_Rollback t = (r, t') \<Longrightarrow> txn_step bp bd (t, s) (t', s)"
| engine: "txn_step bp bd (t, s) (t, s')"

inductive_cases txn_stepE: "txn_step bp bd (t, s) (t', s')"

text \<open>What holds of every transaction object: it ends at most once, and a finished one holds nothing.\<close>

definition txn_inv :: "Transaction \<Rightarrow> bool" where
  "txn_inv t \<longleftrightarrow>
     \<not> (committed t \<and> rolledBack t) \<and> (\<not> active t \<longrightarrow> ops t = None) \<and> finite (dom (go_map (ops t)))"

lemma txn_inv_begin: "txn_inv BeginTransaction"
  by (simp add: txn_inv_def BeginTransaction_def active_def go_map_def)

lemma txn_inv_stage: "active t \<Longrightarrow> txn_inv t \<Longrightarrow> txn_inv (stage k op t)"
  by (auto simp: txn_inv_def stage_def go_map_def active_def split: option.splits)

lemma txn_inv_calls:
  assumes "txn_inv t"
  shows "txn_PutBytes k v t = (r, t') \<Longrightarrow> txn_inv t'"
    and "txn_Delete k t = (r, t') \<Longrightarrow> txn_inv t'"
    and "txn_Rollback t = (r, t') \<Longrightarrow> txn_inv t'"
    and "txn_Commit bp bd ord pord t s = Some ((r, t'), s') \<Longrightarrow> txn_inv t'"
proof -
  show "txn_PutBytes k v t = (r, t') \<Longrightarrow> txn_inv t'"
    using assms by (cases "active t") (auto simp: txn_PutBytes_def active_check txn_inv_stage
      dest: txn_calls_finished(1) [of t k v])
  show "txn_Delete k t = (r, t') \<Longrightarrow> txn_inv t'"
    using assms by (cases "active t") (auto simp: txn_Delete_def active_check txn_inv_stage
      dest: txn_calls_finished(3) [of t k])
  show "txn_Rollback t = (r, t') \<Longrightarrow> txn_inv t'"
    using assms by (auto simp: txn_Rollback_def txn_inv_def active_def go_map_def split: if_splits)
  show "txn_Commit bp bd ord pord t s = Some ((r, t'), s') \<Longrightarrow> txn_inv t'"
    using assms by (auto dest!: txn_commit_result
      simp: txn_inv_def active_def go_map_def split: if_splits)
qed

lemma txn_inv_step: "txn_step bp bd (t, s) (t', s') \<Longrightarrow> txn_inv t \<Longrightarrow> txn_inv t'"
  by (erule txn_stepE) (auto simp: txn_Put_def dest: txn_inv_calls)

lemma txn_inv_reachable:
  assumes "(txn_step bp bd)\<^sup>*\<^sup>* (BeginTransaction, s) (t, s')"
  shows "txn_inv t"
  using assms
  by (induction "(t, s')" arbitrary: t s' rule: rtranclp_induct)
    (auto intro: txn_inv_begin txn_inv_step)

lemma txn_finished_step: "txn_step bp bd (t, s) (t', s') \<Longrightarrow> \<not> active t \<Longrightarrow> t' = t"
  by (erule txn_stepE)
    (auto simp: txn_Put_def dest: txn_commit_result txn_calls_finished(1) txn_calls_finished(3)
      txn_calls_finished(5) split: if_splits, (metis snd_conv txn_calls_finished(1,3))+)

lemma txn_finished_stuck:
  assumes "(txn_step bp bd)\<^sup>*\<^sup>* (t, s) (t', s')" "\<not> active t"
  shows "t' = t"
  using assms
  by (induction "(t', s')" arbitrary: t' s' rule: rtranclp_induct) (auto dest: txn_finished_step)

end
