(* ===== verification/Go_Txn.thy ===== *)
theory Go_Txn
  imports Go_Batch Txn
begin

text \<open>
  The Go engine object satisfies the contract \<open>kv_engine\<close> that transactions rely on, over any engine
  library that satisfies \<open>lsm_laws\<close>. The facts of the interpretation are the properties of
  transactions on the real engine.
\<close>

definition go_contents :: "'x contents \<Rightarrow> eid \<Rightarrow> ('x, 'c) go_state \<Rightarrow> bytes \<rightharpoonup> bytes" where
  "go_contents kv e g k = map_option value_to_bytes (kv (lsm (g_world g)) e k)"

definition go_ok :: "('x, 'c) env \<Rightarrow> 'x contents \<Rightarrow> eid \<Rightarrow> ('x, 'c) go_state \<Rightarrow> bool" where
  "go_ok E kv e g \<longleftrightarrow> live g e \<and> fresh_allocator (allocator E) \<and> lsm_laws E kv"

definition c_key :: "bytes \<Rightarrow> bool" where
  "c_key k \<longleftrightarrow> NUL \<notin> set k"

lemma c_cut_c_key [simp]: "c_key k \<Longrightarrow> c_cut k = k"
  by (simp add: c_key_def)

lemma live_after [simp]: "live (after tc rx n g) e = live g e"
  by (simp add: live_def after_def)

lemma reg_inv_forget_empty: "reg_inv w \<Longrightarrow> reg_inv (forget_empty r w)"
  by (auto simp: reg_inv_def forget_empty_def split: sum.splits option.splits)

lemma forget_empty_simps [simp]:
  "heap (forget_empty r w) = heap w" "lsm (forget_empty r w) = lsm w"
  by (auto simp: forget_empty_def split: sum.splits option.splits)

lemma live_after_get: "live g e \<Longrightarrow> live (after_get tc rx n g) e"
  by (simp add: live_def after_get_def reg_inv_forget_empty)

lemma after_simps [simp]:
  "lsm (g_world (after tc rx n g)) = snd rx"
  "heap (g_world (after tc rx n g)) = heap (g_world g)"
  "str_allocs (g_world (after tc rx n g)) = str_allocs (g_world g)"
  "g_engine (after tc rx n g) = g_engine g"
  by (simp_all add: after_def)

lemma after_get_lsm [simp]: "lsm (g_world (after_get tc rx n g)) = snd rx"
  by (simp add: after_get_def)

lemma go_err_None: "go_err fmt args te w r = None \<longleftrightarrow> (\<exists>a. r = Inr a)"
  by (auto simp: go_err_def split: sum.splits)

text \<open>A batch over the limit of the engine is refused as a whole.\<close>

lemma BatchPutBytes_over_limit:
  assumes "live g e" "fresh_allocator (allocator E)"
    and "lsm_max_batch_size E e (lsm (g_world g)) < length items"
  shows "\<exists>err g'. BatchPutBytes E tc te items g = Some (Some err, g') \<and> live g' e \<and> g_engine g' = g_engine g \<and>
     lsm (g_world g') = lsm (g_world g) \<and> heap (g_world g') = heap (g_world g) \<and>
     last_error (g_world g') tc =
       Some (''Invalid argument: batch count '' @ show_nat (length items) @ '' exceeds max_batch_size '' @
             show_nat (lsm_max_batch_size E e (lsm (g_world g))))"
proof -
  let ?m = "''Invalid argument: batch count '' @ show_nat (length items) @ '' exceeds max_batch_size '' @
    show_nat (lsm_max_batch_size E e (lsm (g_world g)))"
  have nn: "c_message ?m = ?m" by (simp add: c_message_def cstring_new_def)
  have "items \<noteq> []" using assms(3) by auto
  from BatchPutBytes_refines [OF assms(1,2) this, of tc te] obtain n where
    r: "BatchPutBytes E tc te items g =
      (let rx = api_batch_put E e (cut_items items) (lsm (g_world g)); g' = after tc rx n g in
       Some (go_err ''f4kvs batch put: %s'' [] te (g_world g') (fst rx), g'))" by blast
  moreover have "api_batch_put E e (cut_items items) (lsm (g_world g)) = (Inl (ErrorInvalidArgument, ?m), lsm (g_world g))"
    using assms(3) by (simp add: api_batch_put_def check_count_def)
  ultimately show ?thesis
    using assms(1) nn by (auto simp: Let_def go_err_def after_def last_error_publish live_def)
qed

section \<open>The specifications under the laws of the library\<close>

lemma storage_law:
  "storage label (f x) = (r, x') \<Longrightarrow> \<exists>r'. f x = (r', x') \<and> (\<forall>a. r = Inr a \<longrightarrow> r' = Inr a)"
  by (auto simp: storage_def split: prod.splits sum.splits)

lemma api_get_law:
  assumes "lsm_laws E kv"
  shows "kv (snd (api_get E e k x)) e = kv x e"
    "fst (api_get E e k x) = Inr v \<Longrightarrow> v = kv x e k"
proof -
  have law: "kv x' e = kv x e \<and> (\<forall>v. r = Inr v \<longrightarrow> v = kv x e k)" if "lsm_get E e k x = (r, x')" for k r x'
    using assms that by (simp add: lsm_laws_def lsm_read_laws_def)
  show "kv (snd (api_get E e k x)) e = kv x e"
    using law by (auto simp: api_get_def storage_def split: sum.splits prod.splits)
  show "fst (api_get E e k x) = Inr v \<Longrightarrow> v = kv x e k"
    using law by (auto simp: api_get_def storage_def check_text_Inr split: sum.splits prod.splits)
qed

lemma check_items_Inr:
  "check_items i items = Inr kvs \<Longrightarrow>
   kvs = map (\<lambda>(k, v). (k, VBytes v)) items \<and>
   (\<forall>(k, v)\<in>set items. valid_utf8 k \<and> length k \<le> MAX_KEY_LENGTH \<and> length v \<le> MAX_VALUE_LENGTH)"
  by (induction i items arbitrary: kvs rule: check_items.induct)
    (auto simp: check_text_Inr split: sum.splits if_splits)

lemma check_keys_Inr:
  "check_keys ks = Inr ks' \<Longrightarrow>
   ks' = ks \<and> (\<forall>k\<in>set ks. valid_utf8 k \<and> length k \<le> MAX_KEY_LENGTH)"
  by (induction ks arbitrary: ks') (auto simp: check_text_Inr split: sum.splits if_splits)

lemma map_of_VBytes:
  "map_of (map (\<lambda>(k, v). (k, VBytes v)) items) = map_option VBytes \<circ> map_of items"
  by (rule ext) (induction items, auto)

lemma api_batch_put_law:
  assumes "lsm_laws E kv"
  shows "k \<notin> fst ` set items \<Longrightarrow> kv (snd (api_batch_put E e items x)) e k = kv x e k"
    "fst (api_batch_put E e items x) = Inr () \<Longrightarrow>
     kv (snd (api_batch_put E e items x)) e =
       kv x e ++ map_of (rev (map (\<lambda>(k, v). (k, VBytes v)) items))"
proof -
  let ?kvs = "map (\<lambda>(k, v). (k, VBytes v)) items"
  have fs: "fst ` set ?kvs = fst ` set items" by force
  note frame = lsm_frameD(2) [OF assms, where kvs = ?kvs, unfolded fs]
    and law = lsm_writeD(2) [OF assms, where kvs = ?kvs]
  show "k \<notin> fst ` set items \<Longrightarrow> kv (snd (api_batch_put E e items x)) e k = kv x e k"
    using frame
    by (auto simp: api_batch_put_def storage_def dest!: check_items_Inr split: sum.splits prod.splits)
  show "fst (api_batch_put E e items x) = Inr () \<Longrightarrow>
     kv (snd (api_batch_put E e items x)) e = kv x e ++ map_of (rev ?kvs)"
    using law
    by (auto simp: api_batch_put_def storage_def dest!: check_items_Inr split: sum.splits prod.splits)
qed

lemma api_batch_delete_law:
  assumes "lsm_laws E kv"
  shows "k \<notin> set ks \<Longrightarrow> kv (snd (api_batch_delete E e ks x)) e k = kv x e k"
    "fst (api_batch_delete E e ks x) = Inr () \<Longrightarrow>
     kv (snd (api_batch_delete E e ks x)) e = kv x e |` (- set ks)"
proof -
  note frame = lsm_frameD(4) [OF assms, where ks = ks] and law = lsm_writeD(4) [OF assms, where ks = ks]
  show "k \<notin> set ks \<Longrightarrow> kv (snd (api_batch_delete E e ks x)) e k = kv x e k"
    using frame
    by (auto simp: api_batch_delete_def storage_def dest!: check_keys_Inr split: sum.splits prod.splits)
  show "fst (api_batch_delete E e ks x) = Inr () \<Longrightarrow>
     kv (snd (api_batch_delete E e ks x)) e = kv x e |` (- set ks)"
    using law
    by (auto simp: api_batch_delete_def storage_def dest!: check_keys_Inr split: sum.splits prod.splits)
qed

section \<open>The engine object is what transactions rely on\<close>

lemma go_get_cut:
  assumes "go_ok E kv e g" "\<And>v. go_contents kv e g (c_cut k) = Some v \<Longrightarrow> length v < 2 ^ 31"
  shows "\<exists>r g'. GetBytes E tc te k g = Some (r, g') \<and> go_ok E kv e g' \<and>
     go_contents kv e g' = go_contents kv e g \<and>
     (\<forall>v. r = Inr v \<longrightarrow> go_contents kv e g (c_cut k) = Some v) \<and>
     (r = Inl ErrNotFound \<longrightarrow> go_contents kv e g (c_cut k) = None)"
proof -
  let ?rx = "api_get E e (c_cut k) (lsm (g_world g))"
  from assms(1) have l: "live g e" "fresh_allocator (allocator E)" "lsm_laws E kv"
    by (simp_all add: go_ok_def)
  note law = api_get_law [OF l(3), of e "c_cut k" "lsm (g_world g)"]
  have "length (value_to_bytes v) < 2 ^ 31" if "fst ?rx = Inr (Some v)" for v
    using that law(2) [of "Some v"] assms(2) [of "value_to_bytes v"]
    by (simp add: go_contents_def) metis
  from GetBytes_refines [where key = k and tc = tc and te = te, OF l(1,2) this]
  obtain n where "GetBytes E tc te k g =
      (let g' = after_get tc ?rx n g in Some (get_answer k te (g_world g') (fst ?rx), g'))"
    by (auto simp: Let_def)
  then show ?thesis
    using l law live_after_get [OF l(1)]
    by (auto simp: go_ok_def go_contents_def Let_def get_answer_def fun_eq_iff
        split: sum.splits option.splits)
qed

lemma go_get_total [engine_laws]:
  assumes "go_ok E kv e g" "c_key k" "\<And>v. go_contents kv e g k = Some v \<Longrightarrow> length v < 2 ^ 31"
  shows "\<exists>r g'. GetBytes E tc te k g = Some (r, g') \<and> go_ok E kv e g' \<and>
     go_contents kv e g' = go_contents kv e g \<and>
     (\<forall>v. r = Inr v \<longrightarrow> go_contents kv e g k = Some v) \<and>
     (r = Inl ErrNotFound \<longrightarrow> go_contents kv e g k = None)"
  using go_get_cut [OF assms(1), of k] assms(2,3) by simp

lemma go_batch_put_total [engine_laws]:
  assumes "go_ok E kv e g" "items \<noteq> []" "distinct (map fst items)" "\<forall>k\<in>fst ` set items. c_key k"
  shows "\<exists>r g'. BatchPutBytes E tc te items g = Some (r, g') \<and> go_ok E kv e g' \<and>
     (\<forall>k. k \<notin> fst ` set items \<longrightarrow> go_contents kv e g' k = go_contents kv e g k) \<and>
     (r = None \<longrightarrow> go_contents kv e g' = go_contents kv e g ++ map_of items)"
proof -
  let ?rx = "api_batch_put E e items (lsm (g_world g))" and ?kvs = "map (\<lambda>(k, v). (k, VBytes v)) items"
  from assms(1) have l: "live g e" "fresh_allocator (allocator E)" "lsm_laws E kv"
    by (simp_all add: go_ok_def)
  note law = api_batch_put_law [OF l(3), where items = items and e = e and x = "lsm (g_world g)"]
  have "cut_items items = items"
    using assms(4) by (induction items) (auto simp: cut_items_def)
  with BatchPutBytes_refines [OF l(1,2) assms(2)] obtain n where
    r: "BatchPutBytes E tc te items g =
      (let g' = after tc ?rx n g in
       Some (go_err ''f4kvs batch put: %s'' [] te (g_world g') (fst ?rx), g'))"
    by (metis (no_types, lifting))
  have "distinct (map fst ?kvs)" using assms(3) by (simp add: comp_def case_prod_unfold)
  then have "map_of (rev ?kvs) = map_option VBytes \<circ> map_of items"
    by (simp add: map_of_rev_distinct map_of_VBytes)
  then have "go_contents kv e (after tc ?rx n g) = go_contents kv e g ++ map_of items"
    if "fst ?rx = Inr ()"
    using law(2) [OF that] by (auto simp: go_contents_def map_add_def fun_eq_iff split: option.splits)
  with r l law(1) show ?thesis
    by (auto simp: go_ok_def go_contents_def Let_def go_err_None)
qed

lemma go_batch_delete_total [engine_laws]:
  assumes "go_ok E kv e g" "ks \<noteq> []" "\<forall>k\<in>set ks. c_key k"
  shows "\<exists>r g'. BatchDelete E tc te ks g = Some (r, g') \<and> go_ok E kv e g' \<and>
     (\<forall>k. k \<notin> set ks \<longrightarrow> go_contents kv e g' k = go_contents kv e g k) \<and>
     (r = None \<longrightarrow> go_contents kv e g' = go_contents kv e g |` (- set ks))"
proof -
  let ?rx = "api_batch_delete E e ks (lsm (g_world g))"
  from assms(1) have l: "live g e" "fresh_allocator (allocator E)" "lsm_laws E kv"
    by (simp_all add: go_ok_def)
  note law = api_batch_delete_law [OF l(3), where ks = ks and e = e and x = "lsm (g_world g)"]
  have "map c_cut ks = ks" using assms(3) by (induction ks) auto
  with BatchDelete_refines [OF l(1,2) assms(2)] obtain n where
    r: "BatchDelete E tc te ks g =
      (let g' = after tc ?rx n g in
       Some (go_err ''f4kvs batch delete: %s'' [] te (g_world g') (fst ?rx), g'))"
    by (metis (no_types, lifting))
  have "go_contents kv e (after tc ?rx n g) = go_contents kv e g |` (- set ks)" if "fst ?rx = Inr ()"
    using law(2) [OF that] by (auto simp: go_contents_def restrict_map_def fun_eq_iff)
  with r l law(1) show ?thesis
    by (auto simp: go_ok_def go_contents_def Let_def go_err_None)
qed

interpretation go: kv_engine "GetBytes E tc te" "BatchPutBytes E tc te" "BatchDelete E tc te"
  "go_ok E kv e" "go_contents kv e" c_key "2 ^ 31" for E tc te kv e
  by unfold_locales (rule engine_laws; assumption)+

end
