(* ===== verification/Go_Open.thy ===== *)
theory Go_Open
  imports Go_Txn
begin

text \<open>
  Opening an engine from Go: the options reach the configuration of the library unchanged, the
  object that comes back is live, and a failed open returns the memory it used.
\<close>

lemma read_copts [simp]:
  "read_open_options (Some (encode_options pad (copts_of op))) = Some (Some (copts_of op))"
  using read_versioned_full [of "copts_of op" pad "[]"] by (simp add: copts_of_def option_sizes)

lemma validate_data_dir_ok:
  "p \<noteq> null \<Longrightarrow> cstr_from_ptr w p = Some s \<Longrightarrow> valid_utf8 s \<Longrightarrow> s \<noteq> [] \<Longrightarrow>
   validate_data_dir t p w = Some (Inr s, w)"
  by (simp add: validate_data_dir_def from_utf8_eq)

text \<open>Both open functions, as one: the options arrive as a pointer to the C struct or as NULL.\<close>

lemma open_call:
  assumes "p \<noteq> null" "cstr_from_ptr w p = Some s" "valid_utf8 s" "s \<noteq> []"
  shows "(case opts of
      None \<Rightarrow> f4kvs_engine_open E t p w
    | Some op \<Rightarrow> f4kvs_engine_open_ex E t p (Some (encode_options pad (copts_of op))) w) =
    Some (box_engine E t ''Failed to open engine: ''
      (open_lsm_engine E t s (map_option copts_of opts) w))"
  by (cases opts)
    (simp_all add: f4kvs_engine_open_def f4kvs_engine_open_ex_def validate_data_dir_ok [OF assms])

lemma open_ok:
  assumes "fresh_allocator (allocator E)" "reg_inv w" "c_key path" "valid_utf8 path" "path \<noteq> []"
    and "lsm_new E (engine_config E path (map_option copts_of opts)) (lsm w) = (Inr e, x')"
  shows "\<exists>h n. NewPersistentEngineWithOptions E pad tc te path opts w =
       Some (Inr (new_F4KVS h),
             w\<lparr>heap := (heap w)(h \<mapsto> EngineBox e), tick := n, arcs := (arcs w)(e := 1), lsm := x'\<rparr>) \<and>
     1 < h \<and> heap w h = None"
proof -
  from assms(1,2) obtain a where
    a: "c_string (allocator E) path w =
         (a, w\<lparr>heap := (heap w)(a \<mapsto> CMem (path @ [NUL])), tick := Suc (tick w)\<rparr>)" (is "_ = (a, ?w1)")
      "heap w a = None" "1 < a"
    by (rule c_stringE)
  have inv1: "reg_inv ?w1" using assms(2) a(2,3) by (rule reg_inv_insert_plain) simp
  let ?w2 = "?w1\<lparr>lsm := x', arcs := (arcs w)(e := 1)\<rparr>"
  have o: "open_lsm_engine E tc path (map_option copts_of opts) ?w1 = (Inr e, ?w2)"
    using assms(6) by (simp add: open_lsm_engine_def lsm_call_def)
  have "reg_inv ?w2" using inv1 by simp
  from alloc_blockE [OF assms(1) this, of "EngineBox e"] obtain h where
    h: "alloc_block (allocator E) (EngineBox e) ?w2 =
         (h, ?w2\<lparr>heap := (heap ?w2)(h \<mapsto> EngineBox e), tick := Suc (tick ?w2)\<rparr>)"
      "heap ?w2 h = None" "1 < h" .
  have ah: "a \<noteq> h" "heap w h = None" using h(2) by (auto split: if_splits)
  note call = open_call [where p = a and w = ?w1 and s = path and opts = opts and E = E and t = tc and pad = pad]
  have "NewPersistentEngineWithOptions E pad tc te path opts w =
      Some (Inr (new_F4KVS h),
        w\<lparr>heap := (heap w)(h \<mapsto> EngineBox e), tick := Suc (tick ?w2), arcs := (arcs w)(e := 1), lsm := x'\<rparr>)"
    using call assms(3-5) a h ah o
    by (simp add: NewPersistentEngineWithOptions_def box_engine_def c_free_def drop_block_def
        fun_upd_twist fun_upd_idem)
  with h(3) ah(2) show ?thesis by blast
qed

lemma opened_live:
  assumes "reg_inv w" "heap w h = None" "1 < h"
  shows "live \<lparr>g_engine = new_F4KVS h,
    g_world = w\<lparr>heap := (heap w)(h \<mapsto> EngineBox e), tick := n, arcs := r, lsm := x\<rparr>\<rparr> e"
proof -
  have "reg_inv (w\<lparr>heap := (heap w)(h \<mapsto> EngineBox e), tick := n\<rparr>)"
    using assms by (rule reg_inv_insert_plain) simp
  then have "reg_inv (w\<lparr>heap := (heap w)(h \<mapsto> EngineBox e), tick := n, arcs := r, lsm := x\<rparr>)" by simp
  with assms(3) show ?thesis by (simp add: live_def new_F4KVS_def)
qed

lemma open_failed:
  assumes "fresh_allocator (allocator E)" "reg_inv w" "c_key path" "valid_utf8 path" "path \<noteq> []"
    and "lsm_new E (engine_config E path (map_option copts_of opts)) (lsm w) = (Inl m, x')"
  shows "\<exists>w'. NewPersistentEngineWithOptions E pad tc te path opts w =
       Some (Inl (Errorf ''f4kvs open %s: %s''
         [path, if te = tc then ''Failed to open engine: ErrorStorage'' else lastError te w]), w') \<and>
     heap w' = heap w \<and> lsm w' = x'"
proof -
  from assms(1,2) obtain a where
    a: "c_string (allocator E) path w =
         (a, w\<lparr>heap := (heap w)(a \<mapsto> CMem (path @ [NUL])), tick := Suc (tick w)\<rparr>)" (is "_ = (a, ?w1)")
      "heap w a = None" "1 < a"
    by (rule c_stringE)
  let ?w2 = "set_last_error tc (''Failed to open LSM engine: '' @ m) (?w1\<lparr>lsm := x'\<rparr>)"
  have "open_lsm_engine E tc path (map_option copts_of opts) ?w1 = (Inl ErrorStorage, ?w2)"
    using assms(6) by (simp add: open_lsm_engine_def lsm_call_def)
  moreover note open_call [where p = a and w = ?w1 and s = path and opts = opts and E = E and t = tc and pad = pad]
  ultimately show ?thesis
    using assms(3-5) a
    by (simp add: NewPersistentEngineWithOptions_def box_engine_def c_free_def drop_block_def
        lastError_def f4kvs_get_last_error_def set_last_error_def cstring_new_def fun_upd_idem)
qed

end
