(* ===== verification/Go_Store.thy ===== *)
theory Go_Store
  imports Go_Open
begin

text \<open>
  The Go engine object as a store: what its methods do to the contents of the engine, over any
  library that satisfies \<open>lsm_laws\<close>, and the methods that are loops over others. \<open>demo_state\<close> is an
  object on the reference library, for concrete instances.
\<close>

section \<open>A concrete object\<close>

definition demo_state :: "nat \<Rightarrow> (ref_lsm, unit) go_state" where
  "demo_state cap = \<lparr>g_engine = new_F4KVS 2, g_world = ref_world cap\<rparr>"

definition demo_v0 :: F4KvsOpenOptionsV0 where
  "demo_v0 =
     \<lparr>v0_group_commit_enabled = 1, v0_group_commit_max_wait_ms = 2, v0_group_commit_max_batch_size = 3,
      v0_group_commit_wait_durable = 1, v0_wal_engine = 2, v0_wal_durability = 1,
      v0_group_commit_idle_flush_ms = 4, v0_max_batch_size = 5, v0_compaction_background = 2,
      v0_max_sstables_per_level = 6, v0_memtable_max_size = 7, v0_sstable_target_size = 8,
      v0_sstable_max_size = 9\<rparr>"

lemma demo_live: "live (demo_state cap) 0"
  by (simp add: live_def demo_state_def new_F4KVS_def ref_world_inv) (simp add: ref_world_def)

lemma ref_env_allocator [simp]: "fresh_allocator (allocator ref_env)"
  by (simp add: ref_env_def ref_allocator_fresh)

lemma demo_ok: "go_ok ref_env ref_kv 0 (demo_state cap)"
  by (simp add: go_ok_def demo_live ref_laws)

lemma demo_lsm [simp]: "lsm (g_world (demo_state cap)) = ref_init cap"
  by (simp add: demo_state_def ref_world_def)

lemma demo_contents: "go_contents ref_kv 0 (demo_state cap) = Map.empty"
  by (simp add: go_contents_def ref_kv_def ref_store_def ref_init_def fun_eq_iff)

section \<open>Single keys\<close>

lemma check_text_key: "check_text n f k = Inr u \<Longrightarrow> u = k"
  by (simp add: check_text_Inr)

lemma api_put_law:
  assumes "lsm_laws E kv"
  shows "j \<noteq> k \<Longrightarrow> kv (snd (api_put E e k v x)) e j = kv x e j"
    "fst (api_put E e k v x) = Inr () \<Longrightarrow>
     kv (snd (api_put E e k v x)) e = (kv x e)(k \<mapsto> VBytes v) \<and> length v \<le> MAX_VALUE_LENGTH"
proof -
  note law = lsm_frameD(1) [OF assms] lsm_writeD(1) [OF assms]
  show "j \<noteq> k \<Longrightarrow> kv (snd (api_put E e k v x)) e j = kv x e j"
    using law(1) by (auto simp: api_put_def storage_def check_text_Inr split: sum.splits prod.splits)
  show "fst (api_put E e k v x) = Inr () \<Longrightarrow>
     kv (snd (api_put E e k v x)) e = (kv x e)(k \<mapsto> VBytes v) \<and> length v \<le> MAX_VALUE_LENGTH"
    using law(2) check_text_key [of MAX_KEY_LENGTH "''key''" k]
    by (cases "check_text MAX_KEY_LENGTH ''key'' k")
      (auto simp: api_put_def storage_def split: sum.splits prod.splits if_splits)
qed

lemma api_delete_law:
  assumes "lsm_laws E kv"
  shows "j \<noteq> k \<Longrightarrow> kv (snd (api_delete E e k x)) e j = kv x e j"
    "fst (api_delete E e k x) = Inr () \<Longrightarrow> kv (snd (api_delete E e k x)) e = (kv x e)(k := None)"
proof -
  note law = lsm_frameD(3) [OF assms] lsm_writeD(3) [OF assms]
  show "j \<noteq> k \<Longrightarrow> kv (snd (api_delete E e k x)) e j = kv x e j"
    using law(1) by (auto simp: api_delete_def storage_def check_text_Inr split: sum.splits prod.splits)
  show "fst (api_delete E e k x) = Inr () \<Longrightarrow> kv (snd (api_delete E e k x)) e = (kv x e)(k := None)"
    using law(2) check_text_key [of MAX_KEY_LENGTH "''key''" k]
    by (cases "check_text MAX_KEY_LENGTH ''key'' k")
      (auto simp: api_delete_def storage_def split: sum.splits prod.splits)
qed

text \<open>The two writes return; \<open>c_cut k\<close> is the key the engine sees.\<close>

lemma go_put_total:
  assumes "go_ok E kv e g"
  shows "\<exists>r g'. PutBytes E tc te k v g = Some (r, g') \<and> go_ok E kv e g' \<and>
     (\<forall>j. j \<noteq> c_cut k \<longrightarrow> go_contents kv e g' j = go_contents kv e g j) \<and>
     (r = None \<longrightarrow> go_contents kv e g' = (go_contents kv e g)(c_cut k \<mapsto> v) \<and> length v \<le> MAX_VALUE_LENGTH)"
proof -
  let ?rx = "api_put E e (c_cut k) v (lsm (g_world g))"
  from assms have l: "live g e" "fresh_allocator (allocator E)" "lsm_laws E kv"
    by (simp_all add: go_ok_def)
  note law = api_put_law [OF l(3), where k = "c_cut k" and v = v and e = e and x = "lsm (g_world g)"]
  from PutBytes_refines [OF l(1,2)] obtain n where
    "PutBytes E tc te k v g = (let g' = after tc ?rx n g in
       Some (go_err ''f4kvs put %q: %s'' [k] te (g_world g') (fst ?rx), g'))"
    by (metis (no_types, lifting))
  with l law show ?thesis
    by (auto simp: go_ok_def go_contents_def Let_def go_err_None fun_eq_iff)
qed

lemma go_delete_total:
  assumes "go_ok E kv e g"
  shows "\<exists>r g'. Delete E tc te k g = Some (r, g') \<and> go_ok E kv e g' \<and>
     (\<forall>j. j \<noteq> c_cut k \<longrightarrow> go_contents kv e g' j = go_contents kv e g j) \<and>
     (r = None \<longrightarrow> go_contents kv e g' = (go_contents kv e g)(c_cut k := None))"
proof -
  let ?rx = "api_delete E e (c_cut k) (lsm (g_world g))"
  from assms have l: "live g e" "fresh_allocator (allocator E)" "lsm_laws E kv"
    by (simp_all add: go_ok_def)
  note law = api_delete_law [OF l(3), where k = "c_cut k" and e = e and x = "lsm (g_world g)"]
  from Delete_refines [OF l(1,2)] obtain n where
    "Delete E tc te k g = (let g' = after tc ?rx n g in
       Some (go_err ''f4kvs delete %q: %s'' [k] te (g_world g') (fst ?rx), g'))"
    by (metis (no_types, lifting))
  with l law show ?thesis
    by (auto simp: go_ok_def go_contents_def Let_def go_err_None fun_eq_iff)
qed

section \<open>Loops over keys\<close>

text \<open>The values of the engine fit a C \<^verbatim>\<open>int\<close>, the length type of \<^verbatim>\<open>C.GoBytes\<close>.\<close>

definition small_values :: "(bytes \<rightharpoonup> bytes) \<Rightarrow> bool" where
  "small_values c \<longleftrightarrow> (\<forall>v\<in>ran c. length v < 2 ^ 31)"

lemma small_valuesD: "small_values c \<Longrightarrow> c k = Some v \<Longrightarrow> length v < 2 ^ 31"
  by (auto simp: small_values_def ran_def)

lemma batch_get_total:
  assumes "go_ok E kv e g" "\<forall>k\<in>set ks. c_key k"
    and "small_values (go_contents kv e g)"
  shows "\<exists>r g'. batch_get E tc te ks m g = Some (r, g') \<and> go_ok E kv e g' \<and>
     go_contents kv e g' = go_contents kv e g \<and>
     (\<forall>m'. r = Inr m' \<longrightarrow> set ks \<subseteq> dom (go_contents kv e g) \<and> m' = m ++ (go_contents kv e g |` set ks)) \<and>
     (r = Inl ErrNotFound \<longrightarrow> \<not> set ks \<subseteq> dom (go_contents kv e g))"
  using assms
proof (induction ks arbitrary: m g)
  case Nil
  then show ?case by (simp add: restrict_map_def map_add_def)
next
  case (Cons k ks)
  from Cons.prems have "c_key k" by simp
  from go_get_total [where tc = tc and te = te, OF Cons.prems(1) this]
    small_valuesD [OF Cons.prems(3), of k] obtain r g1 where
    1: "GetBytes E tc te k g = Some (r, g1)" "go_ok E kv e g1" "go_contents kv e g1 = go_contents kv e g"
      "\<forall>v. r = Inr v \<longrightarrow> go_contents kv e g k = Some v"
      "r = Inl ErrNotFound \<longrightarrow> go_contents kv e g k = None" by blast
  show ?case
  proof (cases r)
    case (Inl err)
    with 1 show ?thesis by auto
  next
    case (Inr v)
    with 1 have k: "go_contents kv e g k = Some v" by simp
    define m1 where "m1 = m(k \<mapsto> v)"
    have m1: "m1 ++ (go_contents kv e g |` set ks) = m ++ (go_contents kv e g |` set (k # ks))"
      using k by (auto simp: m1_def map_add_def restrict_map_def fun_eq_iff split: option.splits)
    have "\<forall>k\<in>set ks. c_key k" using Cons.prems(2) by simp
    from Cons.IH [where m = m1, OF 1(2) this, unfolded 1(3), OF Cons.prems(3)] obtain r2 g2 where
      2: "batch_get E tc te ks m1 g1 = Some (r2, g2)" "go_ok E kv e g2"
        "go_contents kv e g2 = go_contents kv e g"
        "\<forall>m'. r2 = Inr m' \<longrightarrow> set ks \<subseteq> dom (go_contents kv e g) \<and> m' = m1 ++ (go_contents kv e g |` set ks)"
        "r2 = Inl ErrNotFound \<longrightarrow> \<not> set ks \<subseteq> dom (go_contents kv e g)"
      by blast
    have "batch_get E tc te (k # ks) m g = Some (r2, g2)" using 1(1) Inr 2(1) by (simp add: m1_def)
    with 2(2-5) k m1 show ?thesis by (intro exI conjI) (assumption | auto)+
  qed
qed

lemma BatchPut_total:
  assumes "go_ok E kv e g"
  shows "\<exists>r g'. BatchPut E tc te items g = Some (r, g') \<and> go_ok E kv e g' \<and>
     (r = None \<longrightarrow> go_contents kv e g' = go_contents kv e g ++ map_of (rev (cut_items items)))"
  using assms
proof (induction items arbitrary: g)
  case Nil
  then show ?case by simp
next
  case (Cons kv' items)
  obtain k v where kv': "kv' = (k, v)" by (cases kv')
  from go_put_total [OF Cons.prems, of tc te k v] obtain r g1 where
    1: "PutBytes E tc te k v g = Some (r, g1)" "go_ok E kv e g1"
      "r = None \<longrightarrow> go_contents kv e g1 = (go_contents kv e g)(c_cut k \<mapsto> v)" by blast
  show ?case
  proof (cases r)
    case None
    from Cons.IH [OF 1(2)] obtain r2 g2 where
      "BatchPut E tc te items g1 = Some (r2, g2)" "go_ok E kv e g2"
      "r2 = None \<longrightarrow> go_contents kv e g2 = go_contents kv e g1 ++ map_of (rev (cut_items items))" by blast
    with 1 None kv' show ?thesis by (simp add: Put_def)
  next
    case (Some err)
    with 1 kv' show ?thesis by (simp add: Put_def)
  qed
qed

section \<open>Scans\<close>

lemma api_scan_law:
  assumes "lsm_laws E kv"
  shows "kv (snd (api_scan E e p x)) e = kv x e"
    "fst (api_scan E e p x) = Inr ks \<Longrightarrow>
     distinct ks \<and> set ks = {k \<in> dom (kv x e). prefix p k} \<and> (\<forall>k\<in>set ks. c_key k)"
proof -
  have law: "kv x' e = kv x e" "r = Inr ks \<Longrightarrow> distinct ks \<and> set ks = {k \<in> dom (kv x e). prefix p k}"
    if "lsm_scan_prefix E e p x = (r, x')" for p r x' ks
    using assms that by (simp_all add: lsm_laws_def lsm_read_laws_def)
  show "kv (snd (api_scan E e p x)) e = kv x e"
    using law(1) by (auto simp: api_scan_def storage_def split: sum.splits prod.splits)
  show "fst (api_scan E e p x) = Inr ks \<Longrightarrow>
     distinct ks \<and> set ks = {k \<in> dom (kv x e). prefix p k} \<and> (\<forall>k\<in>set ks. c_key k)"
    using law(2)
    by (auto simp: api_scan_def storage_def check_text_Inr check_nul_Inr c_key_def has_nul_def
        split: sum.splits prod.splits)
qed

lemma go_contents_dom: "dom (go_contents kv e g) = dom (kv (lsm (g_world g)) e)"
  by (auto simp: go_contents_def dom_def)

section \<open>The reference library at work\<close>

lemma check_text_ok: "length k \<le> n \<Longrightarrow> valid_utf8 k \<Longrightarrow> check_text n f k = Inr k"
  by (simp add: check_text_Inr)

lemma ref_api:
  assumes "length k \<le> MAX_KEY_LENGTH" "valid_utf8 k"
  shows "api_get ref_env e k x = (Inr (map_of (ref_store x e) k), x)"
    "api_delete ref_env e k x = (Inr (), ref_write e (AList.delete k (ref_store x e)) x)"
    "length v \<le> MAX_VALUE_LENGTH \<Longrightarrow>
     api_put ref_env e k v x = (Inr (), ref_write e (AList.update k (VBytes v) (ref_store x e)) x)"
  using assms by (simp_all add: api_put_def api_get_def api_delete_def check_text_ok storage_def ref_env_def)

lemma demo_key: "length ''k'' \<le> MAX_KEY_LENGTH" "valid_utf8 ''k''" "length ''v'' \<le> MAX_VALUE_LENGTH" "c_key ''k''"
  by (simp_all add: MAX_KEY_LENGTH_def MAX_VALUE_LENGTH_def valid_utf8_ascii c_key_def)

lemma demo_put:
  assumes "live g 0"
  shows "\<exists>g1. PutBytes ref_env tc te ''k'' ''v'' g = Some (None, g1)"
  using PutBytes_refines [OF assms ref_env_allocator, of tc te "''k''" "''v''"] demo_key
  by (auto simp: ref_api go_err_None Let_def)

lemma demo_delete:
  assumes "live g 0"
  shows "\<exists>g1. Delete ref_env tc te ''k'' g = Some (None, g1)"
  using Delete_refines [OF assms ref_env_allocator, of tc te "''k''"] demo_key
  by (auto simp: ref_api go_err_None Let_def)

lemma demo_small: "small_values (go_contents ref_kv 0 (demo_state cap))"
  by (simp add: demo_contents small_values_def)

section \<open>A library that fails once\<close>

text \<open>The reference library, whose first batch delete fails without an effect.\<close>

definition flaky_env :: "(ref_lsm, unit) env" where
  "flaky_env = ref_env\<lparr>lsm_batch_delete := (\<lambda>e ks x.
     if ref_next x = 1 then (Inl ''disk full'', x\<lparr>ref_next := 2\<rparr>) else lsm_batch_delete (ref_env :: (ref_lsm, unit) env) e ks x)\<rparr>"

lemma ref_kv_next [simp]: "ref_kv (x\<lparr>ref_next := n\<rparr>) = ref_kv x"
  by (simp add: ref_kv_def ref_store_def fun_eq_iff)

lemma flaky_laws: "lsm_laws flaky_env ref_kv"
proof -
  have ref: "lsm_laws (ref_env :: (ref_lsm, unit) env) ref_kv" by (rule ref_laws)
  then have "lsm_read_laws flaky_env ref_kv" "lsm_keep_laws flaky_env ref_kv"
    by (simp_all add: lsm_laws_def lsm_read_laws_def lsm_keep_laws_def flaky_env_def)
  moreover have "lsm_write_laws flaky_env ref_kv"
    using lsm_writeD [OF ref] by (simp add: lsm_write_laws_def flaky_env_def split: if_splits)
  moreover have "lsm_frame_laws flaky_env ref_kv"
    using lsm_frameD [OF ref] by (simp add: lsm_frame_laws_def flaky_env_def)
  ultimately show ?thesis by (simp add: lsm_laws_def)
qed

lemma flaky_allocator [simp]: "fresh_allocator (allocator flaky_env)"
  by (simp add: flaky_env_def)

lemma flaky_ok: "go_ok flaky_env ref_kv 0 (demo_state cap)"
  by (simp add: go_ok_def demo_live flaky_laws)

lemma flaky_batch_delete:
  assumes "length k \<le> MAX_KEY_LENGTH" "valid_utf8 k" "0 < ref_cap x e"
  shows "api_batch_delete flaky_env e [k] x =
     (if ref_next x = 1 then (Inl (ErrorStorage, ''Batch delete failed: disk full''), x\<lparr>ref_next := 2\<rparr>)
      else (Inr (), ref_write e (filter (\<lambda>(j, v). j \<noteq> k) (ref_store x e)) x))"
  using assms
  by (simp add: api_batch_delete_def check_count_def check_text_ok storage_def flaky_env_def ref_env_def)

end
