(* ===== verification/Go_Lock.thy ===== *)
theory Go_Lock
  imports Go_Engine Ffi_Contract
begin

text \<open>
  Concurrent use of one Go engine object. The methods of \<^verbatim>\<open>go/f4kvs.go\<close> take the read lock, check that
  the engine is open and call C with the handle; \<^verbatim>\<open>Close\<close> takes the write lock, frees the handle and marks
  the object. The step relation interleaves goroutines at these points, using the lock operations
  of \<open>Go_Engine\<close>; rule induction shows that no call ever uses a freed handle and that the handle is
  freed at most once.
\<close>

section \<open>Interleaved goroutines\<close>

datatype goroutine =
    Idle
  | RLocked
  | InCall addr
  | WLocked
  | Freed

record ('x, 'c) system =
  sy_go :: "('x, 'c) go_state"
  sy_run :: "nat \<Rightarrow> goroutine"

definition moves :: "nat \<Rightarrow> goroutine \<Rightarrow> ('x, 'c) go_state \<Rightarrow> ('x, 'c) system \<Rightarrow> ('x, 'c) system" where
  "moves i r g S = \<lparr>sy_go = g, sy_run = (sy_run S)(i := r)\<rparr>"

text \<open>
  The steps of a method call: \<open>rlock\<close>, \<open>refuse\<close> and \<open>enter\<close> are \<^verbatim>\<open>rLockLive\<close>; \<open>work\<close> is a C function at work,
  which may change everything but the engine boxes; \<open>leave\<close> is the deferred \<^verbatim>\<open>RUnlock\<close>.
\<close>

inductive call_step :: "('x, 'c) system \<Rightarrow> ('x, 'c) system \<Rightarrow> bool" where
  rlock: "sy_run S i = Idle \<Longrightarrow> RLock (sy_go S) = Some g \<Longrightarrow> call_step S (moves i RLocked g S)"
| refuse: "sy_run S i = RLocked \<Longrightarrow> closed (g_engine (sy_go S)) \<or> handle (g_engine (sy_go S)) = null \<Longrightarrow>
    RUnlock (sy_go S) = Some g \<Longrightarrow> call_step S (moves i Idle g S)"
| enter: "sy_run S i = RLocked \<Longrightarrow> \<not> closed (g_engine (sy_go S)) \<Longrightarrow> handle (g_engine (sy_go S)) \<noteq> null \<Longrightarrow>
    call_step S (moves i (InCall (handle (g_engine (sy_go S)))) (sy_go S) S)"
| work: "sy_run S i = InCall h \<Longrightarrow>
    (\<forall>a e. heap (g_world (sy_go S)) a = Some (EngineBox e) \<longrightarrow> heap w a = Some (EngineBox e)) \<Longrightarrow>
    call_step S (moves i (InCall h) ((sy_go S)\<lparr>g_world := w\<rparr>) S)"
| leave: "sy_run S i = InCall h \<Longrightarrow> RUnlock (sy_go S) = Some g \<Longrightarrow> call_step S (moves i Idle g S)"

text \<open>The steps of \<^verbatim>\<open>Close\<close>: the write lock, the early return on a null handle, the free, the deferred unlock.\<close>

inductive close_step :: "('x, 'c) env \<Rightarrow> ('x, 'c) system \<Rightarrow> ('x, 'c) system \<Rightarrow> bool" for E where
  wlock: "sy_run S i = Idle \<Longrightarrow> Lock (sy_go S) = Some g \<Longrightarrow> close_step E S (moves i WLocked g S)"
| idle_close: "sy_run S i = WLocked \<Longrightarrow> handle (g_engine (sy_go S)) = null \<Longrightarrow>
    Unlock (sy_go S) = Some g \<Longrightarrow> close_step E S (moves i Idle g S)"
| free: "sy_run S i = WLocked \<Longrightarrow> handle (g_engine (sy_go S)) \<noteq> null \<Longrightarrow>
    f4kvs_engine_close E tc (handle (g_engine (sy_go S))) (g_world (sy_go S)) = Some (res, w1) \<Longrightarrow>
    f4kvs_engine_free E (handle (g_engine (sy_go S))) w1 = Some w2 \<Longrightarrow>
    close_step E S (moves i Freed
      ((sy_go S)\<lparr>g_world := w2, g_engine := (g_engine (sy_go S))\<lparr>handle := null, closed := True\<rparr>\<rparr>) S)"
| unlock: "sy_run S i = Freed \<Longrightarrow> Unlock (sy_go S) = Some g \<Longrightarrow> close_step E S (moves i Idle g S)"

text \<open>The goroutines that share one engine object: at every point any of them makes its next step.\<close>

inductive go_step ::
  "('x, 'c) env \<Rightarrow> ('x, 'c) system \<Rightarrow> ('x, 'c) system \<Rightarrow> bool" for E where
  call: "call_step S S' \<Longrightarrow> go_step E S S'"
| close: "close_step E S S' \<Longrightarrow> go_step E S S'"

section \<open>The invariant\<close>

fun reader :: "goroutine \<Rightarrow> bool" where
  "reader RLocked = True"
| "reader (InCall h) = True"
| "reader _ = False"

fun writer :: "goroutine \<Rightarrow> bool" where
  "writer WLocked = True"
| "writer Freed = True"
| "writer _ = False"

definition readers_of :: "('x, 'c) system \<Rightarrow> nat set" where
  "readers_of S = {i. reader (sy_run S i)}"

definition writers_of :: "('x, 'c) system \<Rightarrow> nat set" where
  "writers_of S = {i. writer (sy_run S i)}"

definition handle_live :: "('x, 'c) go_state \<Rightarrow> bool" where
  "handle_live g \<longleftrightarrow>
     handle (g_engine g) \<noteq> null \<longrightarrow>
       \<not> closed (g_engine g) \<and> (\<exists>e. heap (g_world g) (handle (g_engine g)) = Some (EngineBox e))"

definition lock_inv :: "('x, 'c) system \<Rightarrow> bool" where
  "lock_inv S \<longleftrightarrow>
     finite (readers_of S) \<and> card (readers_of S) = mu_readers (g_engine (sy_go S)) \<and>
     (if mu_writer (g_engine (sy_go S)) then (\<exists>j. writers_of S = {j}) \<and> readers_of S = {}
      else writers_of S = {}) \<and>
     handle_live (sy_go S) \<and>
     (\<forall>i h. sy_run S i = InCall h \<longrightarrow> h = handle (g_engine (sy_go S)) \<and> h \<noteq> null) \<and>
     (\<forall>i. sy_run S i = Freed \<longrightarrow> handle (g_engine (sy_go S)) = null)"

definition fresh_system :: "('x, 'c) go_state \<Rightarrow> ('x, 'c) system" where
  "fresh_system g = \<lparr>sy_go = g, sy_run = (\<lambda>_. Idle)\<rparr>"

section \<open>Lemmas\<close>

lemma moves_simps [simp]:
  "sy_go (moves i r g S) = g" "sy_run (moves i r g S) = (sy_run S)(i := r)"
  by (simp_all add: moves_def)

lemma readers_moves:
  "readers_of (moves i r g S) = (if reader r then insert i (readers_of S) else readers_of S - {i})"
  by (auto simp: readers_of_def)

lemma writers_moves:
  "writers_of (moves i r g S) = (if writer r then insert i (writers_of S) else writers_of S - {i})"
  by (auto simp: writers_of_def)

lemma in_readers: "i \<in> readers_of S \<longleftrightarrow> reader (sy_run S i)"
  by (simp add: readers_of_def)

lemma in_writers: "i \<in> writers_of S \<longleftrightarrow> writer (sy_run S i)"
  by (simp add: writers_of_def)

lemma lock_inv_fresh:
  "mu_readers (g_engine g) = 0 \<Longrightarrow> \<not> mu_writer (g_engine g) \<Longrightarrow> handle_live g \<Longrightarrow>
   lock_inv (fresh_system g)"
  by (simp add: lock_inv_def fresh_system_def readers_of_def writers_of_def)

text \<open>While a goroutine holds the read lock no goroutine holds the write lock, and the other way round.\<close>

lemma lock_inv_reader:
  "lock_inv S \<Longrightarrow> reader (sy_run S i) \<Longrightarrow>
   \<not> mu_writer (g_engine (sy_go S)) \<and> 0 < mu_readers (g_engine (sy_go S)) \<and> writers_of S = {}"
proof -
  assume "lock_inv S" "reader (sy_run S i)"
  then have i: "i \<in> readers_of S" and fin: "finite (readers_of S)" and
    "card (readers_of S) = mu_readers (g_engine (sy_go S))" and
    "if mu_writer (g_engine (sy_go S)) then (\<exists>j. writers_of S = {j}) \<and> readers_of S = {}
     else writers_of S = {}"
    by (simp_all add: lock_inv_def in_readers)
  moreover have "0 < card (readers_of S)" using i fin card_gt_0_iff by blast
  ultimately show ?thesis using i by (auto split: if_splits)
qed

lemma lock_inv_writer:
  "lock_inv S \<Longrightarrow> writer (sy_run S i) \<Longrightarrow>
   mu_writer (g_engine (sy_go S)) \<and> writers_of S = {i} \<and> readers_of S = {} \<and>
   mu_readers (g_engine (sy_go S)) = 0"
proof -
  assume "lock_inv S" "writer (sy_run S i)"
  then have "i \<in> writers_of S" "card (readers_of S) = mu_readers (g_engine (sy_go S))"
    "if mu_writer (g_engine (sy_go S)) then (\<exists>j. writers_of S = {j}) \<and> readers_of S = {}
     else writers_of S = {}"
    by (simp_all add: lock_inv_def in_writers)
  then show ?thesis by (auto split: if_splits)
qed

lemma lock_inv_release:
  assumes "lock_inv S" "reader (sy_run S i)" "RUnlock (sy_go S) = Some g"
  shows "lock_inv (moves i Idle g S)"
proof -
  note r = lock_inv_reader [OF assms(1,2)]
  then have g: "g = (sy_go S)\<lparr>g_engine := (g_engine (sy_go S))
      \<lparr>mu_readers := mu_readers (g_engine (sy_go S)) - 1\<rparr>\<rparr>"
    using assms(3) by (simp add: RUnlock_def)
  have "i \<in> readers_of S" using assms(2) by (simp add: in_readers)
  with assms(1) r show ?thesis
    by (simp add: g lock_inv_def readers_moves writers_moves handle_live_def) blast
qed

lemma lock_inv_unlock:
  assumes "lock_inv S" "writer (sy_run S i)" "Unlock (sy_go S) = Some g"
  shows "lock_inv (moves i Idle g S)"
proof -
  note r = lock_inv_writer [OF assms(1,2)]
  then have g: "g = (sy_go S)\<lparr>g_engine := (g_engine (sy_go S))\<lparr>mu_writer := False\<rparr>\<rparr>"
    using assms(3) by (simp add: Unlock_def)
  from assms(1) r show ?thesis
    by (simp add: g lock_inv_def readers_moves writers_moves handle_live_def) blast
qed

lemma lock_inv_call:
  assumes "call_step S S'" "lock_inv S"
  shows "lock_inv S'"
  using assms
proof (induction rule: call_step.induct)
  case (rlock S i g)
  then have "i \<notin> readers_of S" by (simp add: in_readers)
  with rlock show ?case
    by (auto simp: lock_inv_def RLock_def readers_moves writers_moves handle_live_def split: if_splits)
next
  case (refuse S i g)
  then show ?case by (intro lock_inv_release) simp_all
next
  case (enter S i)
  then have r: "insert i (readers_of S) = readers_of S" "writers_of S = {}" "\<not> mu_writer (g_engine (sy_go S))"
    using lock_inv_reader [OF enter.prems, of i] by (simp_all add: in_readers insert_absorb)
  have "lock_inv (moves i (InCall (handle (g_engine (sy_go S)))) (sy_go S) S) \<longleftrightarrow> lock_inv S"
    using r enter.hyps by (simp add: lock_inv_def readers_moves writers_moves)
      (metis goroutine.distinct(9) goroutine.distinct(13))
  with enter.prems show ?case by simp
next
  case (work S i h w)
  let ?S = "S\<lparr>sy_go := (sy_go S)\<lparr>g_world := w\<rparr>\<rparr>"
  have "moves i (InCall h) ((sy_go S)\<lparr>g_world := w\<rparr>) S = ?S"
    using work.hyps(1) by (simp add: moves_def fun_upd_idem)
  moreover have "handle_live (sy_go ?S)"
    using work.prems work.hyps(2) by (auto simp: lock_inv_def handle_live_def)
  moreover have "readers_of ?S = readers_of S" "writers_of ?S = writers_of S"
    by (simp_all add: readers_of_def writers_of_def)
  ultimately show ?case using work.prems by (simp add: lock_inv_def)
next
  case (leave S i h g)
  then show ?case by (intro lock_inv_release) simp_all
qed

lemma lock_inv_close:
  assumes "close_step E S S'" "lock_inv S"
  shows "lock_inv S'"
  using assms
proof (induction rule: close_step.induct)
  case (wlock S i g)
  then have "readers_of S = {}" "writers_of S = {}"
    by (auto simp: lock_inv_def Lock_def split: if_splits)
  with wlock show ?case
    by (auto simp: lock_inv_def Lock_def readers_moves writers_moves handle_live_def split: if_splits)
next
  case (idle_close S i g)
  then show ?case by (intro lock_inv_unlock) simp_all
next
  case (free S i tc res w1 w2)
  from lock_inv_writer [OF free.prems, of i] free.hyps(1)
  have "readers_of S = {}" "writers_of S = {i}" by simp_all
  moreover from this have "\<forall>j. \<not> reader (sy_run S j)" by (auto simp: readers_of_def)
  moreover have "sy_run S j \<noteq> InCall h" for j h using calculation(3) by (metis reader.simps(2))
  ultimately show ?case
    using free lock_inv_writer [OF free.prems, of i]
    by (auto simp: lock_inv_def readers_moves writers_moves handle_live_def)
next
  case (unlock S i g)
  then show ?case by (intro lock_inv_unlock) simp_all
qed

lemma lock_inv_step: "go_step E S S' \<Longrightarrow> lock_inv S \<Longrightarrow> lock_inv S'"
  by (induction rule: go_step.induct) (auto intro: lock_inv_call lock_inv_close)

lemma lock_inv_reachable:
  "(go_step E)\<^sup>*\<^sup>* (fresh_system g) S \<Longrightarrow> mu_readers (g_engine g) = 0 \<Longrightarrow> \<not> mu_writer (g_engine g) \<Longrightarrow>
   handle_live g \<Longrightarrow> lock_inv S"
  by (induction rule: rtranclp_induct) (auto intro: lock_inv_fresh lock_inv_step)

text \<open>A call in C works on a live engine box, and nobody is closing.\<close>

lemma lock_inv_in_call:
  assumes "lock_inv S" "sy_run S i = InCall h"
  shows "\<exists>e. heap (g_world (sy_go S)) h = Some (EngineBox e)" "\<forall>j. \<not> writer (sy_run S j)"
proof -
  from assms have "h = handle (g_engine (sy_go S))" "h \<noteq> null" "handle_live (sy_go S)"
    by (auto simp: lock_inv_def)
  then show "\<exists>e. heap (g_world (sy_go S)) h = Some (EngineBox e)" by (simp add: handle_live_def)
  show "\<forall>j. \<not> writer (sy_run S j)"
    using lock_inv_reader [OF assms(1), of i] assms(2) by (auto simp: in_writers [symmetric])
qed

text \<open>After the handle is cleared it stays cleared: \<^verbatim>\<open>f4kvs_engine_free\<close> is not reached a second time.\<close>

lemma handle_stays_null:
  "go_step E S S' \<Longrightarrow> handle (g_engine (sy_go S)) = null \<Longrightarrow> handle (g_engine (sy_go S')) = null"
  by (induction rule: go_step.induct) (erule call_step.cases close_step.cases,
    auto simp: RLock_def RUnlock_def Lock_def Unlock_def split: if_splits)+

lemma handle_stays_null_star:
  "(go_step E)\<^sup>*\<^sup>* S S' \<Longrightarrow> handle (g_engine (sy_go S)) = null \<Longrightarrow> handle (g_engine (sy_go S')) = null"
  by (induction rule: rtranclp_induct) (auto intro: handle_stays_null)

text \<open>The close in progress finds a live box, so it frees it.\<close>

lemma close_frees:
  assumes "lock_inv S" "sy_run S i = WLocked" "handle (g_engine (sy_go S)) \<noteq> null"
  shows "\<exists>S'. go_step E S S' \<and> sy_run S' i = Freed"
proof -
  let ?h = "handle (g_engine (sy_go S))" and ?w = "g_world (sy_go S)"
  from assms obtain e where h: "heap ?w ?h = Some (EngineBox e)"
    by (auto simp: lock_inv_def handle_live_def)
  then obtain res w1 where 1: "f4kvs_engine_close E 0 ?h ?w = Some (res, w1)" "heap w1 = heap ?w"
    using assms(3) by (simp add: f4kvs_engine_close_def engine_unit_call_refines)
  then have "f4kvs_engine_free E ?h w1 = Some (drop_arc E e (drop_block ?h w1))"
    using h assms(3) by (simp add: f4kvs_engine_free_def)
  from go_step.close [OF close_step.free [OF assms(2,3) 1(1) this]] show ?thesis
    by (intro exI conjI) (assumption, simp)
qed

end
