(* ===== verification/Free_Race.thy ===== *)
theory Free_Race
  imports Memory
begin

text \<open>
  The two free functions of \<^verbatim>\<open>lib.rs\<close> under concurrency. Each registry operation is one critical section
  of its mutex. \<^verbatim>\<open>f4kvs_bytes_free\<close> decides and removes in one section; \<^verbatim>\<open>f4kvs_string_free\<close> asks in one and
  removes in another, and ignores what the removal reports. The step relations interleave calls at
  these sections and record the buffers that were released.
\<close>

section \<open>Interleaved calls\<close>

datatype free_call =
    Start addr
  | Checked addr
  | Owned addr
  | Returned

record 'r free_state =
  fs_reg :: 'r
  fs_call :: "nat \<Rightarrow> free_call"
  fs_released :: "addr list"

definition goes :: "nat \<Rightarrow> free_call \<Rightarrow> 'r \<Rightarrow> 'r free_state \<Rightarrow> 'r free_state" where
  "goes i c r S = S\<lparr>fs_reg := r, fs_call := (fs_call S)(i := c)\<rparr>"

definition releases :: "nat \<Rightarrow> addr \<Rightarrow> 'r free_state \<Rightarrow> 'r free_state" where
  "releases i p S = S\<lparr>fs_call := (fs_call S)(i := Returned), fs_released := p # fs_released S\<rparr>"

inductive string_free_step :: "addr set free_state \<Rightarrow> addr set free_state \<Rightarrow> bool" where
  ignore: "fs_call S i = Start p \<Longrightarrow> \<not> str_is_allocated p (fs_reg S) \<Longrightarrow>
    string_free_step S (goes i Returned (fs_reg S) S)"
| check: "fs_call S i = Start p \<Longrightarrow> str_is_allocated p (fs_reg S) \<Longrightarrow>
    string_free_step S (goes i (Checked p) (fs_reg S) S)"
| unregister: "fs_call S i = Checked p \<Longrightarrow>
    string_free_step S (goes i (Owned p) (snd (str_unregister p (fs_reg S))) S)"
| from_raw: "fs_call S i = Owned p \<Longrightarrow> string_free_step S (releases i p S)"

inductive bytes_free_step :: "(addr \<rightharpoonup> nat) free_state \<Rightarrow> (addr \<rightharpoonup> nat) free_state \<Rightarrow> bool" where
  miss: "fs_call S i = Start p \<Longrightarrow> bytes_unregister p (fs_reg S) = (None, r) \<Longrightarrow>
    bytes_free_step S (goes i Returned r S)"
| hit: "fs_call S i = Start p \<Longrightarrow> bytes_unregister p (fs_reg S) = (Some len, r) \<Longrightarrow>
    bytes_free_step S (goes i (Owned p) r S)"
| from_raw: "fs_call S i = Owned p \<Longrightarrow> bytes_free_step S (releases i p S)"

section \<open>Lemmas\<close>

lemma goes_simps [simp]:
  "fs_reg (goes i c r S) = r" "fs_call (goes i c r S) = (fs_call S)(i := c)"
  "fs_released (goes i c r S) = fs_released S"
  by (simp_all add: goes_def)

lemma releases_simps [simp]:
  "fs_reg (releases i p S) = fs_reg S" "fs_call (releases i p S) = (fs_call S)(i := Returned)"
  "fs_released (releases i p S) = p # fs_released S"
  by (simp_all add: releases_def)

text \<open>A buffer is registered, owned by one call, or released, and never two of these.\<close>

definition once_inv :: "(addr \<rightharpoonup> nat) free_state \<Rightarrow> bool" where
  "once_inv S \<longleftrightarrow>
     distinct (fs_released S) \<and> set (fs_released S) \<inter> dom (fs_reg S) = {} \<and>
     (\<forall>i p. fs_call S i = Owned p \<longrightarrow> p \<notin> dom (fs_reg S) \<and> p \<notin> set (fs_released S)) \<and>
     (\<forall>i j p. fs_call S i = Owned p \<longrightarrow> fs_call S j = Owned p \<longrightarrow> i = j)"

lemma once_inv_step: "bytes_free_step S S' \<Longrightarrow> once_inv S \<Longrightarrow> once_inv S'"
proof (induction rule: bytes_free_step.induct)
  case (miss S i p r)
  then have "dom r \<subseteq> dom (fs_reg S)" using bytes_reg.owned_unregister [of p "fs_reg S"] by (auto split: if_splits)
  with miss show ?case by (fastforce simp: once_inv_def dest: subsetD [OF _ domI])
next
  case (hit S i p len r)
  then have "p \<in> dom (fs_reg S)" "dom r = dom (fs_reg S) - {p}"
    using bytes_reg.owned_unregister [of p "fs_reg S"] bytes_reg.hit_unregister [of p "fs_reg S"]
    by (auto split: if_splits)
  moreover from this hit.prems have "fs_call S j \<noteq> Owned p" "p \<notin> set (fs_released S)" for j
    unfolding once_inv_def by blast+
  ultimately show ?case using hit.prems unfolding once_inv_def by (simp, blast)
next
  case (from_raw S i p)
  then show ?case by (auto simp: once_inv_def)
qed

lemma once_inv_reachable: "bytes_free_step\<^sup>*\<^sup>* S S' \<Longrightarrow> once_inv S \<Longrightarrow> once_inv S'"
  by (induction rule: rtranclp_induct) (auto intro: once_inv_step)

text \<open>All calls at their start, nothing released yet.\<close>

definition calls_start :: "(nat \<Rightarrow> addr) \<Rightarrow> 'r \<Rightarrow> 'r free_state" where
  "calls_start ps r = \<lparr>fs_reg = r, fs_call = (\<lambda>i. Start (ps i)), fs_released = []\<rparr>"

lemma once_inv_start: "once_inv (calls_start ps r)"
  by (simp add: once_inv_def calls_start_def)

end
