(* ===== verification/Go_Nocgo.thy ===== *)
theory Go_Nocgo
  imports Txn
begin

text \<open>
  The package without cgo (\<^verbatim>\<open>go/f4kvs_nocgo.go\<close>): its types are empty structs, its constructors return no
  engine, and its methods keep no state. A call is a value of \<open>stub_call\<close> and \<open>stub\<close> gives its reply.
\<close>

definition ErrCGORequired :: go_error where
  "ErrCGORequired = Errorf ''f4kvs requires cgo'' []"

datatype stub_call =
    New_memory
  | New_persistent bytes
  | Begin_transaction
  | Stub_get bytes
  | Stub_put bytes bytes
  | Stub_get_bytes bytes
  | Stub_put_bytes bytes bytes
  | Stub_delete bytes
  | Stub_all_keys
  | Stub_batch_put "(bytes \<times> bytes) list"
  | Stub_batch_get_values "bytes list"
  | Stub_batch_get_bytes "bytes list"
  | Stub_batch_put_bytes "(bytes \<times> bytes) list"
  | Stub_batch_delete "bytes list"
  | Stub_bulk_import bool
  | Stub_flush
  | Stub_flush_wal
  | Stub_sync
  | Stub_close
  | Stub_txn_get bytes
  | Stub_txn_put bytes bytes
  | Stub_txn_get_bytes bytes
  | Stub_txn_put_bytes bytes bytes
  | Stub_txn_delete bytes
  | Stub_txn_commit
  | Stub_txn_rollback

text \<open>
  The results: a pointer, a string or byte slice, a map or a list of keys, each nil or empty here, with
  the error of the call if its signature has one.
\<close>

datatype stub_reply =
    Nil_engine go_error
  | Nil_transaction
  | Text bytes go_error
  | Nil_bytes go_error
  | Nil_keys
  | Nil_map go_error
  | Only go_error
  | Nothing

fun stub :: "stub_call \<Rightarrow> stub_reply" where
  "stub New_memory = Nil_engine ErrCGORequired"
| "stub (New_persistent path) = Nil_engine ErrCGORequired"
| "stub Begin_transaction = Nil_transaction"
| "stub (Stub_get key) = Text [] ErrCGORequired"
| "stub (Stub_put key val) = Only ErrCGORequired"
| "stub (Stub_get_bytes key) = Nil_bytes ErrCGORequired"
| "stub (Stub_put_bytes key val) = Only ErrCGORequired"
| "stub (Stub_delete key) = Only ErrCGORequired"
| "stub Stub_all_keys = Nil_keys"
| "stub (Stub_batch_put items) = Only ErrCGORequired"
| "stub (Stub_batch_get_values keys) = Nil_map ErrCGORequired"
| "stub (Stub_batch_get_bytes keys) = Nil_map ErrCGORequired"
| "stub (Stub_batch_put_bytes items) = Only ErrCGORequired"
| "stub (Stub_batch_delete keys) = Only ErrCGORequired"
| "stub (Stub_bulk_import on) = Only ErrCGORequired"
| "stub Stub_flush = Only ErrCGORequired"
| "stub Stub_flush_wal = Only ErrCGORequired"
| "stub Stub_sync = Only ErrCGORequired"
| "stub Stub_close = Nothing"
| "stub (Stub_txn_get key) = Text [] ErrCGORequired"
| "stub (Stub_txn_put key val) = Only ErrCGORequired"
| "stub (Stub_txn_get_bytes key) = Nil_bytes ErrCGORequired"
| "stub (Stub_txn_put_bytes key val) = Only ErrCGORequired"
| "stub (Stub_txn_delete key) = Only ErrCGORequired"
| "stub Stub_txn_commit = Only ErrCGORequired"
| "stub Stub_txn_rollback = Only ErrCGORequired"

section \<open>Lemmas\<close>

fun reply_error :: "stub_reply \<Rightarrow> go_error option" where
  "reply_error (Nil_engine err) = Some err"
| "reply_error Nil_transaction = None"
| "reply_error (Text s err) = Some err"
| "reply_error (Nil_bytes err) = Some err"
| "reply_error Nil_keys = None"
| "reply_error (Nil_map err) = Some err"
| "reply_error (Only err) = Some err"
| "reply_error Nothing = None"

text \<open>
  Every call that can report an error reports the missing cgo; the listing of keys cannot, and looks like
  the listing of an empty store.
\<close>

lemma stub_reports:
  "reply_error (stub c) = Some ErrCGORequired \<or>
   c \<in> {Begin_transaction, Stub_all_keys, Stub_close} \<and> reply_error (stub c) = None"
  by (cases c) auto

text \<open>The error is none of those that the callers of the binding test for.\<close>

lemma ErrCGORequired_new: "ErrCGORequired \<notin> {ErrNotFound, ErrClosed, ErrTxnCommitted, ErrTxnRolledBack}"
  by (simp add: ErrCGORequired_def)

end
