(* ===== verification/Go_Strings.thy ===== *)
theory Go_Strings
  imports Prelude "HOL-Library.Sublist"
begin

text \<open>
  The functions of Go's packages \<^verbatim>\<open>strings\<close> and \<^verbatim>\<open>strconv\<close> that the benchmark harness uses, on byte strings:
  \<^verbatim>\<open>TrimSpace\<close>, \<^verbatim>\<open>Split\<close>, \<^verbatim>\<open>Join\<close>, \<^verbatim>\<open>Index\<close>, \<^verbatim>\<open>Contains\<close> and \<^verbatim>\<open>Itoa\<close>, with the round trip of \<^verbatim>\<open>Split\<close> and \<^verbatim>\<open>Join\<close>.
\<close>

section \<open>Trimming\<close>

text \<open>The UTF-8 encodings of the code points for which \<^verbatim>\<open>unicode.IsSpace\<close> holds.\<close>

definition space_codes :: "bytes list" where
  "space_codes =
     map (map char_of)
       ([[9], [10], [11], [12], [13], [32], [0xC2, 0x85], [0xC2, 0xA0], [0xE1, 0x9A, 0x80],
         [0xE2, 0x80, 0xA8], [0xE2, 0x80, 0xA9], [0xE2, 0x80, 0xAF], [0xE2, 0x81, 0x9F],
         [0xE3, 0x80, 0x80]] @
        map (\<lambda>n. [0xE2, 0x80, n]) [0x80..<0x8B :: nat])"

lemma space_codes_nonempty: "sp \<in> set space_codes \<Longrightarrow> sp \<noteq> []"
  by (auto simp: space_codes_def)

text \<open>Remove codes from the front as long as one is there; the codes must not be empty.\<close>

function strip_front :: "bytes list \<Rightarrow> bytes \<Rightarrow> bytes" where
  "strip_front codes s =
     (case find (\<lambda>sp. sp \<noteq> [] \<and> prefix sp s) codes of
        None \<Rightarrow> s
      | Some sp \<Rightarrow> strip_front codes (drop (length sp) s))"
  by auto
termination
  by (relation "measure (\<lambda>(codes, s). length s)") (auto simp: find_Some_iff prefix_def)

declare strip_front.simps [simp del]

definition TrimSpace :: "bytes \<Rightarrow> bytes" where
  "TrimSpace s = rev (strip_front (map rev space_codes) (rev (strip_front space_codes s)))"

section \<open>Splitting and joining\<close>

fun Split :: "bytes \<Rightarrow> char \<Rightarrow> bytes list" where
  "Split [] sep = [[]]"
| "Split (c # s) sep =
     (if c = sep then [] # Split s sep
      else case Split s sep of [] \<Rightarrow> [[c]] | p # ps \<Rightarrow> (c # p) # ps)"

fun Join :: "bytes list \<Rightarrow> bytes \<Rightarrow> bytes" where
  "Join [] sep = []"
| "Join [p] sep = p"
| "Join (p # q # ps) sep = p @ sep @ Join (q # ps) sep"

text \<open>\<^verbatim>\<open>strings.Index\<close>, with \<^const>\<open>None\<close> for -1.\<close>

fun Index :: "bytes \<Rightarrow> bytes \<Rightarrow> nat option" where
  "Index [] sub = (if sub = [] then Some 0 else None)"
| "Index (c # s) sub = (if prefix sub (c # s) then Some 0 else map_option Suc (Index s sub))"

definition Contains :: "bytes \<Rightarrow> bytes \<Rightarrow> bool" where
  "Contains s sub \<longleftrightarrow> Index s sub \<noteq> None"

definition Itoa :: "int \<Rightarrow> bytes" where
  "Itoa i = show_int i"

section \<open>Lemmas\<close>

lemma Split_nonempty [simp]: "Split s sep \<noteq> []"
  by (cases s) (auto split: list.splits)

lemma Join_Split: "Join (Split s sep) [sep] = s"
proof (induction s)
  case Nil
  then show ?case by simp
next
  case (Cons c s)
  obtain p ps where ps: "Split s sep = p # ps" by (cases "Split s sep") auto
  with Cons show ?case by (cases ps) auto
qed

lemma Split_no_sep: "p \<in> set (Split s sep) \<Longrightarrow> sep \<notin> set p"
proof (induction s arbitrary: p)
  case Nil
  then show ?case by simp
next
  case (Cons c s)
  obtain q qs where qs: "Split s sep = q # qs" by (cases "Split s sep") auto
  with Cons show ?case by (auto split: if_splits)
qed

lemma Split_append: "sep \<notin> set p \<Longrightarrow> Split (p @ sep # s) sep = p # Split s sep"
  by (induction p) auto

lemma Split_single: "sep \<notin> set p \<Longrightarrow> Split p sep = [p]"
  by (induction p) auto

lemma Split_Join: "ps \<noteq> [] \<Longrightarrow> \<forall>p\<in>set ps. sep \<notin> set p \<Longrightarrow> Split (Join ps [sep]) sep = ps"
  by (induction ps "[sep]" rule: Join.induct) (simp_all add: Split_single Split_append)

lemma Index_sound:
  "Index s sub = Some i \<Longrightarrow> prefix sub (drop i s) \<and> i \<le> length s \<and> (\<forall>j<i. \<not> prefix sub (drop j s))"
proof (induction s sub arbitrary: i rule: Index.induct)
  case (1 sub)
  then show ?case by (auto split: if_splits)
next
  case (2 c s sub)
  then show ?case
    by (auto simp: less_Suc_eq_0_disj split: if_splits)
qed

text \<open>Nothing is trimmed from a string that starts and ends with a graphic ASCII character.\<close>

definition graphic :: "char \<Rightarrow> bool" where
  "graphic c \<longleftrightarrow> 33 \<le> (of_char c :: nat) \<and> (of_char c :: nat) < 128"

lemma space_codes_ends:
  assumes "sp \<in> set space_codes"
  shows "\<not> graphic (hd sp)" "\<not> graphic (last sp)"
  using assms by (auto simp: space_codes_def graphic_def)

lemma strip_front_id:
  assumes "s \<noteq> []" "\<forall>sp\<in>set codes. sp \<noteq> [] \<longrightarrow> hd sp \<noteq> hd s"
  shows "strip_front codes s = s"
proof -
  have "\<not> (sp \<noteq> [] \<and> prefix sp s)" if "sp \<in> set codes" for sp
    using assms that by (auto simp: prefix_def)
  then have "find (\<lambda>sp. sp \<noteq> [] \<and> prefix sp s) codes = None" by (simp add: find_None_iff)
  then show ?thesis by (simp add: strip_front.simps [of codes s])
qed

lemma TrimSpace_id:
  assumes "s \<noteq> []" "graphic (hd s)" "graphic (last s)"
  shows "TrimSpace s = s"
proof -
  have "strip_front space_codes s = s"
    using assms by (intro strip_front_id) (auto dest: space_codes_ends(1))
  moreover have "strip_front (map rev space_codes) (rev s) = rev s"
    using assms by (intro strip_front_id) (auto simp: hd_rev dest: space_codes_ends(2))
  ultimately show ?thesis by (simp add: TrimSpace_def)
qed

lemma TrimSpace_Nil [simp]: "TrimSpace [] = []"
proof -
  have "strip_front codes [] = []" for codes
  proof -
    have "find (\<lambda>sp. sp \<noteq> [] \<and> prefix sp []) codes = None" by (auto simp: find_None_iff)
    then show ?thesis by (simp add: strip_front.simps [of codes "[]"])
  qed
  then show ?thesis by (simp add: TrimSpace_def)
qed

lemma TrimSpace_blank:
  assumes "s \<noteq> []" "graphic (hd s)" "graphic (last s)"
  shows "TrimSpace (CHR '' '' # s) = s"
proof -
  have "find (\<lambda>sp. sp \<noteq> [] \<and> prefix sp (CHR '' '' # s)) space_codes = Some '' ''"
    by (simp add: space_codes_def char_of_def bit_iff_odd)
  then have "strip_front space_codes (CHR '' '' # s) = strip_front space_codes s"
    by (simp add: strip_front.simps [of space_codes "CHR '' '' # s"])
  with TrimSpace_id [OF assms] show ?thesis by (simp add: TrimSpace_def)
qed

end
