(* ===== verification/Bench_Profiles.thy ===== *)
theory Bench_Profiles
  imports Go_Strings Go_Engine
begin

text \<open>
  The choice of durability profiles of the benchmark harness (\<^verbatim>\<open>bench/embed_vs_sqlite/main.go\<close>): parsing
  of the \<^verbatim>\<open>-profiles\<close> flag, the selection it denotes, and the DSN of the SQLite peer.
\<close>

section \<open>Profiles\<close>

definition knownProfiles :: "bytes list" where
  "knownProfiles =
     [''f4kvs_wal_segment'', ''f4kvs_wal_frame'', ''f4kvs_wal_indexed'', ''f4kvs_group_commit_1ms'',
      ''f4kvs_group_commit_10ms'', ''f4kvs_group_commit_idle'', ''sqlite_wal_full'', ''sqlite_wal_normal'']"

definition productProfiles :: "bytes list" where
  "productProfiles = [''f4kvs_wal_segment'', ''sqlite_wal_full'']"

definition durableCompareProfiles :: "bytes list" where
  "durableCompareProfiles =
     [''f4kvs_wal_segment'', ''f4kvs_group_commit_1ms'', ''sqlite_wal_full'', ''sqlite_wal_normal'']"

text \<open>A Go \<^verbatim>\<open>map[string]bool\<close> whose entries are all true, as the list of its keys.\<close>

type_synonym profile_set = "bytes list"

definition set_profile :: "bytes \<Rightarrow> profile_set \<Rightarrow> profile_set" where
  "set_profile p out = (if p \<in> set out then out else out @ [p])"

definition set_profiles :: "bytes list \<Rightarrow> profile_set \<Rightarrow> profile_set" where
  "set_profiles ps out = fold set_profile ps out"

definition unknown_profile :: "bytes \<Rightarrow> go_error" where
  "unknown_profile name =
     Errorf ''unknown profile %q (want all|product|durable_compare|%s)'' [name, Join knownProfiles '','']"

text \<open>The loop over the comma-separated parts.\<close>

fun parse_parts :: "bytes list \<Rightarrow> profile_set \<Rightarrow> go_error + profile_set" where
  "parse_parts [] out =
     (if out = [] then Inl (Errorf ''empty profiles after parse'' []) else Inr out)"
| "parse_parts (part # parts) out =
     (let name = TrimSpace part in
      if name = [] then parse_parts parts out
      else if name = ''all'' then Inr [''all'']
      else if name = ''product'' then parse_parts parts (set_profiles productProfiles out)
      else if name = ''durable_compare'' then parse_parts parts (set_profiles durableCompareProfiles out)
      else if name \<notin> set knownProfiles then Inl (unknown_profile name)
      else parse_parts parts (set_profile name out))"

definition parseProfiles :: "bytes \<Rightarrow> go_error + profile_set" where
  "parseProfiles s0 =
     (let s = TrimSpace s0 in
      if s = [] \<or> s = ''all'' then Inr [''all'']
      else if s = ''product'' then Inr (set_profiles productProfiles [])
      else if s = ''durable_compare'' then Inr (set_profiles durableCompareProfiles [])
      else parse_parts (Split s CHR '','') [])"

definition wantProfile :: "profile_set \<Rightarrow> bytes \<Rightarrow> bool" where
  "wantProfile want name \<longleftrightarrow> ''all'' \<in> set want \<or> name \<in> set want"

definition selectedProfileNames :: "profile_set \<Rightarrow> bytes list" where
  "selectedProfileNames want =
     (if ''all'' \<in> set want then knownProfiles else filter (\<lambda>p. p \<in> set want) knownProfiles)"

definition usesGroupCommit :: "OpenOptions option \<Rightarrow> bool" where
  "usesGroupCommit opts =
     (case opts of
        None \<Rightarrow> False
      | Some op \<Rightarrow> GroupCommitEnabled op \<or> WalDurabilityOpt op = WalDurabilityAmortized)"

definition sqliteDSN :: "bytes \<Rightarrow> bytes \<Rightarrow> bytes" where
  "sqliteDSN journal synchronous =
     ''file:kv?_pragma=journal_mode('' @ journal @ '')&_pragma=synchronous('' @ synchronous @
     '')&_pragma=foreign_keys(1)&_pragma=busy_timeout(5000)''"

section \<open>Lemmas\<close>

lemma set_profile_set [simp]: "set (set_profile p out) = insert p (set out)"
  by (auto simp: set_profile_def)

lemma set_profiles_set [simp]: "set (set_profiles ps out) = set ps \<union> set out"
  unfolding set_profiles_def by (induction ps arbitrary: out) auto

lemma set_profile_distinct: "distinct out \<Longrightarrow> distinct (set_profile p out)"
  by (simp add: set_profile_def)

lemma set_profiles_distinct: "distinct out \<Longrightarrow> distinct (set_profiles ps out)"
  unfolding set_profiles_def by (induction ps arbitrary: out) (auto simp: set_profile_distinct)

lemma presets_known: "set productProfiles \<subseteq> set knownProfiles" "set durableCompareProfiles \<subseteq> set knownProfiles"
  by (simp_all add: productProfiles_def durableCompareProfiles_def knownProfiles_def)

lemma all_unknown: "''all'' \<notin> set knownProfiles" "[] \<notin> set knownProfiles"
  by (simp_all add: knownProfiles_def)

text \<open>What one part of the flag adds to the set.\<close>

definition part_profiles :: "bytes \<Rightarrow> bytes set" where
  "part_profiles name =
     (if name = ''product'' then set productProfiles
      else if name = ''durable_compare'' then set durableCompareProfiles
      else if name = [] then {} else {name})"

definition part_valid :: "bytes \<Rightarrow> bool" where
  "part_valid name \<longleftrightarrow>
     name = [] \<or> name = ''product'' \<or> name = ''durable_compare'' \<or> name \<in> set knownProfiles"

lemma part_profiles_known: "part_valid name \<Longrightarrow> part_profiles name \<subseteq> set knownProfiles"
  using presets_known by (auto simp: part_valid_def part_profiles_def)

text \<open>A part list without \<^verbatim>\<open>all\<close>: every part must be valid and at least one must name something.\<close>

lemma parse_parts_valid:
  assumes "\<forall>p\<in>set parts. part_valid (TrimSpace p)"
  shows "\<exists>out'. parse_parts parts out =
       (if out' = [] then Inl (Errorf ''empty profiles after parse'' []) else Inr out') \<and>
     set out' = set out \<union> (\<Union>p\<in>set parts. part_profiles (TrimSpace p)) \<and>
     (distinct out \<longrightarrow> distinct out')"
  using assms
proof (induction parts arbitrary: out)
  case Nil
  then show ?case by (intro exI [of _ out]) simp
next
  case (Cons part parts)
  let ?n = "TrimSpace part"
  have na: "?n \<noteq> ''all''" using Cons.prems all_unknown by (auto simp: part_valid_def)
  define out1 where "out1 =
    (if ?n = [] then out
     else if ?n = ''product'' then set_profiles productProfiles out
     else if ?n = ''durable_compare'' then set_profiles durableCompareProfiles out
     else set_profile ?n out)"
  have step: "parse_parts (part # parts) out = parse_parts parts out1"
    using Cons.prems na by (auto simp: out1_def part_valid_def Let_def)
  have out1: "set out1 = set out \<union> part_profiles ?n" "distinct out \<longrightarrow> distinct out1"
    by (auto simp: out1_def part_profiles_def set_profile_distinct set_profiles_distinct)
  from Cons.prems have "\<forall>p\<in>set parts. part_valid (TrimSpace p)" by simp
  from Cons.IH [OF this, of out1] obtain out' where
    "parse_parts parts out1 =
       (if out' = [] then Inl (Errorf ''empty profiles after parse'' []) else Inr out')"
    "set out' = set out1 \<union> (\<Union>p\<in>set parts. part_profiles (TrimSpace p))"
    "distinct out1 \<longrightarrow> distinct out'" by blast
  with step out1 show ?case by (intro exI [of _ out']) (simp add: Un_assoc)
qed

lemma parse_parts_all:
  "\<forall>p\<in>set ps. part_valid (TrimSpace p) \<Longrightarrow> TrimSpace a = ''all'' \<Longrightarrow>
   parse_parts (ps @ a # rest) out = Inr [''all'']"
  using all_unknown by (induction ps arbitrary: out) (auto simp: part_valid_def Let_def)

lemma parse_parts_bad:
  "\<forall>p\<in>set ps. part_valid (TrimSpace p) \<Longrightarrow> \<not> part_valid (TrimSpace b) \<Longrightarrow> TrimSpace b \<noteq> ''all'' \<Longrightarrow>
   parse_parts (ps @ b # rest) out = Inl (unknown_profile (TrimSpace b))"
  using all_unknown by (induction ps arbitrary: out) (auto simp: part_valid_def Let_def)

lemma find_map_SomeE:
  assumes "find P (map f xs) = Some y"
  obtains ps x rest where "xs = ps @ x # rest" "f x = y" "P y" "\<forall>p\<in>set ps. \<not> P (f p)"
  using assms
proof (induction xs arbitrary: thesis)
  case Nil
  then show ?case by simp
next
  case (Cons x xs)
  show ?case
  proof (cases "P (f x)")
    case True
    with Cons.prems show ?thesis by (intro Cons.prems(1) [of "[]" x xs]) auto
  next
    case False
    with Cons.prems(2) obtain ps b rest where "xs = ps @ b # rest" "f b = y" "P y" "\<forall>p\<in>set ps. \<not> P (f p)"
      using Cons.IH by auto
    with False show ?thesis by (intro Cons.prems(1) [of "x # ps" b rest]) auto
  qed
qed

text \<open>
  What the flag denotes, as a function of its comma-separated parts without the space around them: the
  first part that is not valid decides; without one the parts are united.
\<close>

definition flag_denotes :: "bytes list \<Rightarrow> go_error + profile_set \<Rightarrow> bool" where
  "flag_denotes parts r \<longleftrightarrow>
     (case find (\<lambda>p. \<not> part_valid p) parts of
        Some p \<Rightarrow> r = (if p = ''all'' then Inr [''all''] else Inl (unknown_profile p))
      | None \<Rightarrow>
          if \<forall>p\<in>set parts. p = [] then r = Inl (Errorf ''empty profiles after parse'' [])
          else \<exists>out. r = Inr out \<and> distinct out \<and> set out = (\<Union>p\<in>set parts. part_profiles p))"

lemma part_profiles_empty: "part_profiles p = {} \<longleftrightarrow> p = []"
  by (simp add: part_profiles_def productProfiles_def durableCompareProfiles_def)

lemma parse_parts_denotes: "flag_denotes (map TrimSpace parts) (parse_parts parts [])"
proof (cases "find (\<lambda>p. \<not> part_valid p) (map TrimSpace parts)")
  case None
  then have v: "\<forall>p\<in>set parts. part_valid (TrimSpace p)" by (auto simp: find_None_iff)
  from parse_parts_valid [OF v, of "[]"] obtain out where
    o: "parse_parts parts [] = (if out = [] then Inl (Errorf ''empty profiles after parse'' []) else Inr out)"
      "set out = (\<Union>p\<in>set parts. part_profiles (TrimSpace p))" "distinct out" by auto
  have "out = [] \<longleftrightarrow> (\<forall>p\<in>set parts. TrimSpace p = [])"
    unfolding part_profiles_empty [symmetric] using o(2) by auto
  with None o show ?thesis by (simp add: flag_denotes_def)
next
  case (Some y)
  then obtain ps a rest where "parts = ps @ a # rest" "TrimSpace a = y" "\<not> part_valid y"
      "\<forall>p\<in>set ps. \<not> \<not> part_valid (TrimSpace p)" by (rule find_map_SomeE)
  with Some parse_parts_all [of ps a rest "[]"] parse_parts_bad [of ps a rest "[]"] show ?thesis
    by (simp add: flag_denotes_def)
qed

text \<open>The early returns of \<^verbatim>\<open>parseProfiles\<close> agree with the loop, but for the empty flag.\<close>

lemma parseProfiles_denotes:
  "TrimSpace s \<noteq> [] \<Longrightarrow> flag_denotes (map TrimSpace (Split (TrimSpace s) CHR '','')) (parseProfiles s)"
proof -
  assume n: "TrimSpace s \<noteq> []"
  have t: "TrimSpace ''all'' = ''all''" "TrimSpace ''product'' = ''product''"
    "TrimSpace ''durable_compare'' = ''durable_compare''" by (simp_all add: TrimSpace_id graphic_def)
  show ?thesis
  proof (cases "TrimSpace s \<in> {''all'', ''product'', ''durable_compare''}")
    case True
    then consider "TrimSpace s = ''all''" | "TrimSpace s = ''product''" | "TrimSpace s = ''durable_compare''"
      by blast
    then have "parseProfiles s = parse_parts [TrimSpace s] []" "Split (TrimSpace s) CHR '','' = [TrimSpace s]"
      by (cases; simp add: parseProfiles_def Let_def t productProfiles_def durableCompareProfiles_def
          set_profiles_def set_profile_def)+
    then show ?thesis using parse_parts_denotes [of "[TrimSpace s]"] by simp
  next
    case False
    with n have "parseProfiles s = parse_parts (Split (TrimSpace s) CHR '','') []"
      by (simp add: parseProfiles_def Let_def del: parse_parts.simps)
    then show ?thesis using parse_parts_denotes by simp
  qed
qed

text \<open>What a parsed flag may be: everything, or a non-empty set of known profiles.\<close>

definition profile_choice :: "profile_set \<Rightarrow> bool" where
  "profile_choice out \<longleftrightarrow> out = [''all''] \<or> (out \<noteq> [] \<and> distinct out \<and> set out \<subseteq> set knownProfiles)"

lemma parse_parts_choice:
  assumes "parse_parts parts out = Inr out'" "distinct out" "set out \<subseteq> set knownProfiles"
  shows "profile_choice out'"
  using assms presets_known
  by (induction parts out rule: parse_parts.induct)
    (auto simp: profile_choice_def Let_def set_profile_distinct set_profiles_distinct split: if_splits)

lemma parseProfiles_choice: "parseProfiles s = Inr out \<Longrightarrow> profile_choice out"
  using presets_known parse_parts_choice [of "Split (TrimSpace s) CHR '',''" "[]" out]
  by (auto simp: parseProfiles_def Let_def profile_choice_def set_profiles_distinct
      split: if_splits) (auto simp: productProfiles_def durableCompareProfiles_def set_profiles_def set_profile_def)

lemma selected_want:
  "profile_choice out \<Longrightarrow>
   selectedProfileNames out = filter (wantProfile out) knownProfiles \<and> selectedProfileNames out \<noteq> [] \<and>
   distinct (selectedProfileNames out)"
proof -
  assume "profile_choice out"
  then consider "out = [''all'']" | "out \<noteq> []" "set out \<subseteq> set knownProfiles" "''all'' \<notin> set out"
    using all_unknown by (auto simp: profile_choice_def)
  then show ?thesis
  proof cases
    case 1
    then show ?thesis by (simp add: selectedProfileNames_def wantProfile_def knownProfiles_def)
  next
    case 2
    then obtain p where "p \<in> set out" "p \<in> set knownProfiles" by (cases out) auto
    then have "filter (\<lambda>p. p \<in> set out) knownProfiles \<noteq> []" by (auto simp: filter_empty_conv)
    moreover have "distinct knownProfiles" by (simp add: knownProfiles_def)
    ultimately show ?thesis using 2 by (simp add: selectedProfileNames_def wantProfile_def [abs_def])
  qed
qed

end
