(* ===== verification/Bench_Batch.thy ===== *)
theory Bench_Batch
  imports Bench_Profiles Go_Txn
begin

text \<open>
  Bulk loading in the benchmark harness (\<^verbatim>\<open>bench/embed_vs_sqlite/main.go\<close>): the slice size of a load,
  the open options that let the engine accept a slice, and the loop that writes the slices. The
  variable \<^verbatim>\<open>globalBatchPutSize\<close> is a parameter. The loop relies on the engine through \<open>kv_engine\<close>.
\<close>

section \<open>Slice sizes\<close>

definition engineMaxBatchDefault :: int where
  "engineMaxBatchDefault = 10000"

definition resolveBatchPutSize :: "int \<Rightarrow> int \<Rightarrow> int" where
  "resolveBatchPutSize nKeys sz = (if sz \<le> 0 \<or> nKeys \<le> sz then nKeys else sz)"

text \<open>The zero value of \<^verbatim>\<open>f4kvs.OpenOptions\<close>.\<close>

definition zero_options :: OpenOptions where
  "zero_options =
     \<lparr>GroupCommitEnabled = False, GroupCommitMaxWaitMs = 0, GroupCommitMaxBatchSz = 0,
      GroupCommitWaitDurable = False, WalEngineOpt = 0, WalDurabilityOpt = 0,
      GroupCommitIdleFlushMs = 0, MaxBatchSize = 0, CompactionBackground = 0,
      MaxSSTablesPerLevel = 0, MemtableMaxSize = 0, SstableTargetSize = 0, SstableMaxSize = 0\<rparr>"

definition openOptsForProfile :: "int \<Rightarrow> OpenOptions option \<Rightarrow> int \<Rightarrow> OpenOptions option" where
  "openOptsForProfile globalBatchPutSize base nKeys =
     (let need = resolveBatchPutSize nKeys globalBatchPutSize in
      if need \<le> engineMaxBatchDefault \<and>
         (case base of None \<Rightarrow> True | Some op \<Rightarrow> MaxBatchSize op = 0)
      then base
      else
        let opts = (case base of None \<Rightarrow> zero_options | Some op \<Rightarrow> op) in
        Some (if MaxBatchSize opts = 0 \<or> uint (MaxBatchSize opts) < need
              then opts\<lparr>MaxBatchSize := word_of_int need\<rparr> else opts))"

section \<open>Writing in slices\<close>

text \<open>
  One slice becomes a Go map from its keys to the payload, which the engine visits in an order \<open>rng\<close>
  of its own. A step of 0 would not advance, which is the value \<^const>\<open>None\<close>.
\<close>

definition slice_items :: "(bytes list \<Rightarrow> bytes list) \<Rightarrow> bytes list \<Rightarrow> bytes \<Rightarrow> (bytes \<times> bytes) list" where
  "slice_items rng keys payload = map (\<lambda>k. (k, payload)) (rng (remdups keys))"

function put_slices ::
  "((bytes \<times> bytes) list \<Rightarrow> 's \<Rightarrow> (go_error option \<times> 's) option) \<Rightarrow> (bytes list \<Rightarrow> bytes list) \<Rightarrow>
   nat \<Rightarrow> bytes list \<Rightarrow> bytes \<Rightarrow> 's \<Rightarrow> (go_error option \<times> 's) option" where
  "put_slices batch_put rng step keys payload s =
     (if keys = [] then Some (None, s)
      else if step = 0 then None
      else case batch_put (slice_items rng (take step keys) payload) s of
             None \<Rightarrow> None
           | Some (Some err, s1) \<Rightarrow> Some (Some err, s1)
           | Some (None, s1) \<Rightarrow> put_slices batch_put rng step (drop step keys) payload s1)"
  by pat_completeness auto
termination
  by (relation "measure (\<lambda>(bp, rng, step, keys, payload, s). length keys)") auto

declare put_slices.simps [simp del]

definition batchPutBytesChunked ::
  "int \<Rightarrow> ((bytes \<times> bytes) list \<Rightarrow> 's \<Rightarrow> (go_error option \<times> 's) option) \<Rightarrow>
   (bytes list \<Rightarrow> bytes list) \<Rightarrow> bytes list \<Rightarrow> bytes \<Rightarrow> 's \<Rightarrow> (go_error option \<times> 's) option" where
  "batchPutBytesChunked globalBatchPutSize batch_put rng keys payload s =
     (let step = resolveBatchPutSize (int (length keys)) globalBatchPutSize;
          step = (if step \<le> 0 then int (length keys) else step) in
      put_slices batch_put rng (nat step) keys payload s)"

section \<open>Lemmas\<close>

lemma resolve_bounds:
  "0 \<le> n \<Longrightarrow> 0 \<le> resolveBatchPutSize n sz \<and> resolveBatchPutSize n sz \<le> n \<and>
     (0 < n \<longrightarrow> 0 < resolveBatchPutSize n sz) \<and>
     (0 < sz \<longrightarrow> resolveBatchPutSize n sz \<le> sz)"
  by (auto simp: resolveBatchPutSize_def)

text \<open>An order in which a Go map with the given keys is visited.\<close>

definition visits :: "(bytes list \<Rightarrow> bytes list) \<Rightarrow> bool" where
  "visits rng \<longleftrightarrow> (\<forall>ks. distinct ks \<longrightarrow> distinct (rng ks) \<and> set (rng ks) = set ks)"

lemma slice_items_props:
  assumes "visits rng" "keys \<noteq> []"
  shows "slice_items rng keys v \<noteq> []" "distinct (map fst (slice_items rng keys v))"
    "fst ` set (slice_items rng keys v) = set keys"
    "map_of (slice_items rng keys v) = (\<lambda>k. if k \<in> set keys then Some v else None)"
    "length (slice_items rng keys v) \<le> length keys"
proof -
  from assms(1) have r: "distinct (rng (remdups keys))" "set (rng (remdups keys)) = set keys"
    by (simp_all add: visits_def)
  then have "rng (remdups keys) \<noteq> []" using assms(2) by auto
  then show "slice_items rng keys v \<noteq> []" by (simp add: slice_items_def)
  show "distinct (map fst (slice_items rng keys v))" using r by (simp add: slice_items_def comp_def)
  show "fst ` set (slice_items rng keys v) = set keys" using r by (force simp: slice_items_def)
  show "map_of (slice_items rng keys v) = (\<lambda>k. if k \<in> set keys then Some v else None)"
    using r(2) map_of_map_restrict [of "\<lambda>_. v" "rng (remdups keys)"]
    by (auto simp: slice_items_def restrict_map_def)
  have "length (rng (remdups keys)) = card (set keys)" using r by (metis distinct_card)
  then show "length (slice_items rng keys v) \<le> length keys"
    by (simp add: slice_items_def card_length)
qed

context kv_engine
begin

text \<open>
  A load returns. When it succeeds every key has the payload and nothing else changed; when a slice
  is refused, the keys outside the list are as before.
\<close>

lemma put_slices_total:
  assumes "visits rng" "0 < step" "ok s" "\<forall>k\<in>set keys. key_ok k"
  shows "\<exists>r s'. put_slices batch_put rng step keys v s = Some (r, s') \<and> ok s' \<and>
     (\<forall>k. k \<notin> set keys \<longrightarrow> contents s' k = contents s k) \<and>
     (r = None \<longrightarrow> (\<forall>k\<in>set keys. contents s' k = Some v))"
  using assms(3,4)
proof (induction "length keys" arbitrary: keys s rule: less_induct)
  case less
  show ?case
  proof (cases "keys = []")
    case True
    with less.prems show ?thesis by (simp add: put_slices.simps)
  next
    case False
    let ?h = "take step keys" and ?t = "drop step keys"
    have h: "?h \<noteq> []" using False assms(2) by simp
    have un: "set keys = set ?h \<union> set ?t" by (metis append_take_drop_id set_append)
    note it = slice_items_props [OF assms(1) h, of v]
    have "\<forall>k\<in>fst ` set (slice_items rng ?h v). key_ok k" unfolding it(3) using less.prems(2) un by simp
    from batch_put_total [OF less.prems(1) it(1,2) this] obtain r1 s1 where
      1: "batch_put (slice_items rng ?h v) s = Some (r1, s1)" "ok s1"
        "\<forall>k. k \<notin> set ?h \<longrightarrow> contents s1 k = contents s k"
        "r1 = None \<longrightarrow> contents s1 = contents s ++ (\<lambda>k. if k \<in> set ?h then Some v else None)"
      unfolding it(3,4) by auto
    show ?thesis
    proof (cases r1)
      case (Some err)
      with 1 un False assms(2) show ?thesis by (auto simp: put_slices.simps [of _ _ _ keys])
    next
      case None
      have "length ?t < length keys" using False assms(2) by simp
      from less.hyps [OF this 1(2)] less.prems(2) un obtain r s' where
        2: "put_slices batch_put rng step ?t v s1 = Some (r, s')" "ok s'"
          "\<forall>k. k \<notin> set ?t \<longrightarrow> contents s' k = contents s1 k"
          "r = None \<longrightarrow> (\<forall>k\<in>set ?t. contents s' k = Some v)" by auto
      have "\<forall>k\<in>set ?h. contents s1 k = Some v" using 1(4) None by simp
      then have "r = None \<longrightarrow> (\<forall>k\<in>set keys. contents s' k = Some v)" using 2(3,4) un by (metis UnE)
      moreover have "\<forall>k. k \<notin> set keys \<longrightarrow> contents s' k = contents s k" using 1(3) 2(3) un by simp
      ultimately show ?thesis
        using None False assms(2) 1(1) 2(1,2) by (simp add: put_slices.simps [of _ _ _ keys])
    qed
  qed
qed

end

lemma chunked_step:
  "batchPutBytesChunked sz bp rng keys v s =
     put_slices bp rng (nat (resolveBatchPutSize (int (length keys)) sz)) keys v s"
  by (cases "keys = []") (auto simp: batchPutBytesChunked_def resolveBatchPutSize_def put_slices.simps [of _ _ _ "[]"])

text \<open>
  The limit the engine is opened with: the default of the library without options or with a zero
  field, the field otherwise. The conversion to 32 bits keeps the size as long as it fits.
\<close>

definition batch_limit :: "nat \<Rightarrow> OpenOptions option \<Rightarrow> nat" where
  "batch_limit dflt opts =
     (case opts of
        None \<Rightarrow> dflt
      | Some op \<Rightarrow> if MaxBatchSize op = 0 then dflt else unat (MaxBatchSize op))"

lemma batch_limit_config:
  "cfg_max_batch_size (apply_open_options at (map_option copts_of opts) c) =
     batch_limit (cfg_max_batch_size c) opts"
proof (cases opts)
  case None
  then show ?thesis by (simp add: apply_open_options_def batch_limit_def)
next
  case (Some op)
  then show ?thesis by (simp add: apply_max_batch_size batch_limit_def copts_of_def)
qed

lemma open_opts_limit:
  assumes "0 \<le> n" "n < 2 ^ 32"
  shows "resolveBatchPutSize n sz \<le> int (batch_limit 10000 (openOptsForProfile sz base n))"
proof -
  let ?need = "resolveBatchPutSize n sz"
  have need: "0 \<le> ?need" "?need < 2 ^ 32" using resolve_bounds [OF assms(1), of sz] assms(2) by auto
  then have u: "uint (word_of_int ?need :: 32 word) = ?need"
    by (simp add: uint_word_of_int)
  show ?thesis
  proof (cases "?need \<le> engineMaxBatchDefault \<and> (case base of None \<Rightarrow> True | Some op \<Rightarrow> MaxBatchSize op = 0)")
    case True
    then show ?thesis
      by (auto simp: openOptsForProfile_def batch_limit_def engineMaxBatchDefault_def Let_def
          split: option.splits)
  next
    case False
    let ?o = "case base of None \<Rightarrow> zero_options | Some op \<Rightarrow> op"
    let ?op = "if MaxBatchSize ?o = 0 \<or> uint (MaxBatchSize ?o) < ?need
               then ?o\<lparr>MaxBatchSize := word_of_int ?need\<rparr> else ?o"
    obtain op where op: "op = ?op" by simp
    have eq: "openOptsForProfile sz base n = Some op"
      using False by (simp only: op openOptsForProfile_def Let_def if_False)
    have "?need \<le> uint (MaxBatchSize op)" using u by (simp add: op not_less)
    then show ?thesis by (auto simp: eq batch_limit_def)
  qed
qed

end
