(* ===== verification/Go_Os.thy ===== *)
theory Go_Os
  imports Go_Engine Go_Strings
begin

text \<open>
  What the benchmark harness uses of Go's packages \<^verbatim>\<open>os\<close>, \<^verbatim>\<open>path/filepath\<close> and \<^verbatim>\<open>bufio\<close>. A path is the list of
  its components, the innermost first, and a file tree is a map from paths to directories and files.
  A parameter \<open>C\<close> gives the environment of the n-th call: an error or none, the content a write leaves in
  the file while it runs or when it fails, and the paths that survive while a removal runs or when it
  fails. The state keeps every tree that the calls pass through, which are the trees that a crash of the
  process can leave behind.
\<close>

section \<open>Paths\<close>

type_synonym path = "bytes list"

abbreviation slash :: char where
  "slash \<equiv> CHR 0x2F"

text \<open>The lexical resolution of a path below a directory, as \<^verbatim>\<open>filepath.Clean\<close> does it.\<close>

fun walk :: "path \<Rightarrow> bytes list \<Rightarrow> path" where
  "walk dir [] = dir"
| "walk dir (c # cs) =
     (if c = [] \<or> c = ''.'' then walk dir cs
      else if c = ''..'' then walk (tl dir) cs
      else walk (c # dir) cs)"

definition abs_path :: "path \<Rightarrow> bytes \<Rightarrow> path" where
  "abs_path cwd s = walk (if s \<noteq> [] \<and> hd s = slash then [] else cwd) (Split s slash)"

definition join_path :: "path \<Rightarrow> bytes \<Rightarrow> path" where
  "join_path dir s = walk dir (Split s slash)"

definition path_string :: "path \<Rightarrow> bytes" where
  "path_string p = (if p = [] then [slash] else concat (map (\<lambda>c. slash # c) (rev p)))"

text \<open>A name that stands for one entry of a directory.\<close>

definition plain_name :: "bytes \<Rightarrow> bool" where
  "plain_name s \<longleftrightarrow> s \<noteq> [] \<and> s \<noteq> ''.'' \<and> s \<noteq> ''..'' \<and> slash \<notin> set s"

lemma join_plain: "plain_name s \<Longrightarrow> join_path dir s = s # dir"
  by (simp add: join_path_def plain_name_def Split_single)

section \<open>The file tree\<close>

datatype node = Dir | File bytes

type_synonym tree = "path \<rightharpoonup> node"

record call =
  call_err :: "bytes option"
  call_junk :: "bytes option"
  call_keep :: "path \<Rightarrow> bool"

type_synonym calls = "nat \<Rightarrow> call"

record os_state =
  os_tree :: tree
  os_count :: nat
  os_trace :: "tree list"

definition settle :: "tree list \<Rightarrow> tree \<Rightarrow> os_state \<Rightarrow> os_state" where
  "settle mids t s =
     s\<lparr>os_tree := t, os_count := Suc (os_count s), os_trace := os_trace s @ mids @ [t]\<rparr>"

definition os_err :: "bytes \<Rightarrow> path \<Rightarrow> bytes \<Rightarrow> go_error" where
  "os_err what p m = Errorf ''%s %s: %s'' [what, path_string p, m]"

definition is_file :: "node option \<Rightarrow> bool" where
  "is_file n \<longleftrightarrow> (case n of Some (File _) \<Rightarrow> True | _ \<Rightarrow> False)"

definition remove_under :: "path \<Rightarrow> (path \<Rightarrow> bool) \<Rightarrow> tree \<Rightarrow> tree" where
  "remove_under p keep t = (\<lambda>q. if suffix p q \<and> \<not> keep q then None else t q)"

definition os_RemoveAll :: "calls \<Rightarrow> path \<Rightarrow> os_state \<Rightarrow> go_error option \<times> os_state" where
  "os_RemoveAll C p s =
     (let c = C (os_count s); t = os_tree s; mid = remove_under p (call_keep c) t in
      case call_err c of
        Some m \<Rightarrow> (Some (os_err ''unlinkat'' p m), settle [] mid s)
      | None \<Rightarrow> (None, settle [mid] (remove_under p (\<lambda>_. False) t) s))"

definition make_dirs :: "path \<Rightarrow> (path \<Rightarrow> bool) \<Rightarrow> tree \<Rightarrow> tree" where
  "make_dirs p which t = (\<lambda>q. if suffix q p \<and> t q = None \<and> which q then Some Dir else t q)"

definition os_MkdirAll :: "calls \<Rightarrow> path \<Rightarrow> os_state \<Rightarrow> go_error option \<times> os_state" where
  "os_MkdirAll C p s =
     (let c = C (os_count s); t = os_tree s; mid = make_dirs p (call_keep c) t in
      if list_ex (\<lambda>q. is_file (t q)) (suffixes p) then (Some (os_err ''mkdir'' p ''not a directory''), settle [] t s)
      else case call_err c of
        Some m \<Rightarrow> (Some (os_err ''mkdir'' p m), settle [] mid s)
      | None \<Rightarrow> (None, settle [mid] (make_dirs p (\<lambda>_. True) t) s))"

definition parent_ok :: "path \<Rightarrow> tree \<Rightarrow> bool" where
  "parent_ok p t \<longleftrightarrow> (case p of [] \<Rightarrow> False | _ # d \<Rightarrow> t d = Some Dir)"

definition unfinished :: "call \<Rightarrow> path \<Rightarrow> tree \<Rightarrow> tree" where
  "unfinished c p t = (case call_junk c of None \<Rightarrow> t | Some junk \<Rightarrow> t(p \<mapsto> File junk))"

text \<open>
  A call that gives the file \<open>p\<close> the content \<open>b\<close>: \<^verbatim>\<open>os.WriteFile\<close>, \<^verbatim>\<open>os.Create\<close> with the empty content, and a
  write of an open file with the old content extended.
\<close>

definition os_store :: "bytes \<Rightarrow> calls \<Rightarrow> path \<Rightarrow> bytes \<Rightarrow> os_state \<Rightarrow> go_error option \<times> os_state" where
  "os_store what C p b s =
     (let c = C (os_count s); t = os_tree s; mid = unfinished c p t in
      case call_err c of
        Some m \<Rightarrow> (Some (os_err what p m), settle [] mid s)
      | None \<Rightarrow> (None, settle [mid] (t(p \<mapsto> File b)) s))"

definition os_WriteFile :: "calls \<Rightarrow> path \<Rightarrow> bytes \<Rightarrow> os_state \<Rightarrow> go_error option \<times> os_state" where
  "os_WriteFile C p b s =
     (if \<not> parent_ok p (os_tree s) \<or> os_tree s p = Some Dir
      then (Some (os_err ''open'' p ''no such file or is a directory''), settle [] (os_tree s) s)
      else os_store ''write'' C p b s)"

definition os_Create :: "calls \<Rightarrow> path \<Rightarrow> os_state \<Rightarrow> go_error option \<times> os_state" where
  "os_Create C p s =
     (if \<not> parent_ok p (os_tree s) \<or> os_tree s p = Some Dir
      then (Some (os_err ''open'' p ''no such file or is a directory''), settle [] (os_tree s) s)
      else os_store ''open'' C p [] s)"

definition file_content :: "path \<Rightarrow> tree \<Rightarrow> bytes" where
  "file_content p t = (case t p of Some (File b) \<Rightarrow> b | _ \<Rightarrow> [])"

definition os_write :: "calls \<Rightarrow> path \<Rightarrow> bytes \<Rightarrow> os_state \<Rightarrow> go_error option \<times> os_state" where
  "os_write C p b s = os_store ''write'' C p (file_content p (os_tree s) @ b) s"

definition os_close :: "calls \<Rightarrow> path \<Rightarrow> os_state \<Rightarrow> go_error option \<times> os_state" where
  "os_close C p s =
     (map_option (os_err ''close'' p) (call_err (C (os_count s))), settle [] (os_tree s) s)"

definition moved :: "path \<Rightarrow> path \<Rightarrow> tree \<Rightarrow> tree" where
  "moved old new t =
     (\<lambda>q. if suffix new q then t (take (length q - length new) q @ old)
          else if suffix old q then None else t q)"

text \<open>\<^verbatim>\<open>os.Rename\<close> refuses a target that is a directory.\<close>

definition os_Rename :: "calls \<Rightarrow> path \<Rightarrow> path \<Rightarrow> os_state \<Rightarrow> go_error option \<times> os_state" where
  "os_Rename C old new s =
     (let c = C (os_count s); t = os_tree s in
      if t old = None then (Some (os_err ''rename'' old ''no such file or directory''), settle [] t s)
      else if t new = Some Dir then (Some (os_err ''rename'' old ''file exists''), settle [] t s)
      else if t old = Some Dir \<and> t new \<noteq> None then (Some (os_err ''rename'' old ''not a directory''), settle [] t s)
      else if suffix old new \<or> \<not> parent_ok new t then (Some (os_err ''rename'' old ''invalid target''), settle [] t s)
      else case call_err c of
        Some m \<Rightarrow> (Some (os_err ''rename'' old m), settle [] t s)
      | None \<Rightarrow> (None, settle [] (moved old new t) s))"

section \<open>Buffered writing\<close>

text \<open>
  A \<^verbatim>\<open>bufio.Writer\<close> with its buffer of 4096 bytes over an open file. Large data is written directly when the
  buffer is empty, and otherwise fills the buffer first. The result has the content of the buffer.
\<close>

definition bufio_size :: nat where
  "bufio_size = 4096"

function bw_Write ::
  "calls \<Rightarrow> path \<Rightarrow> bytes \<Rightarrow> bytes \<Rightarrow> os_state \<Rightarrow> go_error option \<times> bytes \<times> os_state" where
  "bw_Write C f p buf s =
     (if bufio_size - length buf < length p then
        (if buf = [] then
           case os_write C f p s of
             (Some err, s1) \<Rightarrow> (Some err, buf, s1)
           | (None, s1) \<Rightarrow> bw_Write C f [] [] s1
         else
           (let n = bufio_size - length buf in
            case os_write C f (buf @ take n p) s of
              (Some err, s1) \<Rightarrow> (Some err, buf @ take n p, s1)
            | (None, s1) \<Rightarrow> bw_Write C f (drop n p) [] s1))
      else (None, buf @ p, s))"
  by auto
termination
  by (relation "measure (\<lambda>(C, f, p, buf, s). 2 * length p + (if buf = [] then 0 else 1))") auto

declare bw_Write.simps [simp del]

definition bw_Flush :: "calls \<Rightarrow> path \<Rightarrow> bytes \<Rightarrow> os_state \<Rightarrow> go_error option \<times> bytes \<times> os_state" where
  "bw_Flush C f buf s =
     (if buf = [] then (None, [], s)
      else case os_write C f buf s of
             (Some err, s1) \<Rightarrow> (Some err, buf, s1)
           | (None, s1) \<Rightarrow> (None, [], s1))"

definition bw_WriteByte ::
  "calls \<Rightarrow> path \<Rightarrow> char \<Rightarrow> bytes \<Rightarrow> os_state \<Rightarrow> go_error option \<times> bytes \<times> os_state" where
  "bw_WriteByte C f c buf s =
     (if bufio_size \<le> length buf then
        case bw_Flush C f buf s of
          (Some err, buf1, s1) \<Rightarrow> (Some err, buf1, s1)
        | (None, buf1, s1) \<Rightarrow> (None, buf1 @ [c], s1)
      else (None, buf @ [c], s))"

section \<open>Lemmas\<close>

text \<open>
  \<open>touches P s s'\<close>: the calls from \<open>s\<close> to \<open>s'\<close> changed only paths in \<open>P\<close>, in every tree they passed through.
\<close>

definition touches :: "path set \<Rightarrow> os_state \<Rightarrow> os_state \<Rightarrow> bool" where
  "touches P s s' \<longleftrightarrow>
     (\<exists>ts. os_trace s' = os_trace s @ ts \<and>
        (\<forall>t\<in>set (os_tree s' # ts). \<forall>q. q \<notin> P \<longrightarrow> t q = os_tree s q))"

lemma touches_refl [simp]: "touches P s s"
  by (simp add: touches_def)

lemma touches_trans: "touches P s s1 \<Longrightarrow> touches P s1 s2 \<Longrightarrow> touches P s s2"
  by (fastforce simp: touches_def)

lemma touches_mono: "touches P s s' \<Longrightarrow> P \<subseteq> Q \<Longrightarrow> touches Q s s'"
  by (fastforce simp: touches_def)

lemma touchesD: "touches P s s' \<Longrightarrow> q \<notin> P \<Longrightarrow> os_tree s' q = os_tree s q"
  by (auto simp: touches_def)

lemma touches_settle:
  "(\<forall>t'\<in>set (t # mids). \<forall>q. q \<notin> P \<longrightarrow> t' q = os_tree s q) \<Longrightarrow> touches P s (settle mids t s)"
  by (auto simp: touches_def settle_def)

lemma os_tree_settle [simp]: "os_tree (settle mids t s) = t"
  by (simp add: settle_def)

lemma touches_store: "touches {p} s (snd (os_store what C p b s))"
  by (auto simp: os_store_def Let_def unfinished_def intro!: touches_settle split: option.splits if_splits)

lemma touches_same: "touches P s (settle [] (os_tree s) s)"
  by (rule touches_settle) simp

lemma touches_files:
  "touches {p} s (snd (os_WriteFile C p b s))" "touches {p} s (snd (os_Create C p s))"
  "touches {p} s (snd (os_write C p b s))" "touches {} s (snd (os_close C p s))"
  by (auto simp: os_WriteFile_def os_Create_def os_write_def os_close_def touches_store touches_same)

lemma store_ok: "os_store what C p b s = (None, s') \<Longrightarrow> os_tree s' = (os_tree s)(p \<mapsto> File b)"
  by (auto simp: os_store_def Let_def split: option.splits)

lemma files_ok:
  "os_WriteFile C p b s = (None, s') \<Longrightarrow> os_tree s' = (os_tree s)(p \<mapsto> File b)"
  "os_Create C p s = (None, s') \<Longrightarrow> os_tree s' = (os_tree s)(p \<mapsto> File [])"
  "os_write C p b s = (None, s') \<Longrightarrow> os_tree s' = (os_tree s)(p \<mapsto> File (file_content p (os_tree s) @ b))"
  by (auto simp: os_WriteFile_def os_Create_def os_write_def dest: store_ok split: if_splits)

lemma close_tree [simp]: "os_tree (snd (os_close C p s)) = os_tree s"
  by (simp add: os_close_def)

lemma file_content_upd [simp]: "file_content p (t(p \<mapsto> File b)) = b"
  by (simp add: file_content_def)

text \<open>Nothing is lost and nothing is reordered on the way through the buffer.\<close>

definition written :: "path \<Rightarrow> bytes \<Rightarrow> os_state \<Rightarrow> bytes" where
  "written f buf s = file_content f (os_tree s) @ buf"

definition keeps_file :: "path \<Rightarrow> os_state \<Rightarrow> os_state \<Rightarrow> bool" where
  "keeps_file f s s' \<longleftrightarrow> (is_file (os_tree s f) \<longrightarrow> is_file (os_tree s' f))"

lemma keeps_file_refl [simp]: "keeps_file f s s"
  by (simp add: keeps_file_def)

lemma keeps_file_upd [simp]: "os_tree s' = (os_tree s)(f \<mapsto> File b) \<Longrightarrow> keeps_file f s s'"
  by (simp add: keeps_file_def is_file_def)

lemma keeps_file_trans: "keeps_file f s s1 \<Longrightarrow> keeps_file f s1 s2 \<Longrightarrow> keeps_file f s s2"
  by (simp add: keeps_file_def)

lemma is_file_content: "is_file (t f) \<Longrightarrow> t f = Some (File (file_content f t))"
  by (auto simp: is_file_def file_content_def split: option.splits node.splits)

lemma bw_Write_spec:
  assumes "bw_Write C f p buf s = (r, buf', s')"
  shows "touches {f} s s' \<and> (r = None \<longrightarrow> written f buf' s' = written f buf s @ p \<and> keeps_file f s s')"
  using assms
proof (induction C f p buf s arbitrary: r buf' s' rule: bw_Write.induct)
  case (1 C f p buf s)
  note touch = touches_files(3) [of f s C]
  show ?case
  proof (cases "bufio_size - length buf < length p")
    case False
    with 1(3) show ?thesis by (auto simp: bw_Write.simps [of C f p buf s] written_def)
  next
    case big: True
    show ?thesis
    proof (cases "buf = []")
      case True
      obtain e s1 where w: "os_write C f p s = (e, s1)" by force
      with touch [of p] have t: "touches {f} s s1" by simp
      show ?thesis
      proof (cases e)
        case None
        have "bw_Write C f p buf s = bw_Write C f [] [] s1"
          using big True w None by (subst bw_Write.simps) simp
        with 1(1) [OF big True w [symmetric] None] 1(3) have
          "touches {f} s1 s' \<and> (r = None \<longrightarrow> written f buf' s' = written f [] s1 @ [] \<and> keeps_file f s1 s')" by simp
        with True w None t files_ok(3) [of C f p s s1] show ?thesis
          by (auto simp: written_def intro: touches_trans keeps_file_trans [of f s s1])
      next
        case (Some err)
        then have "bw_Write C f p buf s = (e, buf, s1)" using big True w by (subst bw_Write.simps) simp
        with 1(3) Some t show ?thesis by auto
      qed
    next
      case False
      define n where "n = bufio_size - length buf"
      obtain e s1 where w: "os_write C f (buf @ take n p) s = (e, s1)" by force
      with touch [of "buf @ take n p"] have t: "touches {f} s s1" by simp
      show ?thesis
      proof (cases e)
        case None
        have "bw_Write C f p buf s = bw_Write C f (drop n p) [] s1"
          using big False w None by (subst bw_Write.simps) (simp add: n_def)
        with 1(2) [OF big False n_def w [symmetric] None] 1(3) have
          "touches {f} s1 s' \<and> (r = None \<longrightarrow> written f buf' s' = written f [] s1 @ drop n p \<and> keeps_file f s1 s')" by simp
        with w None t files_ok(3) [of C f "buf @ take n p" s s1] show ?thesis
          by (auto simp: written_def intro: touches_trans keeps_file_trans [of f s s1])
      next
        case (Some err)
        then have "bw_Write C f p buf s = (e, buf @ take n p, s1)"
          using big False w by (subst bw_Write.simps) (simp add: n_def)
        with 1(3) Some t show ?thesis by auto
      qed
    qed
  qed
qed

lemma bw_Flush_spec:
  assumes "bw_Flush C f buf s = (r, buf', s')"
  shows "touches {f} s s' \<and> (r = None \<longrightarrow> buf' = [] \<and> written f buf' s' = written f buf s \<and> keeps_file f s s')"
proof (cases "buf = []")
  case True
  with assms show ?thesis by (simp add: bw_Flush_def)
next
  case False
  obtain e s1 where w: "os_write C f buf s = (e, s1)" by force
  with touches_files(3) [of f s C buf] have "touches {f} s s1" by simp
  with assms False w files_ok(3) [of C f buf s s1] show ?thesis
    by (auto simp: bw_Flush_def written_def split: option.splits)
qed

lemma bw_WriteByte_spec:
  assumes "bw_WriteByte C f c buf s = (r, buf', s')"
  shows "touches {f} s s' \<and> (r = None \<longrightarrow> written f buf' s' = written f buf s @ [c] \<and> keeps_file f s s')"
proof (cases "bufio_size \<le> length buf")
  case False
  with assms show ?thesis by (auto simp: bw_WriteByte_def written_def)
next
  case True
  obtain e b1 s1 where w: "bw_Flush C f buf s = (e, b1, s1)" by (cases "bw_Flush C f buf s") auto
  from bw_Flush_spec [OF w] assms True w show ?thesis
    by (auto simp: bw_WriteByte_def written_def split: option.splits)
qed

section \<open>Calls that do not fail\<close>

definition healthy :: "calls \<Rightarrow> bool" where
  "healthy C \<longleftrightarrow> (\<forall>n. call_err (C n) = None)"

lemma healthy_store [simp]: "healthy C \<Longrightarrow> fst (os_store what C p b s) = None"
  by (simp add: healthy_def os_store_def Let_def)

lemma healthy_files:
  assumes "healthy C"
  shows "parent_ok p (os_tree s) \<Longrightarrow> os_tree s p \<noteq> Some Dir \<Longrightarrow> fst (os_WriteFile C p b s) = None"
    "parent_ok p (os_tree s) \<Longrightarrow> os_tree s p \<noteq> Some Dir \<Longrightarrow> fst (os_Create C p s) = None"
    "fst (os_write C p b s) = None" "fst (os_close C p s) = None" "fst (os_RemoveAll C p s) = None"
  using assms by (simp_all add: os_WriteFile_def os_Create_def os_write_def)
    (simp_all add: healthy_def os_close_def os_RemoveAll_def Let_def)

lemma healthy_bw_Write: "healthy C \<Longrightarrow> fst (bw_Write C f p buf s) = None"
proof (induction C f p buf s rule: bw_Write.induct)
  case (1 C f p buf s)
  obtain e1 s1 where 1: "os_write C f p s = (e1, s1)" by force
  obtain e2 s2 where 2: "os_write C f (buf @ take (bufio_size - length buf) p) s = (e2, s2)" by force
  have "e1 = None" "e2 = None" using healthy_files(3) [OF "1.prems"] 1 2 by (metis fst_conv)+
  with "1.IH" "1.prems" 1 2 show ?case by (subst bw_Write.simps) (auto simp: Let_def)
qed

lemma healthy_bw:
  assumes "healthy C"
  shows "fst (bw_Flush C f buf s) = None" "fst (bw_WriteByte C f c buf s) = None"
proof -
  show flush: "fst (bw_Flush C f buf s) = None" for buf s
    using healthy_files(3) [OF assms, of f buf s] by (auto simp: bw_Flush_def split: prod.splits option.splits)
  show "fst (bw_WriteByte C f c buf s) = None"
    using flush [of buf s] by (auto simp: bw_WriteByte_def split: prod.splits option.splits)
qed

end
