(* ===== verification/Bench_Report.thy ===== *)
theory Bench_Report
  imports Complex_Main Go_Os
begin

text \<open>
  The measurements of the benchmark harness: the rows of \<^verbatim>\<open>bench/embed_vs_sqlite/main.go\<close>, their export
  as long-format lines and the run writer's buffer (\<^verbatim>\<open>de_out.go\<close>), the integrity verdict, the comparison
  lines of the report and the small classifications of a run. A measured number is of a type \<open>'f\<close>;
  where the code computes with numbers, \<open>'f\<close> is an ordered field, so the rounding of \<^verbatim>\<open>float64\<close> is not
  part of the model, and \<open>fmt1\<close> stands for the verb \<^verbatim>\<open>%.1f\<close>.
\<close>

section \<open>Rows\<close>

record 'f phaseResult =
  pr_Phase :: bytes
  pr_Profile :: bytes
  pr_Ops :: int
  pr_Ms :: 'f
  pr_OpsPerS :: 'f
  pr_Durability :: bytes
  pr_Extra :: bytes
  pr_MetricOnly :: bytes
  pr_Value :: 'f
  pr_Unit :: bytes

record 'f ResultLine =
  rl_RunID :: bytes
  rl_Engine :: bytes
  rl_Phase :: bytes
  rl_Metric :: bytes
  rl_Value :: 'f
  rl_Ops :: int
  rl_Unit :: bytes
  rl_Notes :: bytes

text \<open>\<open>d\<close> is the duration in nanoseconds; \<^verbatim>\<open>Microseconds\<close> rounds toward zero.\<close>

definition Microseconds :: "int \<Rightarrow> int" where
  "Microseconds d = (if d < 0 then - ((- d) div 1000) else d div 1000)"

definition result :: "bytes \<Rightarrow> bytes \<Rightarrow> int \<Rightarrow> int \<Rightarrow> bytes \<Rightarrow> bytes \<Rightarrow> ('f :: linordered_field) phaseResult" where
  "result phase profile n d durability extra =
     (let ms = of_int (Microseconds d) / 1000;
          opsPerS = (if ms > 0 then of_int n / (ms / 1000) else 0) in
      \<lparr>pr_Phase = phase, pr_Profile = profile, pr_Ops = n, pr_Ms = ms, pr_OpsPerS = opsPerS,
       pr_Durability = durability, pr_Extra = extra, pr_MetricOnly = [], pr_Value = 0, pr_Unit = []\<rparr>)"

definition metricResult ::
  "bytes \<Rightarrow> bytes \<Rightarrow> bytes \<Rightarrow> 'f \<Rightarrow> int \<Rightarrow> bytes \<Rightarrow> bytes \<Rightarrow> ('f :: zero) phaseResult" where
  "metricResult phase profile metric val n unit notes =
     \<lparr>pr_Phase = phase, pr_Profile = profile, pr_Ops = n,
      pr_Ms = (if metric = ''duration_ms'' then val else 0), pr_OpsPerS = 0,
      pr_Durability = [], pr_Extra = notes, pr_MetricOnly = metric, pr_Value = val, pr_Unit = unit\<rparr>"

definition hasIntegrityFail :: "('f :: zero) phaseResult list \<Rightarrow> bool" where
  "hasIntegrityFail results =
     list_ex (\<lambda>r. pr_Phase r = ''post_restart_row_count'' \<and> pr_MetricOnly r = ''integrity_ok'' \<and>
       pr_Value r = 0) results"

section \<open>Export\<close>

definition metricUnit :: "bytes \<Rightarrow> bytes" where
  "metricUnit metric =
     (if metric = ''duration_ms'' then ''ms''
      else if metric = ''ops_per_s'' then ''ops/s''
      else if metric = ''row_count'' \<or> metric = ''expected_row_count'' then ''count''
      else if metric = ''integrity_ok'' then ''bool''
      else if metric = ''bytes_on_disk'' then ''bytes''
      else [])"

definition phaseResultToLong :: "bytes \<Rightarrow> 'f phaseResult \<Rightarrow> 'f ResultLine list" where
  "phaseResultToLong runID r =
     (let notes = (if pr_Extra r = [] then pr_Durability r else pr_Extra r) in
      if pr_MetricOnly r \<noteq> [] then
        [\<lparr>rl_RunID = runID, rl_Engine = pr_Profile r, rl_Phase = pr_Phase r, rl_Metric = pr_MetricOnly r,
          rl_Value = pr_Value r, rl_Ops = pr_Ops r,
          rl_Unit = (if pr_Unit r = [] then metricUnit (pr_MetricOnly r) else pr_Unit r),
          rl_Notes = notes\<rparr>]
      else
        [\<lparr>rl_RunID = runID, rl_Engine = pr_Profile r, rl_Phase = pr_Phase r, rl_Metric = ''duration_ms'',
          rl_Value = pr_Ms r, rl_Ops = pr_Ops r, rl_Unit = ''ms'', rl_Notes = notes\<rparr>,
         \<lparr>rl_RunID = runID, rl_Engine = pr_Profile r, rl_Phase = pr_Phase r, rl_Metric = ''ops_per_s'',
          rl_Value = pr_OpsPerS r, rl_Ops = pr_Ops r, rl_Unit = ''ops/s'', rl_Notes = notes\<rparr>])"

text \<open>An instant, as its calendar fields in UTC.\<close>

record utc_time =
  t_year :: nat
  t_month :: nat
  t_day :: nat
  t_hour :: nat
  t_minute :: nat
  t_second :: nat

record GitInfo =
  gi_F4KVSFFI :: bytes
  gi_F4KVSLSM :: bytes
  gi_Dirty :: bool

record HostInfo =
  hi_OS :: bytes
  hi_Arch :: bytes
  hi_Hostname :: bytes
  hi_Go :: bytes
  hi_CPUModel :: bytes
  hi_CPUCores :: int

record ScaleInfo =
  si_Memoirs :: int
  si_Chunks :: int
  si_MemoirBytes :: int
  si_ChunkBytes :: int
  si_RandomGets :: int

record HarnessInfo =
  ha_Path :: bytes
  ha_Command :: bytes

text \<open>\<open>rm_Engines\<close> is \<^const>\<open>None\<close> for the nil slice.\<close>

record RunManifest =
  rm_SchemaVersion :: bytes
  rm_RunID :: bytes
  rm_FlowID :: bytes
  rm_Tier :: bytes
  rm_Seed :: int
  rm_StartedAt :: bytes
  rm_FinishedAt :: bytes
  rm_Git :: GitInfo
  rm_Host :: HostInfo
  rm_Scale :: ScaleInfo
  rm_Engines :: "bytes list option"
  rm_Harness :: HarnessInfo
  rm_Notes :: bytes

record 'f RunWriter =
  rw_RunsRoot :: bytes
  rw_RunID :: bytes
  rw_PartialDir :: path
  rw_FinalDir :: path
  rw_Manifest :: RunManifest
  rw_lines :: "'f ResultLine list"
  rw_started :: utc_time

definition AppendPhaseResults :: "'f phaseResult list \<Rightarrow> 'f RunWriter \<Rightarrow> 'f RunWriter" where
  "AppendPhaseResults results w =
     fold (\<lambda>r w. w\<lparr>rw_lines := rw_lines w @ phaseResultToLong (rw_RunID w) r\<rparr>) results w"

definition AppendLine :: "'f ResultLine \<Rightarrow> 'f RunWriter \<Rightarrow> 'f RunWriter" where
  "AppendLine line w =
     (let line = (if rl_RunID line = [] then line\<lparr>rl_RunID := rw_RunID w\<rparr> else line) in
      w\<lparr>rw_lines := rw_lines w @ [line]\<rparr>)"

definition LineCount :: "'f RunWriter \<Rightarrow> nat" where
  "LineCount w = length (rw_lines w)"

definition HasIntegrityFailure :: "('f :: zero) RunWriter \<Rightarrow> bool" where
  "HasIntegrityFailure w =
     list_ex (\<lambda>line. rl_Phase line = ''post_restart_row_count'' \<and> rl_Metric line = ''integrity_ok'' \<and>
       rl_Value line = 0) (rw_lines w)"

fun unique_engines :: "'f phaseResult list \<Rightarrow> bytes set \<Rightarrow> bytes list \<Rightarrow> bytes list" where
  "unique_engines [] seen out = out"
| "unique_engines (r # results) seen out =
     (if pr_Profile r = [] \<or> pr_Profile r \<in> seen then unique_engines results seen out
      else unique_engines results (insert (pr_Profile r) seen) (out @ [pr_Profile r]))"

definition UniqueEngines :: "'f phaseResult list \<Rightarrow> bytes list" where
  "UniqueEngines results = unique_engines results {} []"

section \<open>Comparisons\<close>

definition phaseMs :: "('f :: zero) phaseResult list \<Rightarrow> bytes \<Rightarrow> 'f" where
  "phaseMs rows profile =
     (case find (\<lambda>r. pr_Profile r = profile) rows of Some r \<Rightarrow> pr_Ms r | None \<Rightarrow> 0)"

text \<open>The sign \<^verbatim>\<open>x\<close> of the message is the code point U+00D7, two bytes in UTF-8.\<close>

definition faster_line :: "('f \<Rightarrow> bytes) \<Rightarrow> bytes \<Rightarrow> 'f \<Rightarrow> bytes \<Rightarrow> bytes" where
  "faster_line fmt1 fast r slow =
     fast @ '' '' @ fmt1 r @ [CHR 0xC3, CHR 0x97] @ '' faster than '' @ slow"

definition speedRatioLine ::
  "(('f :: linordered_field) \<Rightarrow> bytes) \<Rightarrow> bytes \<Rightarrow> 'f \<Rightarrow> bytes \<Rightarrow> 'f \<Rightarrow> bytes" where
  "speedRatioLine fmt1 fasterName fasterMs slowerName slowerMs =
     (if fasterMs = 0 \<or> slowerMs = 0 then []
      else if fasterMs > slowerMs then faster_line fmt1 slowerName (fasterMs / slowerMs) fasterName
      else faster_line fmt1 fasterName (slowerMs / fasterMs) slowerName)"

text \<open>The loop of \<^verbatim>\<open>ratioLine\<close>: the last row of each profile counts.\<close>

definition last_ms :: "('f :: zero) phaseResult list \<Rightarrow> bytes \<Rightarrow> 'f" where
  "last_ms rows profile = fold (\<lambda>r ms. if pr_Profile r = profile then pr_Ms r else ms) rows 0"

definition ratioLine ::
  "(('f :: linordered_field) \<Rightarrow> bytes) \<Rightarrow> 'f phaseResult list \<Rightarrow> bytes \<Rightarrow> bytes \<Rightarrow> bytes" where
  "ratioLine fmt1 rows f4Profile sqlProfile =
     (let f4 = last_ms rows f4Profile; sql = last_ms rows sqlProfile in
      if f4 = 0 \<or> sql = 0 then []
      else if f4 > sql then faster_line fmt1 sqlProfile (f4 / sql) f4Profile
      else faster_line fmt1 f4Profile (sql / f4) sqlProfile)"

record compareLine =
  cl_label :: bytes
  cl_line :: bytes

definition line_if :: "bytes \<Rightarrow> bytes \<Rightarrow> compareLine list" where
  "line_if label line = (if line \<noteq> [] then [\<lparr>cl_label = label, cl_line = line\<rparr>] else [])"

definition phaseCompares ::
  "(('f :: linordered_field) \<Rightarrow> bytes) \<Rightarrow> (bytes \<Rightarrow> 'f phaseResult list) \<Rightarrow> 'f phaseResult list \<Rightarrow> bytes \<Rightarrow>
   compareLine list" where
  "phaseCompares fmt1 byPhase rows phase =
     (let batched_phase = (phase = ''chunk_batch_put_batched'' \<or> phase = ''chunk_batch_put_bulk_import'') in
      line_if (if batched_phase then ''batched compare'' else ''fair compare (segment)'')
        (ratioLine fmt1 rows ''f4kvs_wal_segment'' ''sqlite_wal_full'') @
      line_if (if batched_phase then ''batched compare (indexed)'' else ''fair compare (indexed v2)'')
        (ratioLine fmt1 rows ''f4kvs_wal_indexed'' ''sqlite_wal_full'') @
      (if phase = ''chunk_batch_put'' then
         let seg = phaseMs rows ''f4kvs_wal_segment''; idx = phaseMs rows ''f4kvs_wal_indexed'' in
         if seg > 0 \<and> idx > 0 then
           [\<lparr>cl_label = ''indexed v2 vs segment'',
             cl_line = speedRatioLine fmt1 ''f4kvs_wal_indexed'' idx ''f4kvs_wal_segment'' seg\<rparr>]
         else []
       else []) @
      line_if ''fair compare (frame)'' (ratioLine fmt1 rows ''f4kvs_wal_frame'' ''sqlite_wal_full'') @
      line_if ''segment vs frame'' (ratioLine fmt1 rows ''f4kvs_wal_segment'' ''f4kvs_wal_frame'') @
      (if phase = ''chunk_batch_put_bulk_import'' then
         concat (map (\<lambda>profile.
           let batched = phaseMs (byPhase ''chunk_batch_put_batched'') profile; bulk = phaseMs rows profile in
           if batched > 0 \<and> bulk > 0 then
             [\<lparr>cl_label = ''bulk-import vs batch ('' @ profile @ '')'',
               cl_line = speedRatioLine fmt1 ''chunk_batch_put_batched'' batched
                           ''chunk_batch_put_bulk_import'' bulk\<rparr>]
           else [])
           [''f4kvs_wal_segment'', ''f4kvs_wal_frame'', ''f4kvs_group_commit_10ms''])
       else []) @
      line_if ''group-commit compare'' (ratioLine fmt1 rows ''f4kvs_group_commit_10ms'' ''sqlite_wal_full'') @
      (if phase = ''chunk_batch_put_durable'' then
         line_if ''durable ingest compare'' (ratioLine fmt1 rows ''f4kvs_group_commit_10ms'' ''sqlite_wal_full'')
       else []) @
      (if phase = ''chunk_batch_put_flush'' then
         line_if ''wal-flush compare'' (ratioLine fmt1 rows ''f4kvs_group_commit_10ms'' ''sqlite_wal_full'')
       else []))"

section \<open>Classification of a run\<close>

definition DeriveTier :: "int \<Rightarrow> bytes" where
  "DeriveTier chunks =
     (if chunks \<le> 2000 then ''micro'' else if chunks \<le> 100000 then ''meso'' else ''macro'')"

definition FormatHarnessCommand ::
  "int \<Rightarrow> int \<Rightarrow> int \<Rightarrow> int \<Rightarrow> int \<Rightarrow> int \<Rightarrow> bool \<Rightarrow> bytes \<Rightarrow> bytes" where
  "FormatHarnessCommand memoirs chunks memoirBytes chunkBytes randomGets seed includeRelaxed profiles =
     Join
       ([''go run .'', ''-memoirs='' @ Itoa memoirs, ''-chunks='' @ Itoa chunks,
         ''-memoir-bytes='' @ Itoa memoirBytes, ''-chunk-bytes='' @ Itoa chunkBytes,
         ''-random-gets='' @ Itoa randomGets, ''-seed='' @ Itoa seed] @
        (if profiles \<noteq> [] \<and> profiles \<noteq> ''all'' then [''-profiles='' @ profiles] else []) @
        (if \<not> includeRelaxed then [''-include-relaxed=false''] else [])) '' ''"

text \<open>The pinned tag in the lines of a \<^verbatim>\<open>Cargo.toml\<close>; \<^const>\<open>None\<close> is a file that cannot be read.\<close>

definition tag_open :: bytes where
  "tag_open = ''tag = \"''"

fun lsm_pin :: "bytes list \<Rightarrow> bytes" where
  "lsm_pin [] = []"
| "lsm_pin (line # lines) =
     (if \<not> Contains line ''f4kvs-lsm'' \<and> \<not> Contains line ''github.com/noematic-eu/f4kvs-lsm''
      then lsm_pin lines
      else case Index line tag_open of
             None \<Rightarrow> lsm_pin lines
           | Some i \<Rightarrow>
               (let rest = drop (i + length tag_open) line in
                case Index rest ''\"'' of
                  None \<Rightarrow> lsm_pin lines
                | Some j \<Rightarrow> take j rest))"

definition cargoLSMPin :: "bytes option \<Rightarrow> bytes" where
  "cargoLSMPin file = (case file of None \<Rightarrow> [] | Some b \<Rightarrow> lsm_pin (Split b (CHR 0x0A)))"

text \<open>A directory is the list of its components, the innermost first; the root is its own parent.\<close>

function find_root :: "(bytes list \<Rightarrow> bool) \<Rightarrow> bytes list \<Rightarrow> bytes list \<Rightarrow> bytes list" where
  "find_root is_root start dir =
     (if is_root dir then dir
      else case dir of [] \<Rightarrow> start | _ # parent \<Rightarrow> find_root is_root start parent)"
  by auto
termination
  by (relation "measure (\<lambda>(p, start, dir). length dir)") auto

declare find_root.simps [simp del]

definition FindRepoRoot :: "(bytes list \<Rightarrow> bool) \<Rightarrow> (bytes list \<Rightarrow> bool) \<Rightarrow> bytes list \<Rightarrow> bytes list" where
  "FindRepoRoot fileExists dirExists start =
     find_root (\<lambda>dir. fileExists (''Cargo.toml'' # dir) \<and> dirExists (''f4kvs-ffi'' # ''crates'' # dir)) start start"

section \<open>Lemmas\<close>

lemma AppendPhaseResults_lines:
  "rw_lines (AppendPhaseResults results w) =
     rw_lines w @ concat (map (phaseResultToLong (rw_RunID w)) results) \<and>
   rw_RunID (AppendPhaseResults results w) = rw_RunID w"
  unfolding AppendPhaseResults_def by (induction results arbitrary: w) auto

text \<open>The exported form of a row fails the integrity check exactly when the row does.\<close>

lemma long_integrity:
  "list_ex (\<lambda>line. rl_Phase line = ''post_restart_row_count'' \<and> rl_Metric line = ''integrity_ok'' \<and>
     rl_Value line = 0) (phaseResultToLong run r) \<longleftrightarrow>
   pr_Phase r = ''post_restart_row_count'' \<and> pr_MetricOnly r = ''integrity_ok'' \<and> pr_Value r = 0"
  by (simp add: phaseResultToLong_def Let_def)

lemma integrity_export:
  "HasIntegrityFailure (AppendPhaseResults results w) \<longleftrightarrow> HasIntegrityFailure w \<or> hasIntegrityFail results"
proof -
  have "list_ex P (concat (map f rs)) \<longleftrightarrow> list_ex (\<lambda>r. list_ex P (f r)) rs"
    for P and f :: "'a phaseResult \<Rightarrow> 'a ResultLine list" and rs
    by (induction rs) auto
  then show ?thesis
    by (simp add: HasIntegrityFailure_def hasIntegrityFail_def AppendPhaseResults_lines long_integrity
        del: list_ex_iff)
qed

lemma length_long: "length (phaseResultToLong run r) = (if pr_MetricOnly r = [] then 2 else 1)"
  by (simp add: phaseResultToLong_def Let_def)

lemma unique_engines_spec:
  "distinct out \<Longrightarrow> seen = set out \<Longrightarrow>
   distinct (unique_engines rs seen out) \<and>
   set (unique_engines rs seen out) = set out \<union> (pr_Profile ` set rs - {[]}) \<and>
   prefix out (unique_engines rs seen out)"
proof (induction rs seen out rule: unique_engines.induct)
  case (2 r rs seen out)
  then show ?case by (auto simp: prefix_def)
qed simp

text \<open>
  The engines of a manifest are the distinct, non-empty profiles of the rows, in the order of their first
  row.
\<close>

lemma UniqueEngines_correct:
  "distinct (UniqueEngines results) \<and> set (UniqueEngines results) = pr_Profile ` set results - {[]} \<and>
   prefix (UniqueEngines results) (UniqueEngines (results @ later))"
proof -
  have app: "unique_engines (xs @ ys) seen out = unique_engines ys (set (unique_engines xs seen out)) (unique_engines xs seen out)"
    if "seen = set out" for xs ys :: "'a phaseResult list" and seen out
    using that by (induction xs seen out rule: unique_engines.induct) auto
  have "distinct (UniqueEngines results)" "set (UniqueEngines results) = pr_Profile ` set results - {[]}"
    using unique_engines_spec [of "[]" "{}" results] by (simp_all add: UniqueEngines_def)
  moreover have "prefix (UniqueEngines results) (UniqueEngines (results @ later))"
    using unique_engines_spec [OF \<open>distinct (UniqueEngines results)\<close> refl, of later] app [of "{}" "[]" results later]
    by (simp add: UniqueEngines_def)
  ultimately show ?thesis by blast
qed

lemma ratio_faster:
  assumes "f4 = last_ms rows a" "sql = last_ms rows b" "0 < f4" "0 < sql"
  shows "\<exists>fast slow r. ratioLine fmt1 rows a b = faster_line fmt1 fast r slow \<and> {fast, slow} = {a, b} \<and>
     last_ms rows fast \<le> last_ms rows slow \<and> 1 \<le> r \<and> r * last_ms rows fast = last_ms rows slow"
proof (cases "f4 > sql")
  case True
  with assms show ?thesis
    by (intro exI [of _ b] exI [of _ a] exI [of _ "f4 / sql"]) (auto simp: ratioLine_def Let_def)
next
  case False
  with assms show ?thesis
    by (intro exI [of _ a] exI [of _ b] exI [of _ "sql / f4"]) (auto simp: ratioLine_def Let_def)
qed

lemma find_root_nearest:
  "(is_root (find_root is_root start dir) \<and> suffix (find_root is_root start dir) dir \<and>
      (\<forall>d. suffix d dir \<and> is_root d \<longrightarrow> length d \<le> length (find_root is_root start dir))) \<or>
   (find_root is_root start dir = start \<and> (\<forall>d. suffix d dir \<longrightarrow> \<not> is_root d))"
proof (induction dir)
  case Nil
  then show ?case by (simp add: find_root.simps)
next
  case (Cons c dir)
  show ?case
  proof (cases "is_root (c # dir)")
    case True
    then show ?thesis by (auto simp: find_root.simps [of _ _ "c # dir"] dest: suffix_length_le)
  next
    case False
    then have eq: "find_root is_root start (c # dir) = find_root is_root start dir"
      by (simp add: find_root.simps [of _ _ "c # dir"])
    from Cons False show ?thesis unfolding eq by (auto simp: suffix_Cons)
  qed
qed

text \<open>
  The verdict on the exported run and the verdict on the rows agree: after the rows are appended, the
  run writer reports an integrity failure exactly when it did before or a row is one, and every row
  contributes two lines, or one for a single metric.
\<close>

lemma integrity_verdicts_agree:
  "HasIntegrityFailure (AppendPhaseResults results w) = (HasIntegrityFailure w \<or> hasIntegrityFail results) \<and>
   LineCount (AppendPhaseResults results w) =
     LineCount w + sum_list (map (\<lambda>r. if pr_MetricOnly r = [] then 2 else 1) results)"
  by (simp add: integrity_export LineCount_def AppendPhaseResults_lines length_concat comp_def length_long)

end
