(* ===== verification/Bench_Drivers.thy ===== *)
theory Bench_Drivers
  imports Bench_Batch Bench_Report Go_Open
begin

text \<open>
  The drivers of the benchmark harness that run the Go binding (\<^verbatim>\<open>bench/embed_vs_sqlite/main.go\<close>):
  \<^verbatim>\<open>benchF4KVS\<close> with its side measurements and the integrity check \<^verbatim>\<open>benchF4KVSPostRestart\<close>. A driver returns
  rows, ends the process through \<^verbatim>\<open>fatal\<close>, or panics; \<^const>\<open>None\<close> is, as elsewhere, an undefined access or a
  blocked lock. The record \<open>bench\<close> has what a driver depends on besides its arguments: the library, the
  padding of the option struct, the threads of the calls, the order in which Go visits its maps, the
  effect of \<^verbatim>\<open>os.RemoveAll\<close> on the disk of the library, the variable \<^verbatim>\<open>globalBatchPutSize\<close> and the measured
  duration of each phase. Progress output is left out.
\<close>

section \<open>Outcomes\<close>

datatype 'a outcome = Done 'a | Fatal go_error | Panic bytes

type_synonym ('a, 's) run = "('a outcome \<times> 's) option"

text \<open>\<^verbatim>\<open>if err := ...; err != nil { fatal(err) }\<close>, and sequencing of drivers.\<close>

definition must :: "(go_error option \<times> 's) option \<Rightarrow> ('s \<Rightarrow> ('a, 's) run) \<Rightarrow> ('a, 's) run" where
  "must r k =
     (case r of
        None \<Rightarrow> None
      | Some (Some err, s) \<Rightarrow> Some (Fatal err, s)
      | Some (None, s) \<Rightarrow> k s)"

definition and_then :: "('a, 's) run \<Rightarrow> ('a \<Rightarrow> 's \<Rightarrow> ('b, 's) run) \<Rightarrow> ('b, 's) run" where
  "and_then r k =
     (case r of
        None \<Rightarrow> None
      | Some (Fatal err, s) \<Rightarrow> Some (Fatal err, s)
      | Some (Panic m, s) \<Rightarrow> Some (Panic m, s)
      | Some (Done a, s) \<Rightarrow> k a s)"

record ('x, 'c) bench =
  b_env :: "('x, 'c) env"
  b_pad :: "nat \<Rightarrow> 8 word"
  b_tc :: tid
  b_te :: tid
  b_rng :: "bytes list \<Rightarrow> bytes list"
  b_wipe :: "bytes \<Rightarrow> 'x \<Rightarrow> 'x"
  b_size :: int
  b_dur :: "bytes \<Rightarrow> bytes \<Rightarrow> int"

definition row :: "('x, 'c) bench \<Rightarrow> bytes \<Rightarrow> bytes \<Rightarrow> int \<Rightarrow> bytes \<Rightarrow> bytes \<Rightarrow> ('f :: linordered_field) phaseResult" where
  "row B phase profile n durability extra =
     result phase profile n (b_dur B profile phase) durability extra"

text \<open>
  Open an engine, run the body, and close it in the deferred call, which a panic runs too and \<^verbatim>\<open>os.Exit\<close>
  does not.
\<close>

definition with_engine ::
  "('x, 'c) bench \<Rightarrow> bytes \<Rightarrow> OpenOptions option \<Rightarrow> (('x, 'c) go_state \<Rightarrow> ('a, ('x, 'c) go_state) run) \<Rightarrow>
   ('x, 'c) world \<Rightarrow> ('a, ('x, 'c) world) run" where
  "with_engine B dir opts body w =
     do {
       (r, w1) \<leftarrow> NewPersistentEngineWithOptions (b_env B) (b_pad B) (b_tc B) (b_te B) dir opts w;
       case r of
         Inl err \<Rightarrow> Some (Fatal err, w1)
       | Inr eng \<Rightarrow> do {
           (out, g) \<leftarrow> body \<lparr>g_engine = eng, g_world = w1\<rparr>;
           (case out of
              Fatal err \<Rightarrow> Some (Fatal err, g_world g)
            | _ \<Rightarrow> do { g1 \<leftarrow> Close (b_env B) (b_tc B) g; Some (out, g_world g1) })
         }
     }"

text \<open>A driver with engines of its own, run while an engine is open.\<close>

definition aside :: "(('x, 'c) world \<Rightarrow> ('a, ('x, 'c) world) run) \<Rightarrow> ('x, 'c) go_state \<Rightarrow> ('a, ('x, 'c) go_state) run" where
  "aside f g = do { (out, w) \<leftarrow> f (g_world g); Some (out, g\<lparr>g_world := w\<rparr>) }"

definition sub_dir :: "bytes \<Rightarrow> bytes \<Rightarrow> bytes" where
  "sub_dir dir name = dir @ ''/'' @ name"

section \<open>Loops\<close>

fun put_each ::
  "('x, 'c) bench \<Rightarrow> bytes list \<Rightarrow> bytes \<Rightarrow> ('x, 'c) go_state \<Rightarrow> (go_error option \<times> ('x, 'c) go_state) option" where
  "put_each B [] payload g = Some (None, g)"
| "put_each B (key # keys) payload g =
     do {
       (r, g1) \<leftarrow> PutBytes (b_env B) (b_tc B) (b_te B) key payload g;
       case r of Some err \<Rightarrow> Some (Some err, g1) | None \<Rightarrow> put_each B keys payload g1
     }"

text \<open>
  The loop of point reads from index \<open>i\<close> on, with \<open>n\<close> reads left. The index modulo an empty key list is a
  division by zero.
\<close>

fun random_gets ::
  "('x, 'c) bench \<Rightarrow> bytes list \<Rightarrow> nat \<Rightarrow> nat \<Rightarrow> ('x, 'c) go_state \<Rightarrow> (unit, ('x, 'c) go_state) run" where
  "random_gets B keys 0 i g = Some (Done (), g)"
| "random_gets B keys (Suc n) i g =
     (if keys = [] then Some (Panic ''runtime error: integer divide by zero'', g)
      else do {
        (r, g1) \<leftarrow> GetBytes (b_env B) (b_tc B) (b_te B) (keys ! (i mod length keys)) g;
        case r of Inl err \<Rightarrow> Some (Fatal err, g1) | Inr _ \<Rightarrow> random_gets B keys n (Suc i) g1
      })"

abbreviation load_chunked ::
  "('x, 'c) bench \<Rightarrow> bytes list \<Rightarrow> bytes \<Rightarrow> ('x, 'c) go_state \<Rightarrow> (go_error option \<times> ('x, 'c) go_state) option" where
  "load_chunked B \<equiv> batchPutBytesChunked (b_size B) (BatchPutBytes (b_env B) (b_tc B) (b_te B)) (b_rng B)"

definition when_ok :: "bool \<Rightarrow> ('s \<Rightarrow> (go_error option \<times> 's) option) \<Rightarrow> 's \<Rightarrow> (go_error option \<times> 's) option" where
  "when_ok b f s = (if b then f s else Some (None, s))"

section \<open>Side measurements\<close>

definition benchF4KVSChunkDurable ::
  "('x, 'c) bench \<Rightarrow> bytes \<Rightarrow> bytes \<Rightarrow> bytes \<Rightarrow> OpenOptions option \<Rightarrow> bytes list \<Rightarrow> bytes \<Rightarrow> ('x, 'c) world \<Rightarrow>
   (('f :: linordered_field) phaseResult list, ('x, 'c) world) run" where
  "benchF4KVSChunkDurable B dir profile durability opts chunkKeys chunkPayload w =
     (let durableDir = sub_dir dir ''chunk_durable'' in
      with_engine B durableDir opts
        (\<lambda>g. must (put_each B chunkKeys chunkPayload g) (\<lambda>g.
             must (FlushWAL (b_env B) (b_tc B) (b_te B) g) (\<lambda>g.
             Some (Done [row B ''chunk_batch_put_durable'' profile (int (length chunkKeys)) durability
               ''puts + FlushWAL end-to-end''], g))))
        (w\<lparr>lsm := b_wipe B durableDir (lsm w)\<rparr>))"

definition benchF4KVSChunkBatchPut ::
  "('x, 'c) bench \<Rightarrow> bytes \<Rightarrow> bytes \<Rightarrow> bytes list \<Rightarrow> bytes \<Rightarrow> bool \<Rightarrow> bytes \<Rightarrow> bytes \<Rightarrow> ('x, 'c) world \<Rightarrow>
   (('f :: linordered_field) phaseResult list, ('x, 'c) world) run" where
  "benchF4KVSChunkBatchPut B dir profile chunkKeys chunkPayload bulkImport phase note =
     with_engine B dir (openOptsForProfile (b_size B) None (int (length chunkKeys)))
       (\<lambda>g. must (when_ok bulkImport (SetBulkImport (b_env B) (b_tc B) (b_te B) True) g) (\<lambda>g.
            must (load_chunked B chunkKeys chunkPayload g) (\<lambda>g.
            must (when_ok (b_size B \<le> 0) (FlushWAL (b_env B) (b_tc B) (b_te B)) g) (\<lambda>g.
            Some (Done [row B phase profile (int (length chunkKeys))
              ''WAL (one durable unit per BatchPut slice; fair=one slice)''
              (note @ '' batch-put-size='' @ Itoa (b_size B))], g)))))"

definition benchF4KVSChunkBatched ::
  "('x, 'c) bench \<Rightarrow> bytes \<Rightarrow> bytes \<Rightarrow> bytes list \<Rightarrow> bytes \<Rightarrow> ('x, 'c) world \<Rightarrow>
   (('f :: linordered_field) phaseResult list, ('x, 'c) world) run" where
  "benchF4KVSChunkBatched B dir profile chunkKeys chunkPayload =
     benchF4KVSChunkBatchPut B dir profile chunkKeys chunkPayload False ''chunk_batch_put_batched'' ''BatchPutBytes''"

definition benchF4KVSChunkBulkImport ::
  "('x, 'c) bench \<Rightarrow> bytes \<Rightarrow> bytes \<Rightarrow> bytes list \<Rightarrow> bytes \<Rightarrow> ('x, 'c) world \<Rightarrow>
   (('f :: linordered_field) phaseResult list, ('x, 'c) world) run" where
  "benchF4KVSChunkBulkImport B dir profile chunkKeys chunkPayload =
     benchF4KVSChunkBatchPut B dir profile chunkKeys chunkPayload True ''chunk_batch_put_bulk_import''
       ''BatchPutBytes + SetBulkImport(true)''"

section \<open>The main driver\<close>

text \<open>The three ways to load the chunks into the main engine.\<close>

definition chunks_per_commit ::
  "('x, 'c) bench \<Rightarrow> bytes \<Rightarrow> bytes \<Rightarrow> bytes \<Rightarrow> OpenOptions option \<Rightarrow> bytes list \<Rightarrow> bytes \<Rightarrow> ('x, 'c) go_state \<Rightarrow>
   (('f :: linordered_field) phaseResult list, ('x, 'c) go_state) run" where
  "chunks_per_commit B dir profile durability opts chunkKeys chunkPayload g =
     must (put_each B chunkKeys chunkPayload g) (\<lambda>g.
     let out = [row B ''chunk_batch_put'' profile (int (length chunkKeys)) durability ''per-commit''] in
     if usesGroupCommit opts then
       must (FlushWAL (b_env B) (b_tc B) (b_te B) g) (\<lambda>g.
       let out = out @ [row B ''chunk_batch_put_flush'' profile (int (length chunkKeys)) durability
             ''FlushWAL; durable within window, memtable not flushed''] in
       and_then (aside (benchF4KVSChunkDurable B dir profile durability opts chunkKeys chunkPayload) g) (\<lambda>rows g.
       Some (Done (out @ rows), g)))
     else Some (Done out, g))"

definition chunks_stream ::
  "('x, 'c) bench \<Rightarrow> bytes \<Rightarrow> bytes \<Rightarrow> bytes \<Rightarrow> bytes list \<Rightarrow> bytes \<Rightarrow> ('x, 'c) go_state \<Rightarrow>
   (('f :: linordered_field) phaseResult list, ('x, 'c) go_state) run" where
  "chunks_stream B dir profile durability chunkKeys chunkPayload g =
     must (SetBulkImport (b_env B) (b_tc B) (b_te B) True g) (\<lambda>g.
     must (put_each B chunkKeys chunkPayload g) (\<lambda>g.
     must (FlushWAL (b_env B) (b_tc B) (b_te B) g) (\<lambda>g.
     must (SetBulkImport (b_env B) (b_tc B) (b_te B) False g) (\<lambda>g.
     let out = [row B ''chunk_put_group_commit'' profile (int (length chunkKeys)) durability
           ''PutBytes stream + FlushWAL (group-commit window; scale path)''] in
     and_then (aside (benchF4KVSChunkBatched B (sub_dir dir ''chunk_batched'') profile chunkKeys chunkPayload) g)
       (\<lambda>rows g. Some (Done (out @ rows), g))))))"

definition chunks_bulk ::
  "('x, 'c) bench \<Rightarrow> bytes \<Rightarrow> bytes \<Rightarrow> bytes \<Rightarrow> bytes list \<Rightarrow> bytes \<Rightarrow> ('x, 'c) go_state \<Rightarrow>
   (('f :: linordered_field) phaseResult list, ('x, 'c) go_state) run" where
  "chunks_bulk B dir profile durability chunkKeys chunkPayload g =
     must (SetBulkImport (b_env B) (b_tc B) (b_te B) True g) (\<lambda>g.
     must (load_chunked B chunkKeys chunkPayload g) (\<lambda>g.
     must (SetBulkImport (b_env B) (b_tc B) (b_te B) False g) (\<lambda>g.
     let note = (if b_size B \<le> 0
           then ''BatchPutBytes one-shot n='' @ show_nat (length chunkKeys) @ '' + FlushWAL (fair vs SQLite COMMIT)''
           else ''BatchPutBytes slice='' @ Itoa (b_size B) @ '' SetBulkImport (scale; 0=one-shot fair)'') in
     must (when_ok (b_size B \<le> 0) (FlushWAL (b_env B) (b_tc B) (b_te B)) g) (\<lambda>g.
     let out = [row B ''chunk_batch_put_batched'' profile (int (length chunkKeys)) durability note] in
     if 0 < b_size B then
       and_then (aside (benchF4KVSChunkBulkImport B (sub_dir dir ''chunk_bulk_import'') profile chunkKeys chunkPayload) g)
         (\<lambda>rows g. Some (Done (out @ rows), g))
     else Some (Done out, g)))))"

text \<open>The side measurements of the path that does not skip the per-commit puts.\<close>

definition micro_sides ::
  "('x, 'c) bench \<Rightarrow> bytes \<Rightarrow> bytes \<Rightarrow> bytes list \<Rightarrow> bytes \<Rightarrow> ('x, 'c) go_state \<Rightarrow>
   (('f :: linordered_field) phaseResult list, ('x, 'c) go_state) run" where
  "micro_sides B dir profile chunkKeys chunkPayload g =
     and_then (aside (benchF4KVSChunkBatched B (sub_dir dir ''chunk_batched'') profile chunkKeys chunkPayload) g)
       (\<lambda>rows g.
     and_then (aside (benchF4KVSChunkBulkImport B (sub_dir dir ''chunk_bulk_import'') profile chunkKeys chunkPayload) g)
       (\<lambda>rows' g. Some (Done (rows @ rows'), g)))"

definition scanned :: "bytes list option \<Rightarrow> nat" where
  "scanned keys = (case keys of None \<Rightarrow> 0 | Some ks \<Rightarrow> length ks)"

definition benchF4KVS ::
  "('x, 'c) bench \<Rightarrow> bytes \<Rightarrow> bytes \<Rightarrow> bytes \<Rightarrow> OpenOptions option \<Rightarrow> bytes list \<Rightarrow> bytes list \<Rightarrow> bytes \<Rightarrow> bytes \<Rightarrow>
   int \<Rightarrow> bool \<Rightarrow> ('x, 'c) world \<Rightarrow> (('f :: linordered_field) phaseResult list, ('x, 'c) world) run" where
  "benchF4KVS B dir profile durability opts memoirKeys chunkKeys memoirPayload chunkPayload randomGets
     skipPerCommitChunks =
     (let opts = openOptsForProfile (b_size B) opts (int (length chunkKeys)) in
      with_engine B dir opts
        (\<lambda>g. must (put_each B memoirKeys memoirPayload g) (\<lambda>g.
             and_then (random_gets B memoirKeys (nat randomGets) 0 g) (\<lambda>_ g.
             let out = [row B ''memoir_batch_put'' profile (int (length memoirKeys)) durability ''per-commit'',
                        row B ''memoir_random_get'' profile randomGets durability []] in
             and_then (if \<not> skipPerCommitChunks then chunks_per_commit B dir profile durability opts chunkKeys chunkPayload g
                       else if usesGroupCommit opts then chunks_stream B dir profile durability chunkKeys chunkPayload g
                       else chunks_bulk B dir profile durability chunkKeys chunkPayload g) (\<lambda>rows g.
             and_then (if \<not> skipPerCommitChunks then micro_sides B dir profile chunkKeys chunkPayload g
                       else Some (Done [], g)) (\<lambda>sides g.
             do {
               (keys, g) \<leftarrow> ScanPrefixKeys (b_env B) (b_tc B) ''chunk:legal:'' g;
               and_then (random_gets B chunkKeys (nat randomGets) 0 g) (\<lambda>_ g.
               Some (Done (out @ rows @ sides @
                 [row B ''chunk_prefix_scan'' profile (int (scanned keys)) durability (''keys='' @ show_nat (scanned keys)),
                  row B ''chunk_random_get'' profile randomGets durability []]), g))
             }))))))"

end
