(* ===== verification/Driver_Contract.thy ===== *)
theory Driver_Contract
  imports Bench_Drivers
begin

text \<open>
  What the drivers do to the process: rules for runs over a live engine. A run returns, and unless it ends
  the process it leaves the engine live and the C heap as it found it. The rules follow the structure of
  the drivers, so that a driver is checked call by call. \<open>bounded_replies\<close> is what the drivers rely on from
  the library: a value fits a C \<^verbatim>\<open>int\<close> and a scan has less than a billion keys.
\<close>

section \<open>Runs\<close>

definition bounded_replies :: "('x, 'c) env \<Rightarrow> bool" where
  "bounded_replies E \<longleftrightarrow>
     (\<forall>e k x v x'. lsm_get E e k x = (Inr (Some v), x') \<longrightarrow> length (value_to_bytes v) < 2 ^ 31) \<and>
     (\<forall>e p x ks x'. lsm_scan_prefix E e p x = (Inr ks, x') \<longrightarrow> length ks \<le> 2 ^ 30)"

definition bench_ok :: "('x, 'c) bench \<Rightarrow> bool" where
  "bench_ok B \<longleftrightarrow> fresh_allocator (allocator (b_env B)) \<and> bounded_replies (b_env B)"

definition good_dir :: "bytes \<Rightarrow> bool" where
  "good_dir d \<longleftrightarrow> d \<noteq> [] \<and> c_key d \<and> valid_utf8 d"

definition calm :: "eid \<Rightarrow> ('x, 'c) go_state \<Rightarrow> ('x, 'c) go_state \<Rightarrow> bool" where
  "calm e g g' \<longleftrightarrow> live g' e \<and> g_engine g' = g_engine g \<and> heap (g_world g') = heap (g_world g)"

definition safe_op :: "eid \<Rightarrow> ('x, 'c) go_state \<Rightarrow> ('a \<times> ('x, 'c) go_state) option \<Rightarrow> bool" where
  "safe_op e g r \<longleftrightarrow> (\<exists>a g'. r = Some (a, g') \<and> calm e g g')"

text \<open>A run that may panic only if \<open>P\<close>, and whose value satisfies \<open>Q\<close>.\<close>

fun ends :: "bool \<Rightarrow> ('a \<Rightarrow> bool) \<Rightarrow> bool \<Rightarrow> 'a outcome \<Rightarrow> bool" where
  "ends P Q c (Done a) \<longleftrightarrow> Q a \<and> c"
| "ends P Q c (Panic m) \<longleftrightarrow> P \<and> c"
| "ends P Q c (Fatal err) \<longleftrightarrow> True"

text \<open>
  The same over any relation \<open>keep\<close> between the states before and after that composes: the rules for
  \<^const>\<open>must\<close> and \<^const>\<open>and_then\<close> are proved once for it.
\<close>

definition run_ends :: "('s \<Rightarrow> 's \<Rightarrow> bool) \<Rightarrow> bool \<Rightarrow> ('a \<Rightarrow> bool) \<Rightarrow> 's \<Rightarrow> ('a, 's) run \<Rightarrow> bool" where
  "run_ends keep P Q s r \<longleftrightarrow> (\<exists>out s'. r = Some (out, s') \<and> ends P Q (keep s s') out)"

lemma ends_mono: "ends P Q c out \<Longrightarrow> (P \<Longrightarrow> P') \<Longrightarrow> (\<And>a. Q a \<Longrightarrow> Q' a) \<Longrightarrow> (c \<Longrightarrow> c') \<Longrightarrow> ends P' Q' c' out"
  by (cases out) auto

lemma run_ends_mono:
  "run_ends keep P Q s r \<Longrightarrow> (P \<Longrightarrow> P') \<Longrightarrow> (\<And>a. Q a \<Longrightarrow> Q' a) \<Longrightarrow> run_ends keep P' Q' s r"
  unfolding run_ends_def by (blast intro: ends_mono)

locale frame =
  fixes keep :: "'s \<Rightarrow> 's \<Rightarrow> bool"
  assumes keep_trans: "keep s s1 \<Longrightarrow> keep s1 s2 \<Longrightarrow> keep s s2"
begin

lemma run_after:
  assumes "keep s s1" "run_ends keep P Q s1 r"
  shows "run_ends keep P Q s r"
proof -
  from assms(2) obtain out s' where "r = Some (out, s')" "ends P Q (keep s1 s') out" by (auto simp: run_ends_def)
  moreover from this(2) have "ends P Q (keep s s') out" by (rule ends_mono) (auto intro: keep_trans [OF assms(1)])
  ultimately show ?thesis by (auto simp: run_ends_def)
qed

lemma run_must:
  assumes "\<exists>a s1. r = Some (a, s1) \<and> (a = None \<longrightarrow> keep s s1)" "\<And>s1. keep s s1 \<Longrightarrow> run_ends keep P Q s1 (k s1)"
  shows "run_ends keep P Q s (must r k)"
proof -
  from assms(1) obtain a s1 where r: "r = Some (a, s1)" "a = None \<longrightarrow> keep s s1" by blast
  show ?thesis
  proof (cases a)
    case None
    with r run_after [OF _ assms(2)] show ?thesis by (simp add: must_def)
  qed (use r in \<open>simp add: must_def run_ends_def\<close>)
qed

lemma run_and_then:
  assumes "run_ends keep P Q' s r" "\<And>a s1. Q' a \<Longrightarrow> keep s s1 \<Longrightarrow> run_ends keep P Q s1 (k a s1)"
  shows "run_ends keep P Q s (and_then r k)"
proof -
  from assms(1) obtain out s1 where r: "r = Some (out, s1)" "ends P Q' (keep s s1) out" by (auto simp: run_ends_def)
  show ?thesis
  proof (cases out)
    case (Done a)
    with r have "Q' a" "keep s s1" by simp_all
    with run_after [OF this(2) assms(2)] r Done show ?thesis by (simp add: and_then_def)
  qed (use r in \<open>auto simp: and_then_def run_ends_def\<close>)
qed

end

definition safe_run :: "bool \<Rightarrow> ('a \<Rightarrow> bool) \<Rightarrow> eid \<Rightarrow> ('x, 'c) go_state \<Rightarrow> ('a, ('x, 'c) go_state) run \<Rightarrow> bool" where
  "safe_run P Q e g r \<longleftrightarrow> (\<exists>out g'. r = Some (out, g') \<and> ends P Q (calm e g g') out)"

definition safe_world :: "bool \<Rightarrow> ('a \<Rightarrow> bool) \<Rightarrow> ('x, 'c) world \<Rightarrow> ('a, ('x, 'c) world) run \<Rightarrow> bool" where
  "safe_world P Q w r \<longleftrightarrow> (\<exists>out w'. r = Some (out, w') \<and> ends P Q (heap w' = heap w \<and> reg_inv w') out)"

lemma calm_refl [simp]: "calm e g g \<longleftrightarrow> live g e"
  by (simp add: calm_def)

lemma calm_trans: "calm e g g1 \<Longrightarrow> calm e g1 g2 \<Longrightarrow> calm e g g2"
  by (simp add: calm_def)

lemma calm_live: "calm e g g' \<Longrightarrow> live g' e"
  by (simp add: calm_def)

lemma safe_done: "calm e g g' \<Longrightarrow> Q a \<Longrightarrow> safe_run P Q e g (Some (Done a, g'))"
  by (simp add: safe_run_def)

interpretation calm: frame "calm e" for e
  by unfold_locales (rule calm_trans)

lemma safe_run_ends: "safe_run P Q e g r \<longleftrightarrow> run_ends (calm e) P Q g r"
  by (simp add: safe_run_def run_ends_def)

lemma safe_after: "calm e g g1 \<Longrightarrow> safe_run P Q e g1 r \<Longrightarrow> safe_run P Q e g r"
  unfolding safe_run_ends by (rule calm.run_after)

lemma safe_mono: "safe_run P Q e g r \<Longrightarrow> (P \<Longrightarrow> P') \<Longrightarrow> (\<And>a. Q a \<Longrightarrow> Q' a) \<Longrightarrow> safe_run P' Q' e g r"
  unfolding safe_run_ends by (rule run_ends_mono)

lemma safe_must:
  assumes "safe_op e g r" "\<And>g'. live g' e \<Longrightarrow> safe_run P Q e g' (k g')"
  shows "safe_run P Q e g (must r k)"
  using assms unfolding safe_run_ends by (auto simp: safe_op_def intro!: calm.run_must dest: calm_live)

lemma safe_and_then:
  assumes "safe_run P Q' e g r" "\<And>a g'. Q' a \<Longrightarrow> live g' e \<Longrightarrow> safe_run P Q e g' (k a g')"
  shows "safe_run P Q e g (and_then r k)"
  using assms unfolding safe_run_ends by (blast intro: calm.run_and_then dest: calm_live)

lemma safe_op_bind:
  assumes "safe_op e g r" "\<And>a g'. live g' e \<Longrightarrow> safe_run P Q e g' (k a g')"
  shows "safe_run P Q e g (r \<bind> (\<lambda>(a, g'). k a g'))"
proof -
  from assms(1) obtain a g1 where r: "r = Some (a, g1)" "calm e g g1" by (auto simp: safe_op_def)
  from safe_after [OF r(2) assms(2) [OF calm_live [OF r(2)]]] r show ?thesis by simp
qed

section \<open>The methods the drivers call\<close>

lemma calm_after [simp]: "live g e \<Longrightarrow> calm e g (after tc rx n g)"
  by (simp add: calm_def)

lemma calm_after_get [simp]: "live g e \<Longrightarrow> calm e g (after_get tc rx n g)"
  by (simp add: calm_def live_after_get) (simp add: after_get_def)

lemma calm_publish: "live g e \<Longrightarrow> calm e g (g\<lparr>g_world := publish tc rx (g_world g)\<rparr>)"
  by (simp add: calm_def live_def)

lemma put_safe:
  assumes "bench_ok B" "live g e"
  shows "safe_op e g (PutBytes (b_env B) (b_tc B) (b_te B) k v g)"
  using PutBytes_refines [OF assms(2), of "b_env B" "b_tc B" "b_te B" k v] assms
  by (auto simp: bench_ok_def safe_op_def Let_def)

lemma api_get_small:
  "bounded_replies E \<Longrightarrow> fst (api_get E e k x) = Inr (Some v) \<Longrightarrow> length (value_to_bytes v) < 2 ^ 31"
  unfolding bounded_replies_def api_get_def storage_def
  by (auto split: sum.splits prod.splits) (metis (no_types, lifting))

lemma get_safe:
  assumes "bench_ok B" "live g e"
  shows "safe_op e g (GetBytes (b_env B) (b_tc B) (b_te B) k g)"
proof -
  from assms(1) have b: "fresh_allocator (allocator (b_env B))" "bounded_replies (b_env B)" by (simp_all add: bench_ok_def)
  from GetBytes_refines [where key = k and tc = "b_tc B" and te = "b_te B", OF assms(2) b(1)] api_get_small [OF b(2)] assms(2) show ?thesis
    by (fastforce simp: safe_op_def Let_def)
qed

lemma batch_safe:
  assumes "bench_ok B" "live g e"
  shows "safe_op e g (BatchPutBytes (b_env B) (b_tc B) (b_te B) items g)"
proof (cases "items = []")
  case True
  with assms show ?thesis by (simp add: safe_op_def BatchPutBytes_def)
next
  case False
  with BatchPutBytes_refines [OF assms(2), of "b_env B" items "b_tc B" "b_te B"] assms show ?thesis
    by (auto simp: bench_ok_def safe_op_def Let_def)
qed

lemma flush_safe: "live g e \<Longrightarrow> safe_op e g (FlushWAL E tc te g)"
  by (simp add: FlushWAL_refines Let_def safe_op_def calm_publish)

lemma bulk_safe: "live g e \<Longrightarrow> safe_op e g (SetBulkImport E tc te on g)"
  by (simp add: SetBulkImport_refines safe_op_def calm_def live_def)

lemma api_scan_small:
  "bounded_replies E \<Longrightarrow> fst (api_scan E e p x) = Inr ks \<Longrightarrow> length ks \<le> 2 ^ 30"
  unfolding bounded_replies_def api_scan_def storage_def
  by (auto simp: check_nul_Inr split: sum.splits prod.splits) (metis (no_types, lifting))

lemma scan_safe:
  assumes "bench_ok B" "live g e"
  shows "safe_op e g (ScanPrefixKeys (b_env B) (b_tc B) p g)"
proof -
  from assms(1) have b: "fresh_allocator (allocator (b_env B))" "bounded_replies (b_env B)" by (simp_all add: bench_ok_def)
  from ScanPrefixKeys_refines [where pfx = p and tc = "b_tc B", OF assms(2) b(1)] api_scan_small [OF b(2)] assms(2) show ?thesis
    by (fastforce simp: safe_op_def Let_def)
qed

lemma when_safe: "live g e \<Longrightarrow> safe_op e g (f g) \<Longrightarrow> safe_op e g (when_ok b f g)"
  by (simp add: when_ok_def safe_op_def)

section \<open>The loops\<close>

lemma put_each_safe:
  assumes "bench_ok B" "live g e"
  shows "safe_op e g (put_each B keys p g)"
  using assms(2)
proof (induction keys arbitrary: g)
  case Nil
  then show ?case by (simp add: safe_op_def)
next
  case (Cons k keys)
  from put_safe [OF assms(1) Cons.prems, of k p] obtain r g1 where
    1: "PutBytes (b_env B) (b_tc B) (b_te B) k p g = Some (r, g1)" "calm e g g1" by (auto simp: safe_op_def)
  with Cons.IH [OF calm_live [OF 1(2)]] show ?case
    by (cases r) (auto simp: safe_op_def intro: calm_trans)
qed

lemma random_gets_safe:
  assumes "bench_ok B" "live g e"
  shows "safe_run (0 < n \<and> keys = []) (\<lambda>_. 0 < n \<longrightarrow> keys \<noteq> []) e g (random_gets B keys n i g)"
  using assms(2)
proof (induction n arbitrary: i g)
  case 0
  then show ?case by (simp add: safe_run_def)
next
  case (Suc n)
  show ?case
  proof (cases "keys = []")
    case True
    with Suc.prems show ?thesis by (simp add: safe_run_def)
  next
    case False
    from get_safe [OF assms(1) Suc.prems, of "keys ! (i mod length keys)"] obtain r g1 where
      1: "GetBytes (b_env B) (b_tc B) (b_te B) (keys ! (i mod length keys)) g = Some (r, g1)" "calm e g g1"
      by (auto simp: safe_op_def)
    show ?thesis
    proof (cases r)
      case (Inl err)
      with 1 False show ?thesis by (simp add: safe_run_def)
    next
      case (Inr v)
      have "safe_run (0 < Suc n \<and> keys = []) (\<lambda>_. 0 < Suc n \<longrightarrow> keys \<noteq> []) e g1 (random_gets B keys n (Suc i) g1)"
        by (rule safe_mono [OF Suc.IH [OF calm_live [OF 1(2)]]]) (use False in auto)
      from safe_after [OF 1(2) this] 1(1) Inr False show ?thesis by simp
    qed
  qed
qed

lemma put_slices_safe:
  assumes "\<And>items g. live g e \<Longrightarrow> safe_op e g (bp items g)" "live g e" "keys \<noteq> [] \<longrightarrow> 0 < step"
  shows "safe_op e g (put_slices bp rng step keys v g)"
  using assms(2,3)
proof (induction "length keys" arbitrary: keys g rule: less_induct)
  case less
  show ?case
  proof (cases "keys = []")
    case True
    with less.prems show ?thesis by (simp add: put_slices.simps safe_op_def)
  next
    case False
    with less.prems have st: "0 < step" by simp
    from assms(1) [OF less.prems(1), of "slice_items rng (take step keys) v"] obtain r g1 where
      1: "bp (slice_items rng (take step keys) v) g = Some (r, g1)" "calm e g g1" by (auto simp: safe_op_def)
    have "length (drop step keys) < length keys" using False st by simp
    from less.hyps [OF this calm_live [OF 1(2)]] st 1 False show ?thesis
      by (cases r) (auto simp: put_slices.simps [of bp rng step keys] safe_op_def intro: calm_trans)
  qed
qed

lemma load_safe:
  assumes "bench_ok B" "live g e"
  shows "safe_op e g (load_chunked B keys p g)"
proof -
  have "keys \<noteq> [] \<longrightarrow> 0 < nat (resolveBatchPutSize (int (length keys)) (b_size B))"
    using resolve_bounds [of "int (length keys)" "b_size B"] by simp
  with put_slices_safe [of e, OF batch_safe [OF assms(1)] assms(2)] show ?thesis
    by (simp add: chunked_step)
qed

section \<open>Engines of a driver\<close>

lemma open_total:
  assumes "fresh_allocator (allocator E)" "reg_inv w" "good_dir path"
  shows "\<exists>r w'. NewPersistentEngineWithOptions E pad tc te path opts w = Some (r, w') \<and>
     (\<forall>eng. r = Inr eng \<longrightarrow>
        (\<exists>h e x' n. lsm_new E (engine_config E path (map_option copts_of opts)) (lsm w) = (Inr e, x') \<and>
           eng = new_F4KVS h \<and> 1 < h \<and> heap w h = None \<and>
           w' = w\<lparr>heap := (heap w)(h \<mapsto> EngineBox e), tick := n, arcs := (arcs w)(e := 1), lsm := x'\<rparr>))"
proof (cases "lsm_new E (engine_config E path (map_option copts_of opts)) (lsm w)")
  case (Pair r x')
  from assms(3) have p: "c_key path" "valid_utf8 path" "path \<noteq> []" by (simp_all add: good_dir_def)
  show ?thesis
  proof (cases r)
    case (Inr e)
    from open_ok [OF assms(1,2) p, of opts e x' pad tc te] Pair Inr show ?thesis by (auto 0 3)
  next
    case (Inl m)
    from assms(1,2) obtain a where
      a: "c_string (allocator E) path w =
           (a, w\<lparr>heap := (heap w)(a \<mapsto> CMem (path @ [NUL])), tick := Suc (tick w)\<rparr>)" (is "_ = (a, ?w1)")
        "heap w a = None" "1 < a"
      by (rule c_stringE)
    have "open_lsm_engine E tc path (map_option copts_of opts) ?w1 =
        (Inl ErrorStorage, set_last_error tc (''Failed to open LSM engine: '' @ m) (?w1\<lparr>lsm := x'\<rparr>))"
      using Pair Inl by (simp add: open_lsm_engine_def lsm_call_def)
    moreover note open_call [where p = a and w = ?w1 and s = path and opts = opts and E = E and t = tc and pad = pad]
    ultimately show ?thesis
      using p a by (simp add: NewPersistentEngineWithOptions_def box_engine_def c_free_def drop_block_def
          set_last_error_def)
  qed
qed

text \<open>An engine that does not open leaves the heap alone.\<close>

lemma open_refused:
  assumes "fresh_allocator (allocator E)" "reg_inv w" "good_dir path"
    and "NewPersistentEngineWithOptions E pad tc te path opts w = Some (Inl err, w')"
  shows "heap w' = heap w \<and> reg_inv w'"
proof (cases "lsm_new E (engine_config E path (map_option copts_of opts)) (lsm w)")
  case (Pair r x')
  from assms(3) have p: "c_key path" "valid_utf8 path" "path \<noteq> []" by (simp_all add: good_dir_def)
  show ?thesis
  proof (cases r)
    case (Inr e)
    from open_ok [OF assms(1,2) p, of opts e x' pad tc te] Pair Inr assms(4) show ?thesis by auto
  next
    case (Inl m)
    from assms(1,2) obtain a where
      a: "c_string (allocator E) path w =
           (a, w\<lparr>heap := (heap w)(a \<mapsto> CMem (path @ [NUL])), tick := Suc (tick w)\<rparr>)" (is "_ = (a, ?w1)")
        "heap w a = None" "1 < a"
      by (rule c_stringE)
    have "open_lsm_engine E tc path (map_option copts_of opts) ?w1 =
        (Inl ErrorStorage, set_last_error tc (''Failed to open LSM engine: '' @ m) (?w1\<lparr>lsm := x'\<rparr>))"
      using Pair Inl by (simp add: open_lsm_engine_def lsm_call_def)
    moreover note open_call [where p = a and w = ?w1 and s = path and opts = opts and E = E and t = tc and pad = pad]
    ultimately have "\<exists>le. w' = w\<lparr>tick := Suc (tick w), lsm := x', last_error := le\<rparr>"
      using p a assms(4) by (auto simp: NewPersistentEngineWithOptions_def box_engine_def c_free_def drop_block_def
          set_last_error_def fun_upd_idem)
    then show ?thesis using assms(2) by (auto simp: reg_inv_def)
  qed
qed

text \<open>The body runs on a live engine that nobody else uses.\<close>

lemma with_engine_safe:
  assumes "bench_ok B" "reg_inv w" "good_dir dir"
    and body: "\<And>g e. live g e \<Longrightarrow> safe_run P Q e g (body g)"
  shows "safe_world P Q w (with_engine B dir opts body w)"
proof -
  from assms(1) have al: "fresh_allocator (allocator (b_env B))" by (simp add: bench_ok_def)
  from open_total [OF al assms(2,3), of "b_pad B" "b_tc B" "b_te B" opts] obtain r w1 where
    o: "NewPersistentEngineWithOptions (b_env B) (b_pad B) (b_tc B) (b_te B) dir opts w = Some (r, w1)"
      "\<forall>eng. r = Inr eng \<longrightarrow> (\<exists>h e x' n. eng = new_F4KVS h \<and> 1 < h \<and> heap w h = None \<and>
         w1 = w\<lparr>heap := (heap w)(h \<mapsto> EngineBox e), tick := n, arcs := (arcs w)(e := 1), lsm := x'\<rparr>)" by blast
  show ?thesis
  proof (cases r)
    case (Inl err)
    with o(1) show ?thesis by (simp add: with_engine_def safe_world_def)
  next
    case (Inr eng)
    with o(2) obtain h e x' n where
      h: "eng = new_F4KVS h" "1 < h" "heap w h = None"
        "w1 = w\<lparr>heap := (heap w)(h \<mapsto> EngineBox e), tick := n, arcs := (arcs w)(e := 1), lsm := x'\<rparr>" by blast
    let ?g = "\<lparr>g_engine = eng, g_world = w1\<rparr>"
    have "live ?g e" unfolding h(1,4) by (rule opened_live [OF assms(2) h(3,2)])
    from body [OF this] obtain out g1 where
      b: "body ?g = Some (out, g1)"
        "ends P Q (calm e ?g g1) out"
      by (auto simp: safe_run_def)
    have close: "\<exists>g2. Close (b_env B) (b_tc B) g1 = Some g2 \<and> heap (g_world g2) = heap w \<and> reg_inv (g_world g2)"
      if c: "calm e ?g g1"
    proof -
      have "mu_readers (g_engine g1) = 0" "handle (g_engine g1) = h" using c h(1) by (simp_all add: calm_def new_F4KVS_def)
      with Close_live [OF calm_live [OF c], of "b_env B" "b_tc B"] c h show ?thesis
        by (auto simp: is_closed_def calm_def fun_upd_idem)
    qed
    show ?thesis
    proof (cases out)
      case (Done a)
      with b close o(1) Inr show ?thesis by (auto simp: with_engine_def safe_world_def)
    next
      case (Fatal err)
      with b o(1) Inr show ?thesis by (simp add: with_engine_def safe_world_def)
    next
      case (Panic m)
      with b close o(1) Inr show ?thesis by (auto simp: with_engine_def safe_world_def)
    qed
  qed
qed

lemma aside_safe:
  assumes "live g e" "safe_world P Q (g_world g) (f (g_world g))"
  shows "safe_run P Q e g (aside f g)"
proof -
  from assms(2) obtain out w' where
    f: "f (g_world g) = Some (out, w')" "ends P Q (heap w' = heap (g_world g) \<and> reg_inv w') out"
    by (auto simp: safe_world_def)
  from f(2) have "ends P Q (calm e g (g\<lparr>g_world := w'\<rparr>)) out"
    by (rule ends_mono) (use assms(1) in \<open>auto simp: calm_def live_def\<close>)
  with f(1) show ?thesis by (simp add: aside_def safe_run_def)
qed

lemma valid_utf8_append: "valid_utf8 s \<Longrightarrow> valid_utf8 t \<Longrightarrow> valid_utf8 (s @ t)"
proof (induction s rule: from_utf8_lossy.induct)
  case 1
  then show ?case by simp
next
  case (2 c s)
  then obtain w where w: "utf8_head c s = U_ok w" "valid_utf8 (drop (w - 1) s)" by (auto simp: valid_utf8_Cons)
  have eq: "(c # s) @ t = c # take (w - 1) s @ (drop (w - 1) s @ t)"
    by (metis append_Cons append_assoc append_take_drop_id)
  from 2 w have "valid_utf8 (drop (w - 1) s @ t)" by simp
  then show ?case unfolding eq by (rule valid_utf8_char_append [OF w(1)])
qed

lemma good_sub_dir:
  assumes "good_dir dir" "\<forall>c\<in>set name. (of_char c :: nat) < 0x80 \<and> c \<noteq> NUL"
  shows "good_dir (sub_dir dir name)"
proof -
  have "valid_utf8 (''/'' @ name)" by (rule valid_utf8_ascii) (use assms(2) in auto)
  with valid_utf8_append assms show ?thesis by (auto simp: good_dir_def sub_dir_def c_key_def)
qed

lemma good_sub_dirs:
  assumes "good_dir dir"
  shows "good_dir (sub_dir dir ''chunk_durable'')" "good_dir (sub_dir dir ''chunk_batched'')"
    "good_dir (sub_dir dir ''chunk_bulk_import'')"
  using assms by (intro good_sub_dir; simp)+

section \<open>The drivers\<close>

definition phases_of :: "'f phaseResult list \<Rightarrow> bytes list" where
  "phases_of rows = map pr_Phase rows"

lemma phases_of_simps [simp]:
  "phases_of [] = []" "phases_of (r # rows) = pr_Phase r # phases_of rows"
  "phases_of (rows @ rows') = phases_of rows @ phases_of rows'" "pr_Phase (row B phase profile n d x) = phase"
  by (simp_all add: phases_of_def row_def result_def Let_def)

lemma safe_world_lsm: "safe_world P Q (w\<lparr>lsm := x\<rparr>) r \<Longrightarrow> safe_world P Q w r"
  by (simp add: safe_world_def)

lemma ChunkDurable_safe:
  assumes "bench_ok B" "reg_inv w" "good_dir dir"
  shows "safe_world P (\<lambda>rows. phases_of rows = [''chunk_batch_put_durable'']) w
    (benchF4KVSChunkDurable B dir profile durability opts keys payload w)"
  unfolding benchF4KVSChunkDurable_def Let_def
  by (rule safe_world_lsm, rule with_engine_safe [OF assms(1) _ good_sub_dirs(1) [OF assms(3)]])
    (simp_all add: assms(2) safe_must put_each_safe [OF assms(1)] flush_safe safe_done)

lemma ChunkBatchPut_safe:
  assumes "bench_ok B" "reg_inv w" "good_dir dir"
  shows "safe_world P (\<lambda>rows. phases_of rows = [phase]) w
    (benchF4KVSChunkBatchPut B dir profile keys payload bulk phase note w)"
  unfolding benchF4KVSChunkBatchPut_def
  by (intro with_engine_safe [OF assms] safe_must safe_done)
    (simp_all add: when_safe bulk_safe flush_safe load_safe [OF assms(1)])

lemma Chunk_sides:
  assumes "bench_ok B" "reg_inv w" "good_dir dir"
  shows "safe_world P (\<lambda>rows. phases_of rows = [''chunk_batch_put_batched'']) w
      (benchF4KVSChunkBatched B (sub_dir dir ''chunk_batched'') profile keys payload w)"
    "safe_world P (\<lambda>rows. phases_of rows = [''chunk_batch_put_bulk_import'']) w
      (benchF4KVSChunkBulkImport B (sub_dir dir ''chunk_bulk_import'') profile keys payload w)"
  unfolding benchF4KVSChunkBatched_def benchF4KVSChunkBulkImport_def
  by (intro ChunkBatchPut_safe assms good_sub_dirs)+

lemma live_reg_inv: "live g e \<Longrightarrow> reg_inv (g_world g)"
  by (simp add: live_def)

lemma aside_sides:
  assumes "bench_ok B" "good_dir dir" "live g e"
  shows "safe_run P (\<lambda>rows. phases_of rows = [''chunk_batch_put_durable'']) e g
      (aside (benchF4KVSChunkDurable B dir profile durability opts keys payload) g)"
    "safe_run P (\<lambda>rows. phases_of rows = [''chunk_batch_put_batched'']) e g
      (aside (benchF4KVSChunkBatched B (sub_dir dir ''chunk_batched'') profile keys payload) g)"
    "safe_run P (\<lambda>rows. phases_of rows = [''chunk_batch_put_bulk_import'']) e g
      (aside (benchF4KVSChunkBulkImport B (sub_dir dir ''chunk_bulk_import'') profile keys payload) g)"
  using assms by (auto intro!: aside_safe ChunkDurable_safe Chunk_sides live_reg_inv)

lemma per_commit_safe:
  assumes "bench_ok B" "good_dir dir" "live g e"
  shows "safe_run P (\<lambda>rows. phases_of rows = [''chunk_batch_put''] @
       (if usesGroupCommit opts then [''chunk_batch_put_flush'', ''chunk_batch_put_durable''] else [])) e g
    (chunks_per_commit B dir profile durability opts keys payload g)"
proof -
  note side = aside_sides [OF assms(1,2)]
  show ?thesis
    unfolding chunks_per_commit_def Let_def
    by (intro safe_must put_each_safe [OF assms(1)] assms(3))
      (auto intro!: safe_must safe_done safe_and_then [OF side(1)] flush_safe)
qed

lemma stream_safe:
  assumes "bench_ok B" "good_dir dir" "live g e"
  shows "safe_run P (\<lambda>rows. phases_of rows = [''chunk_put_group_commit'', ''chunk_batch_put_batched'']) e g
    (chunks_stream B dir profile durability keys payload g)"
proof -
  note side = aside_sides [OF assms(1,2)]
  show ?thesis
    unfolding chunks_stream_def Let_def
    by (intro safe_must bulk_safe put_each_safe [OF assms(1)] flush_safe assms(3) safe_and_then [OF side(2)] safe_done)
      simp_all
qed

lemma bulk_load_safe:
  assumes "bench_ok B" "good_dir dir" "live g e"
  shows "safe_run P (\<lambda>rows. phases_of rows = [''chunk_batch_put_batched''] @
       (if 0 < b_size B then [''chunk_batch_put_bulk_import''] else [])) e g
    (chunks_bulk B dir profile durability keys payload g)"
proof -
  note side = aside_sides [OF assms(1,2)]
  show ?thesis
    unfolding chunks_bulk_def Let_def
    by (intro safe_must bulk_safe load_safe [OF assms(1)] when_safe flush_safe assms(3))
      (auto intro!: safe_done safe_and_then [OF side(3)])
qed

lemma micro_sides_safe:
  assumes "bench_ok B" "good_dir dir" "live g e"
  shows "safe_run P (\<lambda>rows. phases_of rows = [''chunk_batch_put_batched'', ''chunk_batch_put_bulk_import'']) e g
    (micro_sides B dir profile keys payload g)"
proof -
  note side = aside_sides [OF assms(1,2)]
  show ?thesis
    unfolding micro_sides_def
    by (intro safe_and_then [OF side(2)] safe_and_then [OF side(3)] assms(3) safe_done) simp_all
qed

text \<open>The phases of a full run, in the order of its rows.\<close>

definition driver_phases :: "bool \<Rightarrow> bool \<Rightarrow> bool \<Rightarrow> bytes list" where
  "driver_phases skip grouped sliced =
     [''memoir_batch_put'', ''memoir_random_get''] @
     (if \<not> skip then
        [''chunk_batch_put''] @ (if grouped then [''chunk_batch_put_flush'', ''chunk_batch_put_durable''] else []) @
        [''chunk_batch_put_batched'', ''chunk_batch_put_bulk_import'']
      else if grouped then [''chunk_put_group_commit'', ''chunk_batch_put_batched'']
      else [''chunk_batch_put_batched''] @ (if sliced then [''chunk_batch_put_bulk_import''] else [])) @
     [''chunk_prefix_scan'', ''chunk_random_get'']"

lemma random_gets_safe':
  assumes "bench_ok B" "live g e" "0 < n \<Longrightarrow> keys = [] \<Longrightarrow> P"
  shows "safe_run P (\<lambda>_. 0 < n \<longrightarrow> keys \<noteq> []) e g (random_gets B keys n i g)"
  using random_gets_safe [OF assms(1,2)] by (rule safe_mono) (use assms(3) in auto)

lemma benchF4KVS_safe:
  assumes "bench_ok B" "reg_inv w" "good_dir dir"
  shows "safe_world (0 < randomGets \<and> (memoirKeys = [] \<or> chunkKeys = []))
    (\<lambda>rows. phases_of rows =
         driver_phases skip (usesGroupCommit (openOptsForProfile (b_size B) opts (int (length chunkKeys)))) (0 < b_size B) \<and>
       (0 < randomGets \<longrightarrow> memoirKeys \<noteq> [] \<and> chunkKeys \<noteq> [])) w
    (benchF4KVS B dir profile durability opts memoirKeys chunkKeys mp cp randomGets skip w)"
proof -
  let ?P = "0 < randomGets \<and> (memoirKeys = [] \<or> chunkKeys = [])"
  let ?o = "openOptsForProfile (b_size B) opts (int (length chunkKeys))"
  let ?ph = "if \<not> skip then [''chunk_batch_put''] @
        (if usesGroupCommit ?o then [''chunk_batch_put_flush'', ''chunk_batch_put_durable''] else [])
      else if usesGroupCommit ?o then [''chunk_put_group_commit'', ''chunk_batch_put_batched'']
      else [''chunk_batch_put_batched''] @ (if 0 < b_size B then [''chunk_batch_put_bulk_import''] else [])"
  have chunks: "safe_run ?P (\<lambda>rows. phases_of rows = ?ph) e g
     (if \<not> skip then chunks_per_commit B dir profile durability ?o chunkKeys cp g
      else if usesGroupCommit ?o then chunks_stream B dir profile durability chunkKeys cp g
      else chunks_bulk B dir profile durability chunkKeys cp g)" if "live g e" for g e
  proof (cases skip)
    case False
    with per_commit_safe [OF assms(1,3) that] show ?thesis by (simp only: not_False_eq_True if_True)
  next
    case True
    show ?thesis
    proof (cases "usesGroupCommit ?o")
      case grouped: True
      from stream_safe [OF assms(1,3) that] show ?thesis
        by (simp only: True grouped not_True_eq_False if_True if_False)
    next
      case False
      from bulk_load_safe [OF assms(1,3) that] show ?thesis
        by (simp only: True False not_True_eq_False if_False)
    qed
  qed
  have sides: "safe_run ?P (\<lambda>rows. phases_of rows =
        (if skip then [] else [''chunk_batch_put_batched'', ''chunk_batch_put_bulk_import''])) e g
     (if \<not> skip then micro_sides B dir profile chunkKeys cp g else Some (Done [], g))" if "live g e" for g e
  proof (cases skip)
    case False
    with micro_sides_safe [OF assms(1,3) that] show ?thesis by (simp only: not_False_eq_True if_True if_False)
  next
    case True
    with that show ?thesis by (simp add: safe_done)
  qed
  show ?thesis
    unfolding benchF4KVS_def Let_def
    apply (rule with_engine_safe [OF assms])
    apply (rule safe_must [OF put_each_safe [OF assms(1)]], assumption)
    apply (rule safe_and_then [OF random_gets_safe' [OF assms(1)]], assumption, simp)
    apply (rule safe_and_then [OF chunks], assumption)
    apply (rule safe_and_then [OF sides], assumption)
    apply (rule safe_op_bind [OF scan_safe [OF assms(1)]], assumption)
    apply (rule safe_and_then [OF random_gets_safe' [OF assms(1)]], assumption, simp)
    apply (rule safe_done, simp)
    apply (auto simp: driver_phases_def)
    done
qed

end
