(* ===== verification/Bench_Restart.thy ===== *)
theory Bench_Restart
  imports Driver_Contract Go_Store
begin

text \<open>
  The integrity gate of the benchmark harness: load all keys, close the engine, open it again and count
  (\<^verbatim>\<open>benchF4KVSPostRestart\<close> in \<^verbatim>\<open>main.go\<close>), with the keys the harness generates. \<open>restart_laws\<close> describes a
  library that keeps exactly the keys in a set \<open>S\<close> over a restart; the verdict of the gate is compared
  with it.
\<close>

section \<open>Keys\<close>

definition memoirKey :: "nat \<Rightarrow> bytes" where
  "memoirKey i = ''memoir:'' @ pad_nat 4 i"

definition chunkKey :: "nat \<Rightarrow> bytes" where
  "chunkKey i = ''chunk:legal:doc-'' @ pad_nat 4 (i div 10) @ '':chunk-'' @ pad_nat 6 i"

definition memoir_keys :: "nat \<Rightarrow> bytes list" where
  "memoir_keys n = map memoirKey [0..<n]"

definition chunk_keys :: "nat \<Rightarrow> bytes list" where
  "chunk_keys n = map chunkKey [0..<n]"

section \<open>The gate\<close>

text \<open>\<^verbatim>\<open>if err := ...; err != nil { engine.Close(); fatal(err) }\<close>, and a call whose error is ignored.\<close>

definition must_close ::
  "('x, 'c) bench \<Rightarrow> (go_error option \<times> ('x, 'c) go_state) option \<Rightarrow>
   (('x, 'c) go_state \<Rightarrow> ('a, ('x, 'c) go_state) run) \<Rightarrow> ('a, ('x, 'c) go_state) run" where
  "must_close B r k =
     (case r of
        None \<Rightarrow> None
      | Some (Some err, g) \<Rightarrow> do { g1 \<leftarrow> Close (b_env B) (b_tc B) g; Some (Fatal err, g1) }
      | Some (None, g) \<Rightarrow> k g)"

definition ignore_err :: "(go_error option \<times> 's) option \<Rightarrow> ('s \<Rightarrow> ('a, 's) run) \<Rightarrow> ('a, 's) run" where
  "ignore_err r k = (case r of None \<Rightarrow> None | Some (_, s) \<Rightarrow> k s)"

definition load_and_close ::
  "('x, 'c) bench \<Rightarrow> OpenOptions option \<Rightarrow> bytes list \<Rightarrow> bytes list \<Rightarrow> bytes \<Rightarrow> bytes \<Rightarrow> ('x, 'c) go_state \<Rightarrow>
   (unit, ('x, 'c) go_state) run" where
  "load_and_close B opts memoirKeys chunkKeys memoirPayload chunkPayload g =
     (let E = b_env B; tc = b_tc B; te = b_te B; many = 1000 < length chunkKeys in
      must_close B (when_ok (memoirKeys \<noteq> []) (BatchPutBytes E tc te (slice_items (b_rng B) memoirKeys memoirPayload)) g) (\<lambda>g.
      must_close B (when_ok many (SetBulkImport E tc te True) g) (\<lambda>g.
      must_close B (load_chunked B chunkKeys chunkPayload g) (\<lambda>g.
      ignore_err (when_ok (b_size B \<le> 0) (FlushWAL E tc te) g) (\<lambda>g.
      ignore_err (when_ok many (SetBulkImport E tc te False) g) (\<lambda>g.
      must_close B (when_ok (usesGroupCommit opts) (FlushWAL E tc te) g) (\<lambda>g.
      do { g \<leftarrow> Close E tc g; Some (Done (), g) })))))))"

definition restart_rows :: "bytes \<Rightarrow> int \<Rightarrow> nat \<Rightarrow> nat \<Rightarrow> ('f :: linordered_field) phaseResult list" where
  "restart_rows profile elapsed expected counted =
     (let ms = of_int (Microseconds elapsed) / 1000;
          integrity = (if counted = expected then 1 else 0);
          notes = ''expected='' @ show_nat expected @ '' counted='' @ show_nat counted in
      [metricResult ''post_restart_row_count'' profile ''duration_ms'' ms 0 ''ms'' ''reopen+count'',
       metricResult ''post_restart_row_count'' profile ''row_count'' (of_nat counted) 0 ''count'' notes,
       metricResult ''post_restart_row_count'' profile ''expected_row_count'' (of_nat expected) 0 ''count'' notes,
       metricResult ''post_restart_row_count'' profile ''integrity_ok'' integrity 0 ''bool'' ''1=pass 0=fail''])"

definition reopen_and_count ::
  "('x, 'c) bench \<Rightarrow> bytes \<Rightarrow> OpenOptions option \<Rightarrow> ('x, 'c) world \<Rightarrow> (nat, ('x, 'c) world) run" where
  "reopen_and_count B dir opts w =
     do {
       (r, w1) \<leftarrow> NewPersistentEngineWithOptions (b_env B) (b_pad B) (b_tc B) (b_te B) dir opts w;
       case r of
         Inl err \<Rightarrow> Some (Fatal err, w1)
       | Inr eng \<Rightarrow> do {
           (memoirs, g1) \<leftarrow> ScanPrefixKeys (b_env B) (b_tc B) ''memoir:'' \<lparr>g_engine = eng, g_world = w1\<rparr>;
           (chunks, g2) \<leftarrow> ScanPrefixKeys (b_env B) (b_tc B) ''chunk:'' g1;
           g3 \<leftarrow> Close (b_env B) (b_tc B) g2;
           Some (Done (scanned memoirs + scanned chunks), g_world g3)
         }
     }"

definition benchF4KVSPostRestart ::
  "('x, 'c) bench \<Rightarrow> bytes \<Rightarrow> bytes \<Rightarrow> OpenOptions option \<Rightarrow> bytes list \<Rightarrow> bytes list \<Rightarrow> bytes \<Rightarrow> bytes \<Rightarrow>
   ('x, 'c) world \<Rightarrow> (('f :: linordered_field) phaseResult list, ('x, 'c) world) run" where
  "benchF4KVSPostRestart B dir profile opts memoirKeys chunkKeys memoirPayload chunkPayload w =
     (let expected = length memoirKeys + length chunkKeys;
          opts = openOptsForProfile (b_size B) opts (int (length chunkKeys + length memoirKeys)) in
      do {
        (r, w1) \<leftarrow> NewPersistentEngineWithOptions (b_env B) (b_pad B) (b_tc B) (b_te B) dir opts
                    (w\<lparr>lsm := b_wipe B dir (lsm w)\<rparr>);
        case r of
          Inl err \<Rightarrow> Some (Fatal err, w1)
        | Inr eng \<Rightarrow> do {
            (out, g) \<leftarrow> load_and_close B opts memoirKeys chunkKeys memoirPayload chunkPayload
                          \<lparr>g_engine = eng, g_world = w1\<rparr>;
            and_then (Some (out, g_world g)) (\<lambda>_ w.
            and_then (reopen_and_count B dir opts w) (\<lambda>counted w.
            Some (Done (restart_rows profile (b_dur B profile ''post_restart_row_count'') expected counted), w)))
          }
      })"

section \<open>What a restart keeps\<close>

text \<open>
  \<open>home x e\<close> is the directory of an engine and \<open>disk x d\<close> what an engine opened on \<open>d\<close> would hold. Opening
  reads the disk, a removed directory is empty, the calls of the gate leave an engine where it is, and
  after closing the disk has the entries whose keys are in \<open>S\<close>.
\<close>

definition restart_laws ::
  "('x, 'c) env \<Rightarrow> 'x contents \<Rightarrow> ('x \<Rightarrow> eid \<Rightarrow> bytes) \<Rightarrow> ('x \<Rightarrow> bytes \<Rightarrow> bytes \<rightharpoonup> lsm_value) \<Rightarrow>
   (bytes \<Rightarrow> 'x \<Rightarrow> 'x) \<Rightarrow> bytes set \<Rightarrow> bool" where
  "restart_laws E kv home disk wipe S \<longleftrightarrow>
     (\<forall>c x e x'. lsm_new E c x = (Inr e, x') \<longrightarrow> home x' e = cfg_data_dir c \<and> kv x' e = disk x (cfg_data_dir c)) \<and>
     (\<forall>d x. disk (wipe d x) d = Map.empty) \<and>
     (\<forall>e kvs x r x'. lsm_batch_put E e kvs x = (r, x') \<longrightarrow> home x' e = home x e) \<and>
     (\<forall>e x r x'. lsm_flush_wal E e x = (r, x') \<longrightarrow> home x' e = home x e) \<and>
     (\<forall>e b x. home (lsm_set_bulk_import E e b x) e = home x e) \<and>
     (\<forall>e x r x'. lsm_shutdown E e x = (r, x') \<longrightarrow> disk (lsm_drop E e x') (home x e) = kv x e |` S)"

text \<open>
  A scan may fail; \<^verbatim>\<open>ScanPrefixKeys\<close> then answers nil, and the gate counts no key. \<open>scan_answers\<close> says that \<open>r\<close> is an
  answer of the library to a scan of an engine with the keys \<open>K\<close>, and \<open>counts\<close> that \<open>c\<close> is what the gate takes
  for the number of keys in \<open>K\<close> with the prefix.
\<close>

definition scan_answers ::
  "('x, 'c) env \<Rightarrow> 'x contents \<Rightarrow> bytes \<Rightarrow> bytes set \<Rightarrow> bytes + bytes list \<Rightarrow> bool" where
  "scan_answers E kv p K r \<longleftrightarrow> (\<exists>e x x'. dom (kv x e) = K \<and> lsm_scan_prefix E e p x = (r, x'))"

definition counts :: "('x, 'c) env \<Rightarrow> 'x contents \<Rightarrow> bytes \<Rightarrow> bytes set \<Rightarrow> nat \<Rightarrow> bool" where
  "counts E kv p K c \<longleftrightarrow>
     (\<exists>r. scan_answers E kv p K r \<and> c = (case r of Inl _ \<Rightarrow> 0 | Inr _ \<Rightarrow> card {k \<in> K. prefix p k}))"

section \<open>The generated keys\<close>

lemma pad_nat_chars: "c \<in> set (pad_nat w n) \<Longrightarrow> \<exists>d<10. c = digit_char d"
proof -
  assume "c \<in> set (pad_nat w n)"
  then have "c = CHR ''0'' \<or> c \<in> set (show_nat n)" by (auto simp: pad_nat_def)
  moreover have "CHR ''0'' = digit_char 0" by (simp add: digit_char_def char_of_def bit_iff_odd)
  ultimately show ?thesis using show_nat_digits by (metis zero_less_numeral)
qed

lemma c_key_pad: "NUL \<notin> set (pad_nat w n)"
  using pad_nat_chars digit_char_neq_NUL by metis

lemma c_key_keys [simp]: "c_key (memoirKey i)" "c_key (chunkKey i)"
  by (simp_all add: c_key_def memoirKey_def chunkKey_def c_key_pad)

lemma keys_inject [simp]:
  "memoirKey i = memoirKey j \<longleftrightarrow> i = j" "chunkKey i = chunkKey j \<longleftrightarrow> i = j"
proof -
  show "memoirKey i = memoirKey j \<longleftrightarrow> i = j" by (simp add: memoirKey_def)
  show "chunkKey i = chunkKey j \<longleftrightarrow> i = j"
  proof
    assume eq: "chunkKey i = chunkKey j"
    define colon where "colon = CHR '':''"
    have nc: "colon \<notin> set (pad_nat w n)" for w n
    proof
      assume "colon \<in> set (pad_nat w n)"
      then obtain d where "d < 10" "colon = digit_char d" using pad_nat_chars by blast
      then have "(of_char colon :: nat) = 48 + d" by (metis of_char_digit)
      with \<open>d < 10\<close> show False by (simp add: colon_def)
    qed
    from eq have "pad_nat 4 (i div 10) @ colon # ''chunk-'' @ pad_nat 6 i =
        pad_nat 4 (j div 10) @ colon # ''chunk-'' @ pad_nat 6 j"
      by (simp add: chunkKey_def colon_def)
    moreover have "colon \<notin> set (''chunk-'' @ pad_nat 6 i)" using nc by (simp add: colon_def)
    ultimately have "''chunk-'' @ pad_nat 6 i = ''chunk-'' @ pad_nat 6 j"
      using append_Cons_eq_iff [OF nc] by blast
    then show "i = j" by simp
  qed simp
qed

lemma keys_differ [simp]: "chunkKey i \<noteq> memoirKey j" "memoirKey j \<noteq> chunkKey i"
  by (simp_all add: memoirKey_def chunkKey_def)

lemma keys_distinct [simp]: "distinct (memoir_keys m)" "distinct (chunk_keys n)"
  by (simp_all add: memoir_keys_def chunk_keys_def distinct_map inj_on_def)

lemma keys_prefix:
  "prefix ''memoir:'' (memoirKey i)" "prefix ''chunk:'' (chunkKey i)"
  "\<not> prefix ''chunk:'' (memoirKey i)" "\<not> prefix ''memoir:'' (chunkKey i)"
  by (simp_all add: memoirKey_def chunkKey_def)

lemma keys_length [simp]: "length (memoir_keys m) = m" "length (chunk_keys n) = n"
  by (simp_all add: memoir_keys_def chunk_keys_def)

lemma keys_c_key [simp]: "k \<in> set (memoir_keys m) \<Longrightarrow> c_key k" "k \<in> set (chunk_keys n) \<Longrightarrow> c_key k"
  by (auto simp: memoir_keys_def chunk_keys_def)

lemma keys_by_prefix:
  "{k \<in> set (memoir_keys m) \<union> set (chunk_keys n). prefix ''memoir:'' k} = set (memoir_keys m)"
  "{k \<in> set (memoir_keys m) \<union> set (chunk_keys n). prefix ''chunk:'' k} = set (chunk_keys n)"
  "set (memoir_keys m) \<inter> set (chunk_keys n) = {}"
  using keys_prefix by (auto simp: memoir_keys_def chunk_keys_def)

section \<open>Steps of the gate\<close>

definition in_gate ::
  "('x, 'c) env \<Rightarrow> 'x contents \<Rightarrow> ('x \<Rightarrow> eid \<Rightarrow> bytes) \<Rightarrow> bytes \<Rightarrow> eid \<Rightarrow> bytes set \<Rightarrow> ('x, 'c) go_state \<Rightarrow> bool" where
  "in_gate E kv home d e K g \<longleftrightarrow>
     go_ok E kv e g \<and> mu_readers (g_engine g) = 0 \<and> arcs (g_world g) e = 1 \<and>
     home (lsm (g_world g)) e = d \<and> dom (go_contents kv e g) = K"

lemma after_arcs [simp]: "arcs (g_world (after tc rx n g)) = arcs (g_world g)"
  by (simp add: after_def publish_def set_last_error_def split: prod.splits sum.splits)

lemma publish_arcs [simp]: "arcs (publish tc rx w) = arcs w"
  by (simp add: publish_def set_last_error_def split: prod.splits sum.splits)

lemma batch_home:
  assumes "restart_laws E kv home disk wipe S" "live g e" "fresh_allocator (allocator E)"
    "BatchPutBytes E tc te items g = Some (r, g')"
  shows "home (lsm (g_world g')) e = home (lsm (g_world g)) e \<and> arcs (g_world g') = arcs (g_world g) \<and>
    g_engine g' = g_engine g"
proof (cases "items = []")
  case True
  with assms(4) show ?thesis by (simp add: BatchPutBytes_def)
next
  case False
  have "home (snd (api_batch_put E e its x)) e = home x e" for its x
    using assms(1) by (auto simp: restart_laws_def api_batch_put_def storage_def split: sum.splits prod.splits)
  with BatchPutBytes_refines [OF assms(2,3) False, of tc te] assms(4) show ?thesis by (auto simp: Let_def)
qed

lemma flush_gate:
  assumes "restart_laws E kv home disk wipe S" "in_gate E kv home d e K g"
  shows "\<exists>r g'. FlushWAL E tc te g = Some (r, g') \<and> in_gate E kv home d e K g'"
proof -
  let ?rx = "storage ''Flush WAL failed: '' (lsm_flush_wal E e (lsm (g_world g)))"
  from assms(2) have g: "live g e" "lsm_laws E kv" by (simp_all add: in_gate_def go_ok_def)
  have "kv (snd ?rx) e = kv (lsm (g_world g)) e" "home (snd ?rx) e = home (lsm (g_world g)) e"
    using g(2) assms(1)
    by (auto simp: storage_def lsm_laws_def lsm_keep_laws_def restart_laws_def split: prod.splits sum.splits)
  moreover have "lsm (publish tc ?rx (g_world g)) = snd ?rx" by simp
  ultimately have "in_gate E kv home d e K (g\<lparr>g_world := publish tc ?rx (g_world g)\<rparr>)"
    using assms(2) by (simp add: in_gate_def go_ok_def go_contents_def live_def dom_def)
  with FlushWAL_refines [OF g(1), of E tc te] show ?thesis by (auto simp: Let_def)
qed

lemma bulk_gate:
  assumes "restart_laws E kv home disk wipe S" "in_gate E kv home d e K g"
  shows "\<exists>r g'. SetBulkImport E tc te on g = Some (r, g') \<and> in_gate E kv home d e K g'"
proof -
  from assms(2) have g: "live g e" "lsm_laws E kv" by (simp_all add: in_gate_def go_ok_def)
  with assms have "in_gate E kv home d e K
      (g\<lparr>g_world := (g_world g)\<lparr>lsm := lsm_set_bulk_import E e on (lsm (g_world g))\<rparr>\<rparr>)"
    by (simp add: in_gate_def go_ok_def go_contents_def live_def dom_def restart_laws_def lsm_laws_def lsm_keep_laws_def)
  with SetBulkImport_refines [OF g(1)] show ?thesis by simp
qed

lemma batch_gate:
  assumes "restart_laws E kv home disk wipe S" "in_gate E kv home d e K g"
    and "visits rng" "keys \<noteq> []" "\<forall>k\<in>set keys. c_key k"
  shows "\<exists>r g' K'. BatchPutBytes E tc te (slice_items rng keys v) g = Some (r, g') \<and>
     in_gate E kv home d e K' g' \<and> (r = None \<longrightarrow> K' = K \<union> set keys)"
proof -
  note it = slice_items_props [OF assms(3,4), of v]
  from assms(2) have g: "go_ok E kv e g" "live g e" "fresh_allocator (allocator E)"
    by (simp_all add: in_gate_def go_ok_def)
  have "\<forall>k\<in>fst ` set (slice_items rng keys v). c_key k" unfolding it(3) by (rule assms(5))
  from go_batch_put_total [OF g(1) it(1,2) this, of tc te] obtain r g' where
    b: "BatchPutBytes E tc te (slice_items rng keys v) g = Some (r, g')" "go_ok E kv e g'"
      "r = None \<longrightarrow> go_contents kv e g' = go_contents kv e g ++ map_of (slice_items rng keys v)" by blast
  have "dom (map_of (slice_items rng keys v)) = set keys" unfolding it(4) by (auto simp: dom_def)
  with b(3) have "r = None \<longrightarrow> dom (go_contents kv e g') = dom (go_contents kv e g) \<union> set keys" by auto
  with batch_home [OF assms(1) g(2,3) b(1)] b assms(2) show ?thesis by (auto simp: in_gate_def)
qed

text \<open>Slices keep what every batch keeps.\<close>

lemma put_slices_inv:
  assumes "\<And>items s. I s \<Longrightarrow> \<exists>r s'. bp items s = Some (r, s') \<and> I s'" "I s"
    and "put_slices bp rng step keys v s = Some (r, s')"
  shows "I s'"
  using assms(2,3)
proof (induction "length keys" arbitrary: keys s rule: less_induct)
  case less
  show ?case
  proof (cases "keys = [] \<or> step = 0")
    case True
    with less.prems show ?thesis by (auto simp: put_slices.simps [of bp rng step keys] split: if_splits)
  next
    case False
    obtain r1 s1 where 1: "bp (slice_items rng (take step keys) v) s = Some (r1, s1)" "I s1"
      using assms(1) [OF less.prems(1)] by blast
    have "length (drop step keys) < length keys" using False by auto
    from less.hyps [OF this 1(2)] 1 less.prems(2) False show ?thesis
      by (auto simp: put_slices.simps [of bp rng step keys] split: option.splits)
  qed
qed

lemma load_gate:
  assumes "restart_laws E kv home disk wipe S" "in_gate E kv home d e K g"
    and "visits rng" "\<forall>k\<in>set keys. c_key k"
  shows "\<exists>r g' K'. batchPutBytesChunked sz (BatchPutBytes E tc te) rng keys v g = Some (r, g') \<and>
     in_gate E kv home d e K' g' \<and> (r = None \<longrightarrow> K' = K \<union> set keys)"
proof (cases "keys = []")
  case True
  with assms(2) show ?thesis by (auto simp: chunked_step put_slices.simps [of _ _ _ "[]"])
next
  case False
  let ?step = "nat (resolveBatchPutSize (int (length keys)) sz)"
  define I where "I g \<longleftrightarrow> live g e \<and> mu_readers (g_engine g) = 0 \<and> arcs (g_world g) e = 1 \<and>
    home (lsm (g_world g)) e = d" for g :: "('a, 'b) go_state"
  from assms(2) have g: "go_ok E kv e g" "I g" "fresh_allocator (allocator E)" "lsm_laws E kv"
    by (simp_all add: in_gate_def go_ok_def I_def)
  have "0 < ?step" using False resolve_bounds [of "int (length keys)" sz] by simp
  from go.put_slices_total [OF assms(3) this g(1) assms(4), of tc te v] obtain r g' where
    p: "put_slices (BatchPutBytes E tc te) rng ?step keys v g = Some (r, g')" "go_ok E kv e g'"
      "\<forall>k. k \<notin> set keys \<longrightarrow> go_contents kv e g' k = go_contents kv e g k"
      "r = None \<longrightarrow> (\<forall>k\<in>set keys. go_contents kv e g' k = Some v)" by blast
  have "\<exists>r s'. BatchPutBytes E tc te items s = Some (r, s') \<and> I s'" if "I s" for items s
  proof -
    have "live s e" using that by (simp add: I_def)
    then have "\<exists>r s'. BatchPutBytes E tc te items s = Some (r, s') \<and> live s' e"
      using BatchPutBytes_refines [OF _ g(3), of s e items tc te]
      by (cases "items = []") (auto simp: BatchPutBytes_def Let_def)
    then obtain r s' where "BatchPutBytes E tc te items s = Some (r, s')" "live s' e" by blast
    with batch_home [OF assms(1) \<open>live s e\<close> g(3) this(1)] that show ?thesis by (auto simp: I_def)
  qed
  from put_slices_inv [of I, OF this g(2) p(1)] have "I g'" .
  moreover have "r = None \<longrightarrow> dom (go_contents kv e g') = K \<union> set keys"
    using p(3,4) assms(2) by (fastforce simp: in_gate_def dom_def)
  ultimately show ?thesis using p(1,2) by (auto simp: chunked_step in_gate_def I_def)
qed

section \<open>The verdict\<close>

definition gate_end ::
  "('x \<Rightarrow> bytes \<Rightarrow> bytes \<rightharpoonup> lsm_value) \<Rightarrow> bytes \<Rightarrow> bytes set \<Rightarrow> (unit, ('x, 'c) go_state) run \<Rightarrow> bool" where
  "gate_end disk d D r \<longleftrightarrow>
     (\<exists>out g'. r = Some (out, g') \<and>
        ends False (\<lambda>_. reg_inv (g_world g') \<and> dom (disk (lsm (g_world g')) d) = D) True out)"

lemma close_gate:
  assumes "restart_laws E kv home disk wipe S" "in_gate E kv home d e K g"
  shows "\<exists>g'. Close E tc g = Some g' \<and> reg_inv (g_world g') \<and> dom (disk (lsm (g_world g')) d) = K \<inter> S"
proof -
  from assms(2) have g: "live g e" "mu_readers (g_engine g) = 0" by (simp_all add: in_gate_def go_ok_def)
  obtain r x' where x: "lsm_shutdown E e (lsm (g_world g)) = (r, x')" by force
  with assms have "disk (lsm_drop E e x') d = kv (lsm (g_world g)) e |` S"
    unfolding restart_laws_def in_gate_def by metis
  moreover have "dom (kv (lsm (g_world g)) e) = K" using assms(2) by (simp add: in_gate_def go_contents_dom)
  ultimately show ?thesis
    using Close_live [OF g, of E tc] x assms(2) by (auto simp: in_gate_def is_closed_def)
qed

lemma must_close_gate:
  assumes "restart_laws (b_env B) kv home disk wipe S"
    "\<exists>r g' K'. op = Some (r, g') \<and> in_gate (b_env B) kv home d e K' g' \<and> (r = None \<longrightarrow> K' = K)"
    "\<And>g'. in_gate (b_env B) kv home d e K g' \<Longrightarrow> gate_end disk d D (k g')"
  shows "gate_end disk d D (must_close B op k)"
proof -
  from assms(2) obtain r g' K' where
    o: "op = Some (r, g')" "in_gate (b_env B) kv home d e K' g'" "r = None \<longrightarrow> K' = K" by blast
  show ?thesis
  proof (cases r)
    case None
    with o assms(3) [of g'] show ?thesis by (simp add: must_close_def)
  next
    case (Some err)
    with o close_gate [OF assms(1) o(2), of "b_tc B"] show ?thesis by (auto simp: must_close_def gate_end_def)
  qed
qed

lemma ignore_err_gate:
  assumes "\<exists>r g'. op = Some (r, g') \<and> in_gate E kv home d e K g'"
    "\<And>g'. in_gate E kv home d e K g' \<Longrightarrow> gate_end disk d D (k g')"
  shows "gate_end disk d D (ignore_err op k)"
  using assms by (auto simp: ignore_err_def)

lemma when_gate:
  assumes "in_gate E kv home d e K g" "b \<Longrightarrow> \<exists>r g'. f g = Some (r, g') \<and> in_gate E kv home d e K g'"
  shows "\<exists>r g'. when_ok b f g = Some (r, g') \<and> in_gate E kv home d e K g'"
  using assms by (simp add: when_ok_def)

lemma same_gate: "\<exists>r g'. op = Some (r, g') \<and> in_gate E kv home d e K g' \<Longrightarrow>
    \<exists>r g' K'. op = Some (r, g') \<and> in_gate E kv home d e K' g' \<and> (r = None \<longrightarrow> K' = K)"
  by blast

lemma close_end:
  assumes "restart_laws E kv home disk wipe S" "in_gate E kv home d e K g"
  shows "gate_end disk d (K \<inter> S) (do { g \<leftarrow> Close E tc g; Some (Done (), g) })"
  using close_gate [OF assms, of tc] by (auto simp: gate_end_def)

lemma load_and_close_gate:
  assumes "restart_laws (b_env B) kv home disk wipe S" "in_gate (b_env B) kv home d e {} g" "visits (b_rng B)"
    and "\<forall>k\<in>set ms \<union> set cs. c_key k"
  shows "gate_end disk d ((set ms \<union> set cs) \<inter> S) (load_and_close B opts ms cs mp cp g)"
proof -
  note R = assms(1)
  have memoirs: "\<exists>r g' K'. when_ok (ms \<noteq> []) (BatchPutBytes (b_env B) (b_tc B) (b_te B) (slice_items (b_rng B) ms mp)) g =
      Some (r, g') \<and> in_gate (b_env B) kv home d e K' g' \<and> (r = None \<longrightarrow> K' = set ms)"
    using batch_gate [OF R assms(2,3), of ms "b_tc B" "b_te B" mp] assms(2,4) by (auto simp: when_ok_def)
  show ?thesis
    unfolding load_and_close_def Let_def
    apply (rule must_close_gate [OF R memoirs])
    apply (rule must_close_gate [OF R], rule same_gate, rule when_gate, assumption, rule bulk_gate [OF R], assumption)
    apply (rule must_close_gate [OF R], rule load_gate [OF R _ assms(3)], assumption, use assms(4) in simp)
    apply (rule ignore_err_gate, rule when_gate, assumption, rule flush_gate [OF R], assumption)
    apply (rule ignore_err_gate, rule when_gate, assumption, rule bulk_gate [OF R], assumption)
    apply (rule must_close_gate [OF R], rule same_gate, rule when_gate, assumption, rule flush_gate [OF R], assumption)
    apply (rule close_end [OF R], assumption)
    done
qed

text \<open>A scan of an engine whose keys are free of NUL bytes counts the keys with the prefix, or none if it fails.\<close>

lemma scan_counts:
  assumes "go_ok E kv e g" "bounded_replies E" "c_key p" "length p \<le> MAX_KEY_LENGTH" "valid_utf8 p"
    and "\<forall>k\<in>dom (go_contents kv e g). c_key k"
  shows "\<exists>r g'. ScanPrefixKeys E tc p g = Some (r, g') \<and> go_ok E kv e g' \<and> g_engine g' = g_engine g \<and>
     arcs (g_world g') = arcs (g_world g) \<and> go_contents kv e g' = go_contents kv e g \<and>
     counts E kv p (dom (go_contents kv e g)) (scanned r)"
proof -
  let ?x = "lsm (g_world g)" and ?rx = "api_scan E e p (lsm (g_world g))"
  from assms(1) have l: "live g e" "fresh_allocator (allocator E)" "lsm_laws E kv" by (simp_all add: go_ok_def)
  from ScanPrefixKeys_refines [where tc = tc and pfx = p, OF l(1,2)] api_scan_small [OF assms(2)] assms(3)
  obtain n r where r: "ScanPrefixKeys E tc p g = Some (r, after tc ?rx n g)"
      "r = (case fst ?rx of Inl _ \<Rightarrow> None | Inr ks \<Rightarrow> Some ks)" by (fastforce simp: Let_def)
  have kept: "go_contents kv e (after tc ?rx n g) = go_contents kv e g"
    using api_scan_law(1) [OF l(3), of e p ?x] by (simp add: go_contents_def fun_eq_iff)
  have "counts E kv p (dom (kv ?x e)) (scanned r)"
  proof (cases "fst (lsm_scan_prefix E e p ?x)")
    case (Inl msg)
    then obtain x' where s: "lsm_scan_prefix E e p ?x = (Inl msg, x')" by (cases "lsm_scan_prefix E e p ?x") simp
    then have "\<exists>c. fst ?rx = Inl c" using assms(4,5) by (simp add: api_scan_def check_text_ok storage_def)
    then have "scanned r = 0" using r(2) by (auto simp: scanned_def)
    moreover from s have "scan_answers E kv p (dom (kv ?x e)) (Inl msg)" unfolding scan_answers_def by blast
    ultimately show ?thesis unfolding counts_def by (intro exI [of _ "Inl msg"]) simp
  next
    case (Inr ks)
    then obtain x' where s: "lsm_scan_prefix E e p ?x = (Inr ks, x')" by (cases "lsm_scan_prefix E e p ?x") simp
    with l(3) have ks: "distinct ks" "set ks = {k \<in> dom (kv ?x e). prefix p k}"
      by (simp_all add: lsm_laws_def lsm_read_laws_def)
    have "\<forall>k\<in>set ks. \<not> has_nul k" using ks(2) assms(6) by (auto simp: go_contents_dom c_key_def has_nul_def)
    then have "check_nul ks = Inr ks" by (simp add: check_nul_Inr)
    with s assms(4,5) have "fst ?rx = Inr ks" by (simp add: api_scan_def check_text_ok storage_def)
    then have "scanned r = length ks" using r(2) by (simp add: scanned_def)
    then have "scanned r = card {k \<in> dom (kv ?x e). prefix p k}" using ks by (metis distinct_card)
    moreover from s have "scan_answers E kv p (dom (kv ?x e)) (Inr ks)" unfolding scan_answers_def by blast
    ultimately show ?thesis unfolding counts_def by (intro exI [of _ "Inr ks"]) simp
  qed
  with r kept l show ?thesis by (simp add: go_ok_def go_contents_dom)
qed

lemma reopen_counts:
  assumes "restart_laws E kv home disk wipe S" "lsm_laws E kv" "bench_ok B" "b_env B = E"
    and "reg_inv w" "good_dir d" "dom (disk (lsm w) d) = K" "\<forall>k\<in>K. c_key k"
  shows "\<exists>out w'. reopen_and_count B d opts w = Some (out, w') \<and>
     ends False (\<lambda>counted. \<exists>c1 c2. counted = c1 + c2 \<and> counts E kv ''memoir:'' K c1 \<and> counts E kv ''chunk:'' K c2) True out"
proof -
  from assms(3,4) have b: "fresh_allocator (allocator E)" "bounded_replies E" by (simp_all add: bench_ok_def)
  from open_total [OF b(1) assms(5,6), of "b_pad B" "b_tc B" "b_te B" opts] obtain r w1 where
    o: "NewPersistentEngineWithOptions E (b_pad B) (b_tc B) (b_te B) d opts w = Some (r, w1)"
      "\<forall>eng. r = Inr eng \<longrightarrow> (\<exists>h e x' k. lsm_new E (engine_config E d (map_option copts_of opts)) (lsm w) = (Inr e, x') \<and>
         eng = new_F4KVS h \<and> 1 < h \<and> heap w h = None \<and>
         w1 = w\<lparr>heap := (heap w)(h \<mapsto> EngineBox e), tick := k, arcs := (arcs w)(e := 1), lsm := x'\<rparr>)" by blast
  show ?thesis
  proof (cases r)
    case (Inl err)
    with o(1) assms(4) show ?thesis by (auto simp: reopen_and_count_def)
  next
    case (Inr eng)
    with o(2) obtain h e x' k where
      h: "lsm_new E (engine_config E d (map_option copts_of opts)) (lsm w) = (Inr e, x')" "eng = new_F4KVS h"
        "1 < h" "heap w h = None"
        "w1 = w\<lparr>heap := (heap w)(h \<mapsto> EngineBox e), tick := k, arcs := (arcs w)(e := 1), lsm := x'\<rparr>" by blast
    let ?g = "\<lparr>g_engine = eng, g_world = w1\<rparr>"
    have "live ?g e" unfolding h(2,5) by (rule opened_live [OF assms(5) h(4,3)])
    with b(1) assms(2) have ok: "go_ok E kv e ?g" by (simp add: go_ok_def)
    have cfg: "cfg_data_dir (engine_config E d (map_option copts_of opts)) = d" by (simp add: engine_config_def Let_def)
    have "kv x' e = disk (lsm w) d" using assms(1) h(1) cfg unfolding restart_laws_def by metis
    then have dom: "dom (go_contents kv e ?g) = K" using assms(7) by (simp add: go_contents_dom h(5))
    have p: "c_key ''memoir:''" "c_key ''chunk:''" "length ''memoir:'' \<le> MAX_KEY_LENGTH" "length ''chunk:'' \<le> MAX_KEY_LENGTH"
      "valid_utf8 ''memoir:''" "valid_utf8 ''chunk:''"
      by (simp_all add: c_key_def MAX_KEY_LENGTH_def valid_utf8_ascii)
    from scan_counts [OF ok b(2) p(1,3,5), of "b_tc B"] dom assms(8) obtain r1 g1 where
      1: "ScanPrefixKeys E (b_tc B) ''memoir:'' ?g = Some (r1, g1)" "go_ok E kv e g1" "g_engine g1 = eng"
        "go_contents kv e g1 = go_contents kv e ?g" "counts E kv ''memoir:'' K (scanned r1)" by auto
    from scan_counts [OF 1(2) b(2) p(2,4,6), of "b_tc B"] dom assms(8) 1(3,4) obtain r2 g2 where
      2: "ScanPrefixKeys E (b_tc B) ''chunk:'' g1 = Some (r2, g2)" "go_ok E kv e g2" "g_engine g2 = eng"
        "counts E kv ''chunk:'' K (scanned r2)" by auto
    have "live g2 e" "mu_readers (g_engine g2) = 0" using 2 h(2) by (simp_all add: go_ok_def new_F4KVS_def)
    from Close_live [OF this, of E "b_tc B"] obtain g3 where 3: "Close E (b_tc B) g2 = Some g3" by blast
    from o(1) Inr 1(1) 2(1) 3 assms(4)
    have "reopen_and_count B d opts w = Some (Done (scanned r1 + scanned r2), g_world g3)"
      by (simp add: reopen_and_count_def)
    with 1(5) 2(4) show ?thesis by (auto simp del: add_is_0)
  qed
qed

text \<open>
  The two counts against the keys that were kept: they cannot make up for a lost key, and fall short of
  the keys only if one was lost or a scan failed.
\<close>

lemma counts_keys:
  assumes "counts E kv ''memoir:'' (K \<inter> S) c1" "counts E kv ''chunk:'' (K \<inter> S) c2"
    and K: "K = set (memoir_keys m) \<union> set (chunk_keys n)"
  shows "c1 + c2 = m + n \<Longrightarrow> K \<subseteq> S"
    and "K \<subseteq> S \<Longrightarrow> c1 + c2 \<noteq> m + n \<Longrightarrow>
      \<exists>p\<in>{''memoir:'', ''chunk:''}. \<exists>msg. scan_answers E kv p (K \<inter> S) (Inl msg)"
proof -
  let ?M = "set (memoir_keys m)" and ?C = "set (chunk_keys n)"
  have sets: "{k \<in> K \<inter> S. prefix ''memoir:'' k} = ?M \<inter> S" "{k \<in> K \<inter> S. prefix ''chunk:'' k} = ?C \<inter> S"
    using keys_by_prefix(1,2) [of m n] unfolding K by blast+
  have card: "card ?M = m" "card ?C = n" by (simp_all add: distinct_card)
  have le: "card (?M \<inter> S) \<le> m" "card (?C \<inter> S) \<le> n"
    using card_mono [of ?M "?M \<inter> S"] card_mono [of ?C "?C \<inter> S"] unfolding card by auto
  from assms(1,2) obtain r1 r2 where
    r: "scan_answers E kv ''memoir:'' (K \<inter> S) r1" "c1 = (case r1 of Inl _ \<Rightarrow> 0 | Inr _ \<Rightarrow> card (?M \<inter> S))"
      "scan_answers E kv ''chunk:'' (K \<inter> S) r2" "c2 = (case r2 of Inl _ \<Rightarrow> 0 | Inr _ \<Rightarrow> card (?C \<inter> S))"
    unfolding counts_def sets by blast
  have c: "c1 \<le> card (?M \<inter> S)" "c2 \<le> card (?C \<inter> S)" using r(2,4) by (simp_all split: sum.splits)
  show "K \<subseteq> S" if "c1 + c2 = m + n"
  proof -
    have "card (?M \<inter> S) = card ?M" "card (?C \<inter> S) = card ?C" using that c le unfolding card by linarith+
    then have "?M \<inter> S = ?M" "?C \<inter> S = ?C" by (simp_all add: card_subset_eq)
    then show ?thesis unfolding K by blast
  qed
  show "\<exists>p\<in>{''memoir:'', ''chunk:''}. \<exists>msg. scan_answers E kv p (K \<inter> S) (Inl msg)"
    if "K \<subseteq> S" "c1 + c2 \<noteq> m + n"
  proof -
    have "?M \<inter> S = ?M" "?C \<inter> S = ?C" using that(1) unfolding K by blast+
    with r(2,4) that(2) card obtain msg where "r1 = Inl msg \<or> r2 = Inl msg" by (auto split: sum.splits)
    with r(1,3) show ?thesis by blast
  qed
qed

lemma restart_rows_verdict:
  "hasIntegrityFail (restart_rows profile el expected counted :: ('f :: linordered_field) phaseResult list) \<longleftrightarrow> counted \<noteq> expected"
  by (simp add: hasIntegrityFail_def restart_rows_def Let_def metricResult_def)

lemma PostRestart_verdict:
  assumes "restart_laws (b_env B) kv home disk (b_wipe B) S" "lsm_laws (b_env B) kv" "bench_ok B"
    and "visits (b_rng B)" "reg_inv w" "good_dir d"
  shows "\<exists>out w'. benchF4KVSPostRestart B d profile opts (memoir_keys m) (chunk_keys n) mp cp w = Some (out, w') \<and>
     ends False (\<lambda>rows. \<exists>c1 c2.
       rows = restart_rows profile (b_dur B profile ''post_restart_row_count'') (m + n) (c1 + c2) \<and>
       counts (b_env B) kv ''memoir:'' ((set (memoir_keys m) \<union> set (chunk_keys n)) \<inter> S) c1 \<and>
       counts (b_env B) kv ''chunk:'' ((set (memoir_keys m) \<union> set (chunk_keys n)) \<inter> S) c2) True out"
proof -
  let ?E = "b_env B" and ?o = "openOptsForProfile (b_size B) opts (int (n + m))"
  let ?w = "w\<lparr>lsm := b_wipe B d (lsm w)\<rparr>" and ?K = "(set (memoir_keys m) \<union> set (chunk_keys n)) \<inter> S"
  from assms(3) have al: "fresh_allocator (allocator ?E)" by (simp add: bench_ok_def)
  have "reg_inv ?w" using assms(5) by simp
  from open_total [OF al this assms(6), of "b_pad B" "b_tc B" "b_te B" ?o] obtain r w1 where
    o: "NewPersistentEngineWithOptions ?E (b_pad B) (b_tc B) (b_te B) d ?o ?w = Some (r, w1)"
      "\<forall>eng. r = Inr eng \<longrightarrow> (\<exists>h e x' k. lsm_new ?E (engine_config ?E d (map_option copts_of ?o)) (lsm ?w) = (Inr e, x') \<and>
         eng = new_F4KVS h \<and> 1 < h \<and> heap ?w h = None \<and>
         w1 = ?w\<lparr>heap := (heap ?w)(h \<mapsto> EngineBox e), tick := k, arcs := (arcs ?w)(e := 1), lsm := x'\<rparr>)" by blast
  show ?thesis
  proof (cases r)
    case (Inl err)
    with o(1) show ?thesis by (auto simp: benchF4KVSPostRestart_def)
  next
    case (Inr eng)
    with o(2) obtain h e x' k where
      h: "lsm_new ?E (engine_config ?E d (map_option copts_of ?o)) (lsm ?w) = (Inr e, x')" "eng = new_F4KVS h"
        "1 < h" "heap ?w h = None"
        "w1 = ?w\<lparr>heap := (heap ?w)(h \<mapsto> EngineBox e), tick := k, arcs := (arcs ?w)(e := 1), lsm := x'\<rparr>" by blast
    let ?g = "\<lparr>g_engine = eng, g_world = w1\<rparr>"
    have "live ?g e" unfolding h(2,5) by (rule opened_live [OF \<open>reg_inv ?w\<close> h(4,3)])
    moreover have cfg: "cfg_data_dir (engine_config ?E d (map_option copts_of ?o)) = d" by (simp add: engine_config_def Let_def)
    have "kv x' e = disk (lsm ?w) d \<and> home x' e = d" using assms(1) h(1) cfg unfolding restart_laws_def by metis
    moreover have "disk (lsm ?w) d = Map.empty" using assms(1) by (simp add: restart_laws_def)
    ultimately have "in_gate ?E kv home d e {} ?g"
      using al assms(2) h(2,5) by (simp add: in_gate_def go_ok_def go_contents_dom new_F4KVS_def)
    moreover have "\<forall>k\<in>set (memoir_keys m) \<union> set (chunk_keys n). c_key k" by auto
    ultimately have "gate_end disk d ?K (load_and_close B ?o (memoir_keys m) (chunk_keys n) mp cp ?g)"
      by (rule load_and_close_gate [OF assms(1) _ assms(4)])
    then obtain out g where
      g: "load_and_close B ?o (memoir_keys m) (chunk_keys n) mp cp ?g = Some (out, g)"
        "ends False (\<lambda>_. reg_inv (g_world g) \<and> dom (disk (lsm (g_world g)) d) = ?K) True out"
      unfolding gate_end_def by blast
    show ?thesis
    proof (cases out)
      case (Done u)
      with g(2) have "reg_inv (g_world g)" "dom (disk (lsm (g_world g)) d) = ?K" by simp_all
      moreover have "\<forall>k\<in>?K. c_key k" by auto
      ultimately obtain out2 w2 where
        2: "reopen_and_count B d ?o (g_world g) = Some (out2, w2)"
          "ends False (\<lambda>counted. \<exists>c1 c2. counted = c1 + c2 \<and> counts ?E kv ''memoir:'' ?K c1 \<and> counts ?E kv ''chunk:'' ?K c2) True out2"
        using reopen_counts [OF assms(1-3) refl _ assms(6), of "g_world g" ?K ?o] by blast
      with o(1) Inr g(1) Done show ?thesis
        by (cases out2) (auto simp: benchF4KVSPostRestart_def and_then_def simp del: add_is_0)
    next
      case (Fatal err)
      with o(1) Inr g(1) show ?thesis by (simp add: benchF4KVSPostRestart_def and_then_def)
    next
      case (Panic msg)
      with g(2) show ?thesis by simp
    qed
  qed
qed

section \<open>Too many memoirs\<close>

text \<open>The limit of a new engine is the one of its configuration.\<close>

definition limit_law :: "('x, 'c) env \<Rightarrow> bool" where
  "limit_law E \<longleftrightarrow>
     (\<forall>c x e x'. lsm_new E c x = (Inr e, x') \<longrightarrow> lsm_max_batch_size E e x' = cfg_max_batch_size c)"

lemma slice_items_length: "visits rng \<Longrightarrow> distinct keys \<Longrightarrow> length (slice_items rng keys v) = length keys"
proof -
  assume "visits rng" "distinct keys"
  then have "distinct (rng keys)" "set (rng keys) = set keys" by (simp_all add: visits_def)
  with \<open>distinct keys\<close> show ?thesis by (metis slice_items_def length_map distinct_card distinct_remdups_id)
qed

lemma PostRestart_many_memoirs:
  assumes "limit_law (b_env B)" "bench_ok B" "visits (b_rng B)" "reg_inv w" "good_dir d"
    and "cfg_max_batch_size (default_config (b_env B)) = 10000" "0 < b_size B" "b_size B \<le> 10000" "10000 < m"
  shows "\<exists>err w'. benchF4KVSPostRestart B d profile None (memoir_keys m) (chunk_keys n) mp cp w = Some (Fatal err, w')"
proof -
  let ?E = "b_env B" and ?w = "w\<lparr>lsm := b_wipe B d (lsm w)\<rparr>"
  let ?its = "slice_items (b_rng B) (memoir_keys m) mp"
  from assms(2) have al: "fresh_allocator (allocator ?E)" by (simp add: bench_ok_def)
  have "resolveBatchPutSize (int (n + m)) (b_size B) = b_size B"
    using assms(7-9) by (simp add: resolveBatchPutSize_def)
  then have opts: "openOptsForProfile (b_size B) None (int n + int m) = None"
    using assms(8) by (simp add: openOptsForProfile_def engineMaxBatchDefault_def Let_def)
  have "reg_inv ?w" using assms(4) by simp
  from open_total [OF al this assms(5), of "b_pad B" "b_tc B" "b_te B" None] obtain r w1 where
    o: "NewPersistentEngineWithOptions ?E (b_pad B) (b_tc B) (b_te B) d None ?w = Some (r, w1)"
      "\<forall>eng. r = Inr eng \<longrightarrow> (\<exists>h e x' k. lsm_new ?E (engine_config ?E d None) (lsm ?w) = (Inr e, x') \<and>
         eng = new_F4KVS h \<and> 1 < h \<and> heap ?w h = None \<and>
         w1 = ?w\<lparr>heap := (heap ?w)(h \<mapsto> EngineBox e), tick := k, arcs := (arcs ?w)(e := 1), lsm := x'\<rparr>)" by fastforce
  show ?thesis
  proof (cases r)
    case (Inl err)
    with o(1) opts show ?thesis by (auto simp: benchF4KVSPostRestart_def)
  next
    case (Inr eng)
    with o(2) obtain h e x' k where
      h: "lsm_new ?E (engine_config ?E d None) (lsm ?w) = (Inr e, x')" "eng = new_F4KVS h" "1 < h" "heap ?w h = None"
        "w1 = ?w\<lparr>heap := (heap ?w)(h \<mapsto> EngineBox e), tick := k, arcs := (arcs ?w)(e := 1), lsm := x'\<rparr>" by blast
    let ?g = "\<lparr>g_engine = eng, g_world = w1\<rparr>"
    have lv: "live ?g e" unfolding h(2,5) by (rule opened_live [OF \<open>reg_inv ?w\<close> h(4,3)])
    have "lsm_max_batch_size ?E e (lsm (g_world ?g)) = 10000"
      using assms(1,6) h(1,5) by (simp add: limit_law_def engine_config_def apply_open_options_def Let_def)
    moreover have "length ?its = m" using slice_items_length [OF assms(3)] by simp
    ultimately have "lsm_max_batch_size ?E e (lsm (g_world ?g)) < length ?its" using assms(9) by simp
    from BatchPutBytes_over_limit [OF lv al this, of "b_tc B" "b_te B"] obtain err g' where
      g': "BatchPutBytes ?E (b_tc B) (b_te B) ?its ?g = Some (Some err, g')" "live g' e" "g_engine g' = eng" by auto
    have "mu_readers (g_engine g') = 0" using g'(3) h(2) by (simp add: new_F4KVS_def)
    from Close_live [OF g'(2) this, of ?E "b_tc B"] obtain g2 where "Close ?E (b_tc B) g' = Some g2" by blast
    moreover have "memoir_keys m \<noteq> []" using assms(9) by (metis keys_length(1) list.size(3) not_less_zero)
    ultimately have "load_and_close B None (memoir_keys m) (chunk_keys n) mp cp ?g = Some (Fatal err, g2)"
      using g'(1) by (simp add: load_and_close_def Let_def when_ok_def must_close_def)
    with o(1) Inr opts show ?thesis by (simp add: benchF4KVSPostRestart_def and_then_def)
  qed
qed

section \<open>The gate returns\<close>

text \<open>
  Without any law of the library's storage, the gate returns or ends the process, and the C heap is as
  before once both engines are closed. \<open>shuts e g r\<close> says so of a run that closes the engine of \<open>g\<close>.
\<close>

definition shuts :: "eid \<Rightarrow> ('x, 'c) go_state \<Rightarrow> ('a, ('x, 'c) go_state) run \<Rightarrow> bool" where
  "shuts e g r \<longleftrightarrow>
     (\<exists>out g'. r = Some (out, g') \<and>
        ends False (\<lambda>_. True)
          (heap (g_world g') = (heap (g_world g))(handle (g_engine g) := None) \<and> reg_inv (g_world g')) out)"

definition idle :: "eid \<Rightarrow> ('x, 'c) go_state \<Rightarrow> bool" where
  "idle e g \<longleftrightarrow> live g e \<and> mu_readers (g_engine g) = 0"

lemma calm_idle: "idle e g \<Longrightarrow> calm e g g' \<Longrightarrow> idle e g'"
  by (simp add: idle_def calm_def)

lemma shuts_after: "calm e g g1 \<Longrightarrow> shuts e g1 r \<Longrightarrow> shuts e g r"
  by (simp add: shuts_def calm_def)

lemma close_idle:
  assumes "idle e g"
  shows "\<exists>g'. Close E tc g = Some g' \<and>
    heap (g_world g') = (heap (g_world g))(handle (g_engine g) := None) \<and> reg_inv (g_world g')"
  using Close_live [of g e E tc] assms by (auto simp: idle_def is_closed_def)

lemma close_shuts:
  assumes "idle e g"
  shows "shuts e g (do { g \<leftarrow> Close E tc g; Some (Done (), g) })"
  using close_idle [OF assms, of E tc] by (auto simp: shuts_def)

lemma must_close_shuts:
  assumes "idle e g" "safe_op e g r" "\<And>g'. idle e g' \<Longrightarrow> shuts e g' (k g')"
  shows "shuts e g (must_close B r k)"
proof -
  from assms(2) obtain a g1 where r: "r = Some (a, g1)" "calm e g g1" by (auto simp: safe_op_def)
  note idle = calm_idle [OF assms(1) r(2)]
  show ?thesis
  proof (cases a)
    case None
    with r shuts_after [OF r(2) assms(3) [OF idle]] show ?thesis by (simp add: must_close_def)
  next
    case (Some err)
    with r close_idle [OF idle, of "b_env B" "b_tc B"] show ?thesis by (auto simp: must_close_def shuts_def)
  qed
qed

lemma ignore_err_shuts:
  assumes "idle e g" "safe_op e g r" "\<And>g'. idle e g' \<Longrightarrow> shuts e g' (k g')"
  shows "shuts e g (ignore_err r k)"
proof -
  from assms(2) obtain a g1 where r: "r = Some (a, g1)" "calm e g g1" by (auto simp: safe_op_def)
  from shuts_after [OF r(2) assms(3) [OF calm_idle [OF assms(1) r(2)]]] r show ?thesis by (simp add: ignore_err_def)
qed

lemma load_and_close_shuts:
  assumes "bench_ok B" "idle e g"
  shows "shuts e g (load_and_close B opts ms cs mp cp g)"
  unfolding load_and_close_def Let_def
  by (intro must_close_shuts ignore_err_shuts close_shuts assms(2) when_safe batch_safe [OF assms(1)]
      load_safe [OF assms(1)] flush_safe bulk_safe) (use assms(2) in \<open>simp_all add: idle_def\<close>)

lemma reopen_and_count_safe:
  assumes "bench_ok B" "reg_inv w" "good_dir d"
  shows "safe_world False (\<lambda>_. True) w (reopen_and_count B d opts w)"
proof -
  have "reopen_and_count B d opts w =
      with_engine B d opts (\<lambda>g. ScanPrefixKeys (b_env B) (b_tc B) ''memoir:'' g \<bind> (\<lambda>(memoirs, g).
        ScanPrefixKeys (b_env B) (b_tc B) ''chunk:'' g \<bind> (\<lambda>(chunks, g).
        Some (Done (scanned memoirs + scanned chunks), g)))) w"
    by (auto simp: reopen_and_count_def with_engine_def split: Option.bind_splits sum.splits)
  moreover have "safe_world False (\<lambda>_. True) w \<dots>"
    by (intro with_engine_safe [OF assms] safe_op_bind scan_safe [OF assms(1)] safe_done) simp_all
  ultimately show ?thesis by simp
qed

lemma PostRestart_safe:
  assumes "bench_ok B" "reg_inv w" "good_dir d"
  shows "safe_world False (\<lambda>rows. phases_of rows = replicate 4 ''post_restart_row_count'') w
    (benchF4KVSPostRestart B d profile opts mk ck mp cp w :: (('f :: linordered_field) phaseResult list, _) run)"
proof -
  let ?o = "openOptsForProfile (b_size B) opts (int (length ck + length mk))"
  let ?w = "w\<lparr>lsm := b_wipe B d (lsm w)\<rparr>"
  from assms(1) have al: "fresh_allocator (allocator (b_env B))" by (simp add: bench_ok_def)
  have "reg_inv ?w" using assms(2) by simp
  from open_total [OF al this assms(3), of "b_pad B" "b_tc B" "b_te B" ?o] obtain r w1 where
    o: "NewPersistentEngineWithOptions (b_env B) (b_pad B) (b_tc B) (b_te B) d ?o ?w = Some (r, w1)"
      "\<forall>eng. r = Inr eng \<longrightarrow> (\<exists>h e x' k. eng = new_F4KVS h \<and> 1 < h \<and> heap ?w h = None \<and>
         w1 = ?w\<lparr>heap := (heap ?w)(h \<mapsto> EngineBox e), tick := k, arcs := (arcs ?w)(e := 1), lsm := x'\<rparr>)" by blast
  show ?thesis
  proof (cases r)
    case (Inl err)
    with o(1) show ?thesis by (simp add: benchF4KVSPostRestart_def safe_world_def)
  next
    case (Inr eng)
    with o(2) obtain h e x' k where
      h: "eng = new_F4KVS h" "1 < h" "heap ?w h = None"
        "w1 = ?w\<lparr>heap := (heap ?w)(h \<mapsto> EngineBox e), tick := k, arcs := (arcs ?w)(e := 1), lsm := x'\<rparr>" by blast
    let ?g = "\<lparr>g_engine = eng, g_world = w1\<rparr>"
    have "live ?g e" unfolding h(1,4) by (rule opened_live [OF \<open>reg_inv ?w\<close> h(3,2)])
    then have "idle e ?g" using h(1) by (simp add: idle_def new_F4KVS_def)
    from load_and_close_shuts [OF assms(1) this, of ?o mk ck mp cp] obtain out g where
      g: "load_and_close B ?o mk ck mp cp ?g = Some (out, g)"
        "ends False (\<lambda>_. True) (heap (g_world g) = heap w \<and> reg_inv (g_world g)) out"
      using h by (auto simp: shuts_def new_F4KVS_def fun_upd_idem)
    show ?thesis
    proof (cases out)
      case (Done u)
      with g(2) have w: "heap (g_world g) = heap w" "reg_inv (g_world g)" by simp_all
      from reopen_and_count_safe [OF assms(1) w(2) assms(3), of ?o] obtain out2 w2 where
        2: "reopen_and_count B d ?o (g_world g) = Some (out2, w2)"
          "ends False (\<lambda>_. True) (heap w2 = heap w \<and> reg_inv w2) out2" by (auto simp: safe_world_def w(1))
      with o(1) Inr g(1) Done show ?thesis
        by (cases out2) (simp_all add: benchF4KVSPostRestart_def and_then_def safe_world_def restart_rows_def Let_def
            metricResult_def numeral_eq_Suc)
    qed (use o(1) Inr g in \<open>simp_all add: benchF4KVSPostRestart_def and_then_def safe_world_def\<close>)
  qed
qed

end
