(* ===== verification/Json.thy ===== *)
theory Json
  imports Utf8 Go_Strings
begin

text \<open>
  What the benchmark harness uses of Go's package \<^verbatim>\<open>encoding/json\<close>: the compact form of \<^verbatim>\<open>json.Marshal\<close> and the
  form of \<^verbatim>\<open>json.MarshalIndent\<close> with an empty prefix and an indent of two spaces. A value is first turned
  into a tree of type \<open>json\<close>, in the order of the struct fields. Strings are escaped as the package does
  it by default: control characters, quotes, the HTML characters, the two line separators, and every
  byte that is not part of valid UTF-8. The text of a floating-point number is a parameter of the
  users of this theory.
\<close>

datatype json =
    JString bytes
  | JNumber bytes
  | JBool bool
  | JNull
  | JArray "json list"
  | JObject "(bytes \<times> json) list"

section \<open>Strings\<close>

definition hex_digit :: "nat \<Rightarrow> char" where
  "hex_digit d = (if d < 10 then char_of (48 + d) else char_of (87 + d))"

abbreviation LF :: char where
  "LF \<equiv> CHR 0x0A"

abbreviation backslash :: char where
  "backslash \<equiv> CHR 0x5C"

abbreviation quote :: char where
  "quote \<equiv> CHR 0x22"

definition json_ascii :: "char \<Rightarrow> bytes" where
  "json_ascii c =
     (let b = of_char c :: nat in
      if c = backslash \<or> c = quote then [backslash, c]
      else if b = 8 then [backslash, CHR ''b'']
      else if b = 12 then [backslash, CHR ''f'']
      else if b = 10 then [backslash, CHR ''n'']
      else if b = 13 then [backslash, CHR ''r'']
      else if b = 9 then [backslash, CHR ''t'']
      else if b < 32 \<or> c = CHR ''<'' \<or> c = CHR ''>'' \<or> c = CHR ''&''
        then [backslash, CHR ''u'', CHR ''0'', CHR ''0'', hex_digit (b div 16), hex_digit (b mod 16)]
      else [c])"

text \<open>The code points U+2028 and U+2029 in UTF-8, which the package escapes.\<close>

definition line_separators :: "(bytes \<times> bytes) list" where
  "line_separators =
     [([CHR 0xE2, CHR 0x80, CHR 0xA8], backslash # ''u2028''), ([CHR 0xE2, CHR 0x80, CHR 0xA9], backslash # ''u2029'')]"

fun json_chars :: "bytes \<Rightarrow> bytes" where
  "json_chars [] = []"
| "json_chars (c # s) =
     (if (of_char c :: nat) < 0x80 then json_ascii c @ json_chars s
      else case utf8_head c s of
             U_ok w \<Rightarrow>
               (let rune = c # take (w - 1) s in
                case map_of line_separators rune of Some esc \<Rightarrow> esc | None \<Rightarrow> rune) @
               json_chars (drop (w - 1) s)
           | _ \<Rightarrow> (backslash # ''ufffd'') @ json_chars s)"

definition json_string :: "bytes \<Rightarrow> bytes" where
  "json_string s = [quote] @ json_chars s @ [quote]"

section \<open>Values\<close>

fun json_atom :: "json \<Rightarrow> bytes" where
  "json_atom (JString s) = json_string s"
| "json_atom (JNumber n) = n"
| "json_atom (JBool b) = (if b then ''true'' else ''false'')"
| "json_atom _ = ''null''"

fun compact :: "json \<Rightarrow> bytes" where
  "compact (JArray vs) = ''['' @ Join (map compact vs) '','' @ '']''"
| "compact (JObject fs) =
     ''{'' @ Join (map (\<lambda>(k, v). json_string k @ '':'' @ compact v) fs) '','' @ ''}''"
| "compact v = json_atom v"

definition line_indent :: "nat \<Rightarrow> bytes" where
  "line_indent d = LF # replicate (2 * d) (CHR '' '')"

fun indented :: "nat \<Rightarrow> json \<Rightarrow> bytes" where
  "indented d (JArray vs) =
     (if vs = [] then ''[]''
      else ''['' @ line_indent (Suc d) @
        Join (map (indented (Suc d)) vs) ('','' @ line_indent (Suc d)) @ line_indent d @ '']'')"
| "indented d (JObject fs) =
     (if fs = [] then ''{}''
      else ''{'' @ line_indent (Suc d) @
        Join (map (\<lambda>(k, v). json_string k @ '': '' @ indented (Suc d) v) fs) ('','' @ line_indent (Suc d)) @
        line_indent d @ ''}'')"
| "indented d v = json_atom v"

definition Marshal :: "json \<Rightarrow> bytes" where
  "Marshal v = compact v"

definition MarshalIndent :: "json \<Rightarrow> bytes" where
  "MarshalIndent v = indented 0 v"

section \<open>No line breaks in the compact form\<close>

lemma hex_digit_not_LF: "d < 16 \<Longrightarrow> hex_digit d \<noteq> LF"
proof
  assume d: "d < 16" and "hex_digit d = LF"
  then have "(of_char (hex_digit d) :: nat) = 10" by simp
  with d show False by (auto simp: hex_digit_def split: if_splits)
qed

lemma json_ascii_LF: "LF \<notin> set (json_ascii c)"
proof -
  define h1 where "h1 = hex_digit (of_char c div 16)"
  define h2 where "h2 = hex_digit (of_char c mod 16)"
  have "(of_char c :: nat) < 256" by simp
  then have "(of_char c :: nat) div 16 < 16" "(of_char c :: nat) mod 16 < 16" by (simp_all add: div_less_iff_less_mult)
  from this [THEN hex_digit_not_LF] have h: "h1 \<noteq> LF" "h2 \<noteq> LF" unfolding h1_def h2_def .
  show ?thesis
  proof (cases "c = LF")
    case True
    then show ?thesis by (simp add: json_ascii_def)
  next
    case False
    with h show ?thesis
      unfolding json_ascii_def Let_def h1_def [symmetric] h2_def [symmetric] by (simp del: char_of_def)
  qed
qed

lemma utf8_rest_not_LF:
  assumes "utf8_head c s = U_ok w" "\<not> (of_char c :: nat) < 0x80"
  shows "LF \<notin> set (c # take (w - 1) s)"
  using utf8_head_ok_width(4) [OF assms(1)] assms(2) by (auto simp: list_all_iff is_cont_def)

lemma json_chars_LF: "LF \<notin> set (json_chars s)"
proof (induction s rule: json_chars.induct)
  case 1
  then show ?case by simp
next
  case (2 c s)
  then show ?case
    using json_ascii_LF utf8_rest_not_LF [of c s]
    by (auto simp: line_separators_def Let_def split: utf8_step.splits if_splits)
qed

lemma json_string_LF [simp]: "LF \<notin> set (json_string s)"
  by (simp add: json_string_def json_chars_LF)

lemma Join_LF: "LF \<notin> set sep \<Longrightarrow> \<forall>p\<in>set ps. LF \<notin> set p \<Longrightarrow> LF \<notin> set (Join ps sep)"
  by (induction ps sep rule: Join.induct) auto

fun plain_numbers :: "json \<Rightarrow> bool" where
  "plain_numbers (JNumber n) = (LF \<notin> set n)"
| "plain_numbers (JArray vs) = list_all plain_numbers vs"
| "plain_numbers (JObject fs) = list_all (\<lambda>(k, v). plain_numbers v) fs"
| "plain_numbers v = True"

lemma compact_LF: "plain_numbers v \<Longrightarrow> LF \<notin> set (compact v)"
proof (induction v rule: compact.induct)
  case (1 vs)
  then show ?case by (simp add: list_all_iff Join_LF)
next
  case (2 fs)
  then have "\<forall>p\<in>set (map (\<lambda>(k, v). json_string k @ '':'' @ compact v) fs). LF \<notin> set p"
    by (auto simp: list_all_iff)
  then show ?case by (simp add: Join_LF)
qed auto

end
