(* ===== verification/Bench_Sqlite.thy ===== *)
theory Bench_Sqlite
  imports Bench_Restart Json
begin

text \<open>
  The SQLite side of the benchmark (\<^verbatim>\<open>main.go\<close>). The driver \<^verbatim>\<open>modernc.org/sqlite\<close> is not part of the
  repository: its calls are the fields of the record \<open>sql_driver\<close> over a state \<open>'d\<close> of the databases on disk.
  What is modelled of \<^verbatim>\<open>database/sql\<close> is the connection pool with \<^verbatim>\<open>SetMaxOpenConns(1)\<close>: the one connection
  belongs to a transaction from \<^verbatim>\<open>Begin\<close> to \<^verbatim>\<open>Commit\<close> or \<^verbatim>\<open>Rollback\<close>, and any other use of the pool waits for it,
  which is the value \<^const>\<open>None\<close>.
\<close>

section \<open>Databases\<close>

record 'd sql_driver =
  q_open :: "bytes \<Rightarrow> go_error option"
  q_exec :: "bytes \<Rightarrow> bytes \<Rightarrow> bytes list \<Rightarrow> 'd \<Rightarrow> go_error option \<times> 'd"
  q_begin :: "bytes \<Rightarrow> 'd \<Rightarrow> go_error option \<times> 'd"
  q_prepare :: "bytes \<Rightarrow> bytes \<Rightarrow> 'd \<Rightarrow> go_error option \<times> 'd"
  q_commit :: "bytes \<Rightarrow> 'd \<Rightarrow> go_error option \<times> 'd"
  q_query :: "bytes \<Rightarrow> bytes \<Rightarrow> bytes list \<Rightarrow> 'd \<Rightarrow> (go_error + (go_error + bytes) list) \<times> 'd"
  q_count :: "bytes \<Rightarrow> bytes \<Rightarrow> 'd \<Rightarrow> (go_error + nat) \<times> 'd"
  q_close :: "bytes \<Rightarrow> 'd \<Rightarrow> go_error option \<times> 'd"
  q_remove :: "bytes \<Rightarrow> 'd \<Rightarrow> 'd"
  q_removeAll :: "bytes \<Rightarrow> 'd \<Rightarrow> 'd"

record sql_DB =
  db_dsn :: bytes
  db_busy :: bool

record sqliteProfile =
  sp_Name :: bytes
  sp_DSN :: bytes
  sp_Durability :: bytes
  sp_PerCommit :: bool
  sp_Extra :: bytes

abbreviation TAB :: char where
  "TAB \<equiv> CHR 0x09"

definition create_sql :: bytes where
  "create_sql =
     ''CREATE TABLE kv ('' @ [LF, TAB, TAB] @ ''key TEXT PRIMARY KEY,'' @ [LF, TAB, TAB] @
     ''value BLOB NOT NULL'' @ [LF, TAB] @ '') WITHOUT ROWID''"

definition insert_sql :: bytes where
  "insert_sql = ''INSERT INTO kv (key, value) VALUES (?, ?)''"

definition select_sql :: bytes where
  "select_sql = ''SELECT value FROM kv WHERE key = ?''"

definition like_sql :: bytes where
  "like_sql = ''SELECT key FROM kv WHERE key LIKE ?''"

definition count_sql :: bytes where
  "count_sql = ''SELECT COUNT(*) FROM kv''"

text \<open>\<^verbatim>\<open>strings.Replace\<close> with a count of 1.\<close>

definition Replace1 :: "bytes \<Rightarrow> bytes \<Rightarrow> bytes \<Rightarrow> bytes" where
  "Replace1 s old new =
     (case Index s old of None \<Rightarrow> s | Some i \<Rightarrow> take i s @ new @ drop (i + length old) s)"

definition path_dsn :: "sqliteProfile \<Rightarrow> bytes \<Rightarrow> bytes" where
  "path_dsn prof path = Replace1 (sp_DSN prof) ''file:kv?'' (''file:'' @ path @ ''?'')"

definition db_Exec ::
  "'d sql_driver \<Rightarrow> bytes \<Rightarrow> bytes list \<Rightarrow> sql_DB \<times> 'd \<Rightarrow> (go_error option \<times> (sql_DB \<times> 'd)) option" where
  "db_Exec Q sql args s =
     (case s of (db, d) \<Rightarrow>
        if db_busy db then None
        else let (r, d1) = q_exec Q (db_dsn db) sql args d in Some (r, (db, d1)))"

section \<open>Inserting\<close>

fun insert_each ::
  "'d sql_driver \<Rightarrow> bytes list \<Rightarrow> bytes \<Rightarrow> sql_DB \<times> 'd \<Rightarrow> (go_error option \<times> (sql_DB \<times> 'd)) option" where
  "insert_each Q [] payload s = Some (None, s)"
| "insert_each Q (key # keys) payload s =
     do {
       (r, s1) \<leftarrow> db_Exec Q insert_sql [key, payload] s;
       case r of Some err \<Rightarrow> Some (Some err, s1) | None \<Rightarrow> insert_each Q keys payload s1
     }"

fun stmt_each :: "'d sql_driver \<Rightarrow> bytes \<Rightarrow> bytes list \<Rightarrow> bytes \<Rightarrow> 'd \<Rightarrow> go_error option \<times> 'd" where
  "stmt_each Q dsn [] payload d = (None, d)"
| "stmt_each Q dsn (key # keys) payload d =
     (case q_exec Q dsn insert_sql [key, payload] d of
        (Some err, d1) \<Rightarrow> (Some err, d1)
      | (None, d1) \<Rightarrow> stmt_each Q dsn keys payload d1)"

text \<open>The early returns of the transaction path leave the transaction open.\<close>

definition sqliteBatchPut ::
  "'d sql_driver \<Rightarrow> bool \<Rightarrow> bytes list \<Rightarrow> bytes \<Rightarrow> sql_DB \<times> 'd \<Rightarrow> (go_error option \<times> (sql_DB \<times> 'd)) option" where
  "sqliteBatchPut Q perCommit keys payload s =
     (if perCommit then insert_each Q keys payload s
      else case s of (db, d) \<Rightarrow>
        if db_busy db then None
        else case q_begin Q (db_dsn db) d of
          (Some err, d1) \<Rightarrow> Some (Some err, (db, d1))
        | (None, d1) \<Rightarrow>
            (let tx = db\<lparr>db_busy := True\<rparr> in
             case q_prepare Q (db_dsn db) insert_sql d1 of
               (Some err, d2) \<Rightarrow> Some (Some err, (tx, d2))
             | (None, d2) \<Rightarrow>
                 (case stmt_each Q (db_dsn db) keys payload d2 of
                    (Some err, d3) \<Rightarrow> Some (Some err, (tx, d3))
                  | (None, d3) \<Rightarrow> (let (r, d4) = q_commit Q (db_dsn db) d3 in Some (r, (db, d4))))))"

section \<open>Drivers\<close>

definition with_db ::
  "'d sql_driver \<Rightarrow> bytes \<Rightarrow> (sql_DB \<times> 'd \<Rightarrow> ('a, sql_DB \<times> 'd) run) \<Rightarrow> 'd \<Rightarrow> ('a, 'd) run" where
  "with_db Q dsn body d =
     (case q_open Q dsn of
        Some err \<Rightarrow> Some (Fatal err, d)
      | None \<Rightarrow> do {
          (out, (db, d1)) \<leftarrow> body (\<lparr>db_dsn = dsn, db_busy = False\<rparr>, d);
          (case out of
             Fatal err \<Rightarrow> Some (Fatal err, d1)
           | _ \<Rightarrow> Some (out, snd (q_close Q dsn d1)))
        })"

definition errNoRows :: go_error where
  "errNoRows = Errorf ''sql: no rows in result set'' []"

text \<open>\<^verbatim>\<open>QueryRow(...).Scan(&blob)\<close>: the first row, or an error.\<close>

definition db_QueryRow ::
  "'d sql_driver \<Rightarrow> bytes \<Rightarrow> bytes list \<Rightarrow> sql_DB \<times> 'd \<Rightarrow> (go_error option \<times> (sql_DB \<times> 'd)) option" where
  "db_QueryRow Q sql args s =
     (case s of (db, d) \<Rightarrow>
        if db_busy db then None
        else case q_query Q (db_dsn db) sql args d of
          (Inl err, d1) \<Rightarrow> Some (Some err, (db, d1))
        | (Inr [], d1) \<Rightarrow> Some (Some errNoRows, (db, d1))
        | (Inr (Inl err # _), d1) \<Rightarrow> Some (Some err, (db, d1))
        | (Inr (Inr _ # _), d1) \<Rightarrow> Some (None, (db, d1)))"

fun sql_gets :: "'d sql_driver \<Rightarrow> bytes list \<Rightarrow> nat \<Rightarrow> nat \<Rightarrow> sql_DB \<times> 'd \<Rightarrow> (unit, sql_DB \<times> 'd) run" where
  "sql_gets Q keys 0 i s = Some (Done (), s)"
| "sql_gets Q keys (Suc n) i s =
     (if keys = [] then Some (Panic ''runtime error: integer divide by zero'', s)
      else must (db_QueryRow Q select_sql [keys ! (i mod length keys)] s) (sql_gets Q keys n (Suc i)))"

text \<open>The loop over the rows of a query: the keys, or the first error of \<^verbatim>\<open>Scan\<close>.\<close>

fun scan_rows :: "(go_error + bytes) list \<Rightarrow> bytes list \<Rightarrow> go_error + bytes list" where
  "scan_rows [] keys = Inr keys"
| "scan_rows (Inl err # rows) keys = Inl err"
| "scan_rows (Inr k # rows) keys = scan_rows rows (keys @ [k])"

definition sql_scan :: "'d sql_driver \<Rightarrow> bytes \<Rightarrow> sql_DB \<times> 'd \<Rightarrow> (bytes list, sql_DB \<times> 'd) run" where
  "sql_scan Q pattern s =
     (case s of (db, d) \<Rightarrow>
        if db_busy db then None
        else case q_query Q (db_dsn db) like_sql [pattern] d of
          (Inl err, d1) \<Rightarrow> Some (Fatal err, (db, d1))
        | (Inr rows, d1) \<Rightarrow>
            (case scan_rows rows [] of Inl err \<Rightarrow> Some (Fatal err, (db, d1)) | Inr keys \<Rightarrow> Some (Done keys, (db, d1))))"

text \<open>\<open>dur\<close> is the measured duration of a phase of a profile.\<close>

definition benchSQLiteChunkBatched ::
  "'d sql_driver \<Rightarrow> (bytes \<Rightarrow> bytes \<Rightarrow> int) \<Rightarrow> bytes \<Rightarrow> sqliteProfile \<Rightarrow> bytes list \<Rightarrow> bytes \<Rightarrow> 'd \<Rightarrow>
   (('f :: linordered_field) phaseResult list, 'd) run" where
  "benchSQLiteChunkBatched Q dur path prof chunkKeys chunkPayload =
     with_db Q (path_dsn prof path)
       (\<lambda>s. must (db_Exec Q create_sql [] s) (\<lambda>s.
            must (sqliteBatchPut Q False chunkKeys chunkPayload s) (\<lambda>s.
            Some (Done [result ''chunk_batch_put_batched'' (sp_Name prof) (int (length chunkKeys))
              (dur (sp_Name prof) ''chunk_batch_put_batched'') (sp_Durability prof) (sp_Extra prof @ ''; batched tx'')], s))))"

definition benchSQLite ::
  "'d sql_driver \<Rightarrow> (bytes \<Rightarrow> bytes \<Rightarrow> int) \<Rightarrow> bytes \<Rightarrow> sqliteProfile \<Rightarrow> bytes list \<Rightarrow> bytes list \<Rightarrow> bytes \<Rightarrow> bytes \<Rightarrow>
   int \<Rightarrow> 'd \<Rightarrow> (('f :: linordered_field) phaseResult list, 'd) run" where
  "benchSQLite Q dur path prof memoirKeys chunkKeys memoirPayload chunkPayload randomGets =
     (let putNote = (if sp_PerCommit prof then ''per-commit'' else ''batched tx'');
          note = sp_Extra prof @ ''; '' @ putNote;
          r = (\<lambda>phase n extra. result phase (sp_Name prof) n (dur (sp_Name prof) phase) (sp_Durability prof) extra) in
      with_db Q (path_dsn prof path)
        (\<lambda>s. must (db_Exec Q create_sql [] s) (\<lambda>s.
             must (sqliteBatchPut Q (sp_PerCommit prof) memoirKeys memoirPayload s) (\<lambda>s.
             and_then (sql_gets Q memoirKeys (nat randomGets) 0 s) (\<lambda>_ s.
             must (sqliteBatchPut Q (sp_PerCommit prof) chunkKeys chunkPayload s) (\<lambda>s.
             and_then (case s of (db, d) \<Rightarrow> do {
                 (out, d1) \<leftarrow> benchSQLiteChunkBatched Q dur (path @ ''_chunk_batched'') prof chunkKeys chunkPayload d;
                 Some (out, (db, d1)) }) (\<lambda>side s.
             and_then (sql_scan Q ''chunk:legal:%'' s) (\<lambda>keys s.
             and_then (sql_gets Q chunkKeys (nat randomGets) 0 s) (\<lambda>_ s.
             Some (Done
               ([r ''memoir_batch_put'' (int (length memoirKeys)) note, r ''memoir_random_get'' randomGets [],
                 r ''chunk_batch_put'' (int (length chunkKeys)) note] @ side @
                [r ''chunk_prefix_scan'' (int (length keys)) (''keys='' @ show_nat (length keys)),
                 r ''chunk_random_get'' randomGets []]), s))))))))))"

text \<open>Errors of the gate close the database first.\<close>

definition must_close_db ::
  "'d sql_driver \<Rightarrow> (go_error option \<times> (sql_DB \<times> 'd)) option \<Rightarrow> (sql_DB \<times> 'd \<Rightarrow> ('a, sql_DB \<times> 'd) run) \<Rightarrow>
   ('a, sql_DB \<times> 'd) run" where
  "must_close_db Q r k =
     (case r of
        None \<Rightarrow> None
      | Some (Some err, (db, d)) \<Rightarrow> Some (Fatal err, (db, snd (q_close Q (db_dsn db) d)))
      | Some (None, s) \<Rightarrow> k s)"

definition sql_count_again :: "'d sql_driver \<Rightarrow> bytes \<Rightarrow> 'd \<Rightarrow> (nat, 'd) run" where
  "sql_count_again Q dsn d =
     (case q_open Q dsn of
        Some err \<Rightarrow> Some (Fatal err, d)
      | None \<Rightarrow>
          (case q_count Q dsn count_sql d of
             (Inl err, d1) \<Rightarrow> Some (Fatal err, snd (q_close Q dsn d1))
           | (Inr counted, d1) \<Rightarrow> Some (Done counted, snd (q_close Q dsn d1))))"

definition benchSQLitePostRestart ::
  "'d sql_driver \<Rightarrow> (bytes \<Rightarrow> bytes \<Rightarrow> int) \<Rightarrow> bytes \<Rightarrow> sqliteProfile \<Rightarrow> bytes list \<Rightarrow> bytes list \<Rightarrow> bytes \<Rightarrow> bytes \<Rightarrow>
   'd \<Rightarrow> (('f :: linordered_field) phaseResult list, 'd) run" where
  "benchSQLitePostRestart Q dur path prof memoirKeys chunkKeys memoirPayload chunkPayload d =
     (let expected = length memoirKeys + length chunkKeys; dsn = path_dsn prof path in
      case q_open Q dsn of
        Some err \<Rightarrow> Some (Fatal err, q_remove Q path d)
      | None \<Rightarrow> do {
          (out, (db, d1)) \<leftarrow>
            must_close_db Q (db_Exec Q create_sql [] (\<lparr>db_dsn = dsn, db_busy = False\<rparr>, q_remove Q path d)) (\<lambda>s.
            must_close_db Q (sqliteBatchPut Q False memoirKeys memoirPayload s) (\<lambda>s.
            must_close_db Q (sqliteBatchPut Q False chunkKeys chunkPayload s) (\<lambda>(db, d).
            case q_close Q dsn d of
              (Some err, d1) \<Rightarrow> Some (Fatal err, (db, d1))
            | (None, d1) \<Rightarrow> Some (Done (), (db, d1)))));
          and_then (Some (out, d1)) (\<lambda>_ d.
          and_then (sql_count_again Q dsn d) (\<lambda>counted d.
          Some (Done (restart_rows (sp_Name prof) (dur (sp_Name prof) ''post_restart_row_count'') expected counted), d)))
        })"

section \<open>A database that follows SQL\<close>

text \<open>
  \<open>rows dsn d\<close> is the table \<^verbatim>\<open>kv\<close> as a connection sees it, \<open>saved dsn d\<close> its committed rows. Any call may fail, for
  instance when the database is locked longer than the \<^verbatim>\<open>busy_timeout\<close>, and nothing is assumed of a call that
  does. An insert that succeeds adds a row with a new key, since the key is the primary key; beginning a
  transaction and preparing a statement change no row; a commit saves what the connection sees; a table that
  was created is empty; closing keeps the committed rows and no others; a count counts what is seen.
\<close>

definition sql_laws ::
  "'d sql_driver \<Rightarrow> (bytes \<Rightarrow> 'd \<Rightarrow> bytes \<rightharpoonup> bytes) \<Rightarrow> (bytes \<Rightarrow> 'd \<Rightarrow> bytes \<rightharpoonup> bytes) \<Rightarrow> bool" where
  "sql_laws Q rows saved \<longleftrightarrow>
     (\<forall>dsn k v d d1. q_exec Q dsn insert_sql [k, v] d = (None, d1) \<longrightarrow>
        k \<notin> dom (rows dsn d) \<and> rows dsn d1 = (rows dsn d)(k \<mapsto> v)) \<and>
     (\<forall>dsn d d1. q_begin Q dsn d = (None, d1) \<longrightarrow> rows dsn d1 = rows dsn d) \<and>
     (\<forall>dsn sql d d1. q_prepare Q dsn sql d = (None, d1) \<longrightarrow> rows dsn d1 = rows dsn d) \<and>
     (\<forall>dsn d d1. q_commit Q dsn d = (None, d1) \<longrightarrow> rows dsn d1 = rows dsn d \<and> saved dsn d1 = rows dsn d1) \<and>
     (\<forall>dsn d d1. q_exec Q dsn create_sql [] d = (None, d1) \<longrightarrow> rows dsn d1 = Map.empty) \<and>
     (\<forall>dsn d d1. q_close Q dsn d = (None, d1) \<longrightarrow> saved dsn d1 = saved dsn d \<and> rows dsn d1 = saved dsn d1) \<and>
     (\<forall>dsn d n d1. q_count Q dsn count_sql d = (Inr n, d1) \<longrightarrow> n = card (dom (rows dsn d)))"

text \<open>A database on which nothing fails but an insert of a key that is there.\<close>

definition sql_healthy :: "'d sql_driver \<Rightarrow> (bytes \<Rightarrow> 'd \<Rightarrow> bytes \<rightharpoonup> bytes) \<Rightarrow> bool" where
  "sql_healthy Q rows \<longleftrightarrow>
     (\<forall>dsn k v d. k \<notin> dom (rows dsn d) \<longrightarrow> fst (q_exec Q dsn insert_sql [k, v] d) = None) \<and>
     (\<forall>dsn d. fst (q_begin Q dsn d) = None) \<and> (\<forall>dsn sql d. fst (q_prepare Q dsn sql d) = None) \<and>
     (\<forall>dsn d. fst (q_commit Q dsn d) = None)"

lemma sql_lawsD:
  assumes "sql_laws Q rows saved"
  shows "q_exec Q dsn insert_sql [k, v] d = (None, d1) \<Longrightarrow> k \<notin> dom (rows dsn d) \<and> rows dsn d1 = (rows dsn d)(k \<mapsto> v)"
    "q_begin Q dsn d = (None, d1) \<Longrightarrow> rows dsn d1 = rows dsn d"
    "q_prepare Q dsn sql d = (None, d1) \<Longrightarrow> rows dsn d1 = rows dsn d"
    "q_commit Q dsn d = (None, d1) \<Longrightarrow> rows dsn d1 = rows dsn d \<and> saved dsn d1 = rows dsn d1"
    "q_exec Q dsn create_sql [] d = (None, d1) \<Longrightarrow> rows dsn d1 = Map.empty"
    "q_close Q dsn d = (None, d1) \<Longrightarrow> saved dsn d1 = saved dsn d \<and> rows dsn d1 = saved dsn d1"
    "q_count Q dsn count_sql d = (Inr n, d1) \<Longrightarrow> n = card (dom (rows dsn d))"
  using assms by (simp_all add: sql_laws_def domIff)

definition all_new :: "bytes list \<Rightarrow> (bytes \<rightharpoonup> bytes) \<Rightarrow> bool" where
  "all_new keys m \<longleftrightarrow> distinct keys \<and> set keys \<inter> dom m = {}"

definition with_keys :: "bytes list \<Rightarrow> bytes \<Rightarrow> (bytes \<rightharpoonup> bytes) \<Rightarrow> bytes \<rightharpoonup> bytes" where
  "with_keys keys payload m = (\<lambda>k. if k \<in> set keys then Some payload else m k)"

lemma with_keys_simps [simp]:
  "with_keys [] v m = m"
  "with_keys ks v (m(k \<mapsto> v)) = with_keys (k # ks) v m"
  "dom (with_keys ks v m) = set ks \<union> dom m"
  by (auto simp: with_keys_def fun_eq_iff dom_def)

lemma all_new_Cons: "all_new (k # ks) m \<longleftrightarrow> k \<notin> dom m \<and> all_new ks (m(k \<mapsto> v))"
  by (auto simp: all_new_def)

lemma all_new_Nil [simp]: "all_new [] m"
  by (simp add: all_new_def)

text \<open>The two loops over the keys are the same computation on the table.\<close>

lemma insert_each_stmt_each:
  "\<not> db_busy db \<Longrightarrow>
   insert_each Q keys payload (db, d) =
     (let (r, d1) = stmt_each Q (db_dsn db) keys payload d in Some (r, (db, d1)))"
  by (induction keys arbitrary: d) (auto simp: db_Exec_def Let_def split: prod.splits option.splits)

lemma stmt_each_rows:
  assumes "sql_laws Q rows saved" "stmt_each Q dsn keys payload d = (None, d1)"
  shows "all_new keys (rows dsn d) \<and> rows dsn d1 = with_keys keys payload (rows dsn d)"
  using assms(2)
proof (induction keys arbitrary: d)
  case (Cons k ks)
  from Cons.prems obtain d2 where
    h: "q_exec Q dsn insert_sql [k, payload] d = (None, d2)" "stmt_each Q dsn ks payload d2 = (None, d1)"
    by (auto split: prod.splits option.splits)
  note law = sql_lawsD(1) [OF assms(1) h(1)]
  with Cons.IH [OF h(2)] show ?case using all_new_Cons [of k ks "rows dsn d" payload] with_keys_simps(2) by metis
qed simp

lemma stmt_each_healthy:
  assumes "sql_laws Q rows saved" "sql_healthy Q rows" "all_new keys (rows dsn d)"
  shows "fst (stmt_each Q dsn keys payload d) = None"
  using assms(3)
proof (induction keys arbitrary: d)
  case (Cons k ks)
  then have "fst (q_exec Q dsn insert_sql [k, payload] d) = None"
    using assms(2) by (auto simp: sql_healthy_def all_new_def)
  then obtain d2 where h: "q_exec Q dsn insert_sql [k, payload] d = (None, d2)" by (metis prod.collapse)
  from sql_lawsD(1) [OF assms(1) h] Cons.prems have "all_new ks (rows dsn d2)"
    using all_new_Cons [of k ks "rows dsn d" payload] by simp
  with Cons.IH h show ?case by simp
qed simp

text \<open>One statement per commit on an idle pool is the loop over the keys, and leaves the pool idle.\<close>

lemma sqliteBatchPut_single:
  assumes "\<not> db_busy db" "stmt_each Q (db_dsn db) keys payload d = (r, d1)"
  shows "sqliteBatchPut Q True keys payload (db, d) = Some (r, (db, d1))"
  using assms by (simp add: sqliteBatchPut_def insert_each_stmt_each)

text \<open>One transaction: its result, and when it is left open.\<close>

definition left_open :: "'d sql_driver \<Rightarrow> bytes \<Rightarrow> bytes list \<Rightarrow> bytes \<Rightarrow> 'd \<Rightarrow> bool" where
  "left_open Q dsn keys payload d \<longleftrightarrow>
     (let (b, d1) = q_begin Q dsn d; (p, d2) = q_prepare Q dsn insert_sql d1 in
      b = None \<and> (p \<noteq> None \<or> fst (stmt_each Q dsn keys payload d2) \<noteq> None))"

lemma sqliteBatchPut_tx:
  assumes "\<not> db_busy db"
  shows "\<exists>r d'. sqliteBatchPut Q False keys payload (db, d) =
      Some (r, (if left_open Q (db_dsn db) keys payload d then db\<lparr>db_busy := True\<rparr> else db, d')) \<and>
    (left_open Q (db_dsn db) keys payload d \<longrightarrow> r \<noteq> None) \<and>
    (r = None \<longleftrightarrow> (\<exists>d1 d2 d3. q_begin Q (db_dsn db) d = (None, d1) \<and> q_prepare Q (db_dsn db) insert_sql d1 = (None, d2) \<and>
       stmt_each Q (db_dsn db) keys payload d2 = (None, d3) \<and> q_commit Q (db_dsn db) d3 = (None, d'))) "
proof -
  let ?dsn = "db_dsn db"
  obtain b d1 where b: "q_begin Q ?dsn d = (b, d1)" by force
  obtain p d2 where p: "q_prepare Q ?dsn insert_sql d1 = (p, d2)" by force
  obtain r d3 where r: "stmt_each Q ?dsn keys payload d2 = (r, d3)" by force
  obtain c d4 where c: "q_commit Q ?dsn d3 = (c, d4)" by force
  show ?thesis
    using assms by (cases b; cases p; cases r) (auto simp: sqliteBatchPut_def left_open_def Let_def b p r c)
qed

lemma sqliteBatchPut_rows:
  assumes "sql_laws Q rows saved" "\<not> db_busy db" "sqliteBatchPut Q perCommit keys payload (db, d) = Some (None, (db', d'))"
  shows "all_new keys (rows (db_dsn db) d) \<and> db' = db \<and> rows (db_dsn db) d' = with_keys keys payload (rows (db_dsn db) d) \<and>
    (\<not> perCommit \<longrightarrow> saved (db_dsn db) d' = rows (db_dsn db) d')"
proof (cases perCommit)
  case True
  obtain r d1 where h: "stmt_each Q (db_dsn db) keys payload d = (r, d1)" by force
  from sqliteBatchPut_single [OF assms(2) h] assms(3) True have "r = None" "d1 = d'" "db' = db" by auto
  with stmt_each_rows [OF assms(1)] h True show ?thesis by blast
next
  case False
  let ?dsn = "db_dsn db"
  from sqliteBatchPut_tx [OF assms(2), of Q keys payload d] assms(3) False obtain d1 d2 d3 where
    h: "q_begin Q ?dsn d = (None, d1)" "q_prepare Q ?dsn insert_sql d1 = (None, d2)"
      "stmt_each Q ?dsn keys payload d2 = (None, d3)" "q_commit Q ?dsn d3 = (None, d')" "db' = db" by (auto split: if_splits)
  note l = sql_lawsD(2) [OF assms(1) h(1)] sql_lawsD(3) [OF assms(1) h(2)] sql_lawsD(4) [OF assms(1) h(4)]
  with stmt_each_rows [OF assms(1) h(3)] h(5) show ?thesis by simp
qed

lemma sqliteBatchPut_healthy:
  assumes "sql_laws Q rows saved" "sql_healthy Q rows" "\<not> db_busy db" "all_new keys (rows (db_dsn db) d)"
  shows "\<exists>s. sqliteBatchPut Q perCommit keys payload (db, d) = Some (None, s)"
proof (cases perCommit)
  case True
  from stmt_each_healthy [OF assms(1,2,4)] obtain d1 where "stmt_each Q (db_dsn db) keys payload d = (None, d1)"
    by (metis prod.collapse)
  from sqliteBatchPut_single [OF assms(3) this] True show ?thesis by simp
next
  case False
  let ?dsn = "db_dsn db"
  obtain d1 where b: "q_begin Q ?dsn d = (None, d1)" using assms(2) unfolding sql_healthy_def by (metis prod.collapse)
  obtain d2 where p: "q_prepare Q ?dsn insert_sql d1 = (None, d2)"
    using assms(2) unfolding sql_healthy_def by (metis prod.collapse)
  have "rows ?dsn d2 = rows ?dsn d" using sql_lawsD(2,3) [OF assms(1)] b p by metis
  with stmt_each_healthy [OF assms(1,2)] assms(4) obtain d3 where "stmt_each Q ?dsn keys payload d2 = (None, d3)"
    by (metis prod.collapse)
  moreover obtain d4 where "q_commit Q ?dsn d3 = (None, d4)"
    using assms(2) unfolding sql_healthy_def by (metis prod.collapse)
  ultimately show ?thesis using False assms(3) b p by (simp add: sqliteBatchPut_def Let_def)
qed

text \<open>A transaction that was left open keeps the only connection: nothing that uses the pool returns.\<close>

lemma busy_blocks:
  assumes "db_busy db"
  shows "db_Exec Q sql args (db, d) = None" "db_QueryRow Q sql args (db, d) = None"
    "sqliteBatchPut Q False keys payload (db, d) = None" "sql_scan Q pattern (db, d) = None"
    "keys \<noteq> [] \<Longrightarrow> sqliteBatchPut Q True keys payload (db, d) = None"
  using assms by (simp_all add: db_Exec_def db_QueryRow_def sqliteBatchPut_def sql_scan_def neq_Nil_conv)
    (auto simp: db_Exec_def)

text \<open>
  The restart check of SQLite: when it returns, the keys were distinct and it counted every row; an error
  of any call, such as the insert of a key a second time, ends it without rows.
\<close>

lemma sqlite_restart_verdict:
  fixes dur :: "bytes \<Rightarrow> bytes \<Rightarrow> int"
  assumes "sql_laws Q rows saved"
  shows "\<exists>out d'. (benchSQLitePostRestart Q dur path prof mk ck mp cp d :: (('f :: linordered_field) phaseResult list, 'd) run) =
      Some (out, d') \<and>
    ((\<exists>err. out = Fatal err) \<or>
     distinct (mk @ ck) \<and>
     out = Done (restart_rows (sp_Name prof) (dur (sp_Name prof) ''post_restart_row_count'')
       (length mk + length ck) (length mk + length ck)))"
proof -
  let ?dsn = "path_dsn prof path"
  let ?db = "\<lparr>db_dsn = ?dsn, db_busy = False\<rparr>"
  have idle: "\<not> db_busy ?db" by simp
  obtain r0 d0 where create: "q_exec Q ?dsn create_sql [] (q_remove Q path d) = (r0, d0)" by force
  obtain r1 db1 d1 where m: "sqliteBatchPut Q False mk mp (?db, d0) = Some (r1, (db1, d1))" "r1 = None \<longrightarrow> db1 = ?db"
    using sqliteBatchPut_tx [OF idle, of Q mk mp d0] by (auto split: if_splits)
  obtain r2 db2 d2 where c: "sqliteBatchPut Q False ck cp (?db, d1) = Some (r2, (db2, d2))" "r2 = None \<longrightarrow> db2 = ?db"
    using sqliteBatchPut_tx [OF idle, of Q ck cp d1] by (auto split: if_splits)
  obtain r3 d3 where close: "q_close Q ?dsn d2 = (r3, d3)" by force
  obtain r4 d4 where cnt: "q_count Q ?dsn count_sql d3 = (r4, d4)" by force
  note run = benchSQLitePostRestart_def Let_def db_Exec_def must_close_db_def and_then_def sql_count_again_def create
  show ?thesis
  proof (cases "q_open Q ?dsn = None \<and> r0 = None \<and> r1 = None \<and> r2 = None \<and> r3 = None \<and> \<not> isl r4")
    case True
    then obtain n where n: "r4 = Inr n" by (cases r4) auto
    have empty: "rows ?dsn d0 = Map.empty" using sql_lawsD(5) [OF assms] create True by blast
    have 1: "all_new mk (rows ?dsn d0) \<and> rows ?dsn d1 = with_keys mk mp (rows ?dsn d0)"
      using sqliteBatchPut_rows [OF assms idle, of False mk mp d0 db1 d1] m(1) True by simp
    have 2: "all_new ck (rows ?dsn d1) \<and> rows ?dsn d2 = with_keys ck cp (rows ?dsn d1) \<and> saved ?dsn d2 = rows ?dsn d2"
      using sqliteBatchPut_rows [OF assms idle, of False ck cp d1 db2 d2] c(1) True by simp
    have "rows ?dsn d3 = rows ?dsn d2" using sql_lawsD(6) [OF assms, of ?dsn d2 d3] close True 2 by simp
    with 1 2 empty have cols: "dom (rows ?dsn d3) = set (mk @ ck)" and new: "distinct (mk @ ck)"
      by (auto simp: all_new_def)
    have "n = card (dom (rows ?dsn d3))" using sql_lawsD(7) [OF assms] cnt n by blast
    then have "n = length mk + length ck" using distinct_card [OF new] cols by simp
    with True n new m c close cnt show ?thesis by (simp add: run)
  next
    case False
    then show ?thesis
      using m c close cnt by (auto simp: run isl_def split: option.splits sum.splits)
  qed
qed

section \<open>The drivers return\<close>

text \<open>
  Whatever the database does, no call of a driver waits for the connection: after an error that leaves a
  transaction open the process ends. \<open>sql_op\<close> and \<open>sql_run\<close> are about calls on an idle pool \<open>db\<close>.
\<close>

definition sql_op :: "sql_DB \<Rightarrow> (go_error option \<times> (sql_DB \<times> 'd)) option \<Rightarrow> bool" where
  "sql_op db r \<longleftrightarrow> (\<exists>e db' d'. r = Some (e, (db', d')) \<and> (e = None \<longrightarrow> db' = db))"

definition sql_run :: "bool \<Rightarrow> ('a \<Rightarrow> bool) \<Rightarrow> sql_DB \<Rightarrow> ('a, sql_DB \<times> 'd) run \<Rightarrow> bool" where
  "sql_run P Q db r \<longleftrightarrow> (\<exists>out db' d'. r = Some (out, (db', d')) \<and> ends P Q (db' = db) out)"

definition sql_ends :: "bool \<Rightarrow> ('a \<Rightarrow> bool) \<Rightarrow> ('a, 'd) run \<Rightarrow> bool" where
  "sql_ends P Q r \<longleftrightarrow> (\<exists>out d'. r = Some (out, d') \<and> ends P Q True out)"

interpretation pool: frame "\<lambda>s s'. fst s' = fst s"
  by unfold_locales simp

lemma sql_run_ends: "sql_run P Q db r \<longleftrightarrow> run_ends (\<lambda>s s'. fst s' = fst s) P Q (db, d) r"
  by (simp add: sql_run_def run_ends_def)

lemma sql_must:
  assumes "sql_op db r" "\<And>d. sql_run P Q db (k (db, d))"
  shows "sql_run P Q db (must r k)"
  unfolding sql_run_ends [where d = undefined]
proof (rule pool.run_must)
  show "\<exists>a s1. r = Some (a, s1) \<and> (a = None \<longrightarrow> fst s1 = fst (db, undefined))"
    using assms(1) by (auto simp: sql_op_def)
  fix s1 :: "sql_DB \<times> 'a"
  assume "fst s1 = fst (db, undefined :: 'a)"
  with assms(2) [of "snd s1"] sql_run_ends [of P Q db "k s1" "snd s1"]
  show "run_ends (\<lambda>s s'. fst s' = fst s) P Q s1 (k s1)" by (metis fst_conv prod.collapse)
qed

lemma sql_and_then:
  assumes "sql_run P Q' db r" "\<And>a d. Q' a \<Longrightarrow> sql_run P Q db (k a (db, d))"
  shows "sql_run P Q db (and_then r k)"
  unfolding sql_run_ends [where d = undefined]
proof (rule pool.run_and_then [OF assms(1) [unfolded sql_run_ends [where d = undefined]]])
  fix a and s1 :: "sql_DB \<times> 'b"
  assume "Q' a" "fst s1 = fst (db, undefined :: 'b)"
  with assms(2) [of a "snd s1"] sql_run_ends [of P Q db "k a s1" "snd s1"]
  show "run_ends (\<lambda>s s'. fst s' = fst s) P Q s1 (k a s1)" by (metis fst_conv prod.collapse)
qed

lemma sql_done: "Q a \<Longrightarrow> sql_run P Q db (Some (Done a, (db, d)))"
  by (simp add: sql_run_def)

lemma sql_with_db:
  assumes "\<And>db d. \<not> db_busy db \<Longrightarrow> sql_run P Q db (body (db, d))"
  shows "sql_ends P Q (with_db Q' dsn body d)"
proof -
  let ?db = "\<lparr>db_dsn = dsn, db_busy = False\<rparr>"
  from assms [of ?db d] obtain out db' d' where "body (?db, d) = Some (out, (db', d'))" "ends P Q (db' = ?db) out"
    by (auto simp: sql_run_def)
  then show ?thesis by (cases out) (auto simp: with_db_def sql_ends_def split: option.splits)
qed

lemma sql_ops:
  assumes "\<not> db_busy db"
  shows "sql_op db (db_Exec Q sql args (db, d))" "sql_op db (db_QueryRow Q sql args (db, d))"
    "sql_op db (sqliteBatchPut Q perCommit keys payload (db, d))"
  using assms by (auto simp: sql_op_def db_Exec_def db_QueryRow_def sqliteBatchPut_def insert_each_stmt_each Let_def
      split: prod.splits option.splits sum.splits list.splits)

lemma sql_gets_run:
  assumes "\<not> db_busy db" "0 < n \<Longrightarrow> keys = [] \<Longrightarrow> P"
  shows "sql_run P (\<lambda>_. 0 < n \<longrightarrow> keys \<noteq> []) db (sql_gets Q keys n i (db, d))"
  using assms(2)
proof (induction n arbitrary: i d)
  case (Suc n)
  show ?case
  proof (cases "keys = []")
    case False
    then have "sql_run P (\<lambda>_. 0 < Suc n \<longrightarrow> keys \<noteq> []) db (sql_gets Q keys n (Suc i) (db, d'))" for d'
      using Suc.IH [of "Suc i" d'] Suc.prems by (auto simp: sql_run_def elim: ends_mono)
    with False show ?thesis by (simp add: sql_must sql_ops(2) [OF assms(1)])
  qed (use Suc.prems in \<open>simp add: sql_run_def\<close>)
qed (simp add: sql_done)

lemma sql_scan_run: "\<not> db_busy db \<Longrightarrow> sql_run P (\<lambda>_. True) db (sql_scan Q pattern (db, d))"
  by (auto simp: sql_scan_def sql_run_def split: prod.splits sum.splits)

lemma ChunkBatched_sql_ends:
  "sql_ends P (\<lambda>rows. phases_of rows = [''chunk_batch_put_batched'']) (benchSQLiteChunkBatched Q dur path prof ck cp d)"
  unfolding benchSQLiteChunkBatched_def
  by (intro sql_with_db sql_must sql_ops sql_done) (simp_all add: result_def Let_def)

lemma sql_aside:
  assumes "sql_ends P Q (f d)"
  shows "sql_run P Q db (do { (out, d1) \<leftarrow> f d; Some (out, (db, d1)) })"
  using assms by (auto simp: sql_ends_def sql_run_def)

definition sqlite_phases :: "bytes list" where
  "sqlite_phases =
     [''memoir_batch_put'', ''memoir_random_get'', ''chunk_batch_put'', ''chunk_batch_put_batched'',
      ''chunk_prefix_scan'', ''chunk_random_get'']"

lemma benchSQLite_ends:
  "sql_ends (0 < randomGets \<and> (mk = [] \<or> ck = []))
     (\<lambda>rows. phases_of rows = sqlite_phases \<and> (0 < randomGets \<longrightarrow> mk \<noteq> [] \<and> ck \<noteq> []))
     (benchSQLite Q dur path prof mk ck mp cp randomGets d)"
  unfolding benchSQLite_def Let_def
  apply (rule sql_with_db)
  apply (rule sql_must, erule sql_ops)
  apply (rule sql_must, erule sql_ops)
  apply (rule sql_and_then, erule sql_gets_run, simp)
  apply (rule sql_must, erule sql_ops)
  apply (rule sql_and_then, simp only: prod.case, rule sql_aside, rule ChunkBatched_sql_ends)
  apply (rule sql_and_then, erule sql_scan_run)
  apply (rule sql_and_then, erule sql_gets_run, simp)
  apply (rule sql_done)
  apply (auto simp: result_def Let_def sqlite_phases_def)
  done

lemma must_close_db_run:
  assumes "sql_op db r" "\<And>d. sql_run P Q db (k (db, d))"
  shows "sql_run P Q db (must_close_db D r k)"
proof -
  from assms(1) obtain e db' d' where r: "r = Some (e, (db', d'))" "e = None \<longrightarrow> db' = db" by (auto simp: sql_op_def)
  then show ?thesis using assms(2) by (cases e) (auto simp: must_close_db_def sql_run_def)
qed

lemma sqlite_restart_ends:
  "sql_ends False (\<lambda>rows. phases_of rows = replicate 4 ''post_restart_row_count'')
     (benchSQLitePostRestart Q dur path prof mk ck mp cp d)"
proof (cases "q_open Q (path_dsn prof path)")
  case None
  let ?db = "\<lparr>db_dsn = path_dsn prof path, db_busy = False\<rparr>"
  have i: "\<not> db_busy ?db" by simp
  have "sql_run False (\<lambda>_. True) ?db
      (must_close_db Q (db_Exec Q create_sql [] (?db, q_remove Q path d)) (\<lambda>s.
       must_close_db Q (sqliteBatchPut Q False mk mp s) (\<lambda>s.
       must_close_db Q (sqliteBatchPut Q False ck cp s) (\<lambda>(db, d).
       case q_close Q (path_dsn prof path) d of
         (Some err, d1) \<Rightarrow> Some (Fatal err, (db, d1))
       | (None, d1) \<Rightarrow> Some (Done (), (db, d1))))))"
    by (intro must_close_db_run sql_ops i) (auto simp: sql_run_def split: prod.splits option.splits)
  then obtain out db' d' where
    "must_close_db Q (db_Exec Q create_sql [] (?db, q_remove Q path d)) (\<lambda>s.
       must_close_db Q (sqliteBatchPut Q False mk mp s) (\<lambda>s.
       must_close_db Q (sqliteBatchPut Q False ck cp s) (\<lambda>(db, d).
       case q_close Q (path_dsn prof path) d of
         (Some err, d1) \<Rightarrow> Some (Fatal err, (db, d1))
       | (None, d1) \<Rightarrow> Some (Done (), (db, d1))))) = Some (out, (db', d'))" "ends False (\<lambda>_. True) (db' = ?db) out"
    by (auto simp: sql_run_def)
  then show ?thesis
    by (cases out) (auto simp: benchSQLitePostRestart_def Let_def None and_then_def sql_count_again_def sql_ends_def
        restart_rows_def metricResult_def numeral_eq_Suc split: prod.splits sum.splits)
qed (simp add: benchSQLitePostRestart_def sql_ends_def)

section \<open>The fsync probe\<close>

text \<open>
  \<^verbatim>\<open>sqlite_fsync_probe.go\<close>: single inserts into a fresh database per journal setting. An error is a panic, and
  the deferred removals of the directories run at the end in either case, the last first. \<open>tmp\<close> gives the
  directories of \<^verbatim>\<open>os.MkdirTemp\<close>; the message of a panic and the printed times are left out.
\<close>

definition fsync_profiles :: "(bytes \<times> bytes) list" where
  "fsync_profiles =
     [(''wal_full'', ''file:kv?_pragma=journal_mode(WAL)&_pragma=synchronous(FULL)''),
      (''wal_normal'', ''file:kv?_pragma=journal_mode(WAL)&_pragma=synchronous(NORMAL)''),
      (''delete_full'', ''file:kv?_pragma=journal_mode(DELETE)&_pragma=synchronous(FULL)'')]"

definition probe_sql :: bytes where
  "probe_sql = ''CREATE TABLE kv (key TEXT PRIMARY KEY, value BLOB NOT NULL) WITHOUT ROWID''"

definition probe_database :: "'d sql_driver \<Rightarrow> bytes \<Rightarrow> 'd \<Rightarrow> (unit, 'd) run" where
  "probe_database Q dsn d =
     (case q_open Q dsn of
        Some err \<Rightarrow> Some (Panic [], d)
      | None \<Rightarrow> do {
          (r, (db, d1)) \<leftarrow> db_Exec Q probe_sql [] (\<lparr>db_dsn = dsn, db_busy = False\<rparr>, d);
          (case r of
             Some err \<Rightarrow> Some (Panic [], d1)
           | None \<Rightarrow> do {
               (r, (db, d2)) \<leftarrow> insert_each Q (chunk_keys 2000) (replicate 4096 (CHR ''x'')) (db, d1);
               (case r of
                  Some err \<Rightarrow> Some (Panic [], d2)
                | None \<Rightarrow> Some (Done (), snd (q_close Q dsn d2)))
             })
        })"

fun fsync_probe ::
  "'d sql_driver \<Rightarrow> (bytes \<times> bytes) list \<Rightarrow> (go_error + bytes) list \<Rightarrow> bytes list \<Rightarrow> 'd \<Rightarrow> (unit, 'd) run" where
  "fsync_probe Q ((name, dsn) # profiles) (Inr dir # tmp) dirs d =
     do {
       (out, d1) \<leftarrow> probe_database Q (Replace1 dsn ''file:kv?'' (''file:'' @ dir @ ''/kv?'')) d;
       (case out of
          Done _ \<Rightarrow> fsync_probe Q profiles tmp (dir # dirs) d1
        | _ \<Rightarrow> Some (out, fold (q_removeAll Q) (dir # dirs) d1))
     }"
| "fsync_probe Q [] tmp dirs d = Some (Done (), fold (q_removeAll Q) dirs d)"
| "fsync_probe Q (_ # _) _ dirs d = Some (Panic [], fold (q_removeAll Q) dirs d)"

lemma probe_database_ends: "\<exists>out d'. probe_database Q dsn d = Some (out, d') \<and> (\<forall>err. out \<noteq> Fatal err)"
  by (auto simp: probe_database_def db_Exec_def insert_each_stmt_each Let_def split: option.splits prod.splits)

text \<open>The probe ends on every database, and on one that follows SQL each of its tables gets every key.\<close>

lemma fsync_probe_ends: "\<exists>out d'. fsync_probe Q profiles tmp dirs d = Some (out, d') \<and> (\<forall>err. out \<noteq> Fatal err)"
proof (induction Q profiles tmp dirs d rule: fsync_probe.induct)
  case (1 Q name dsn profiles dir tmp dirs d)
  let ?dsn = "Replace1 dsn ''file:kv?'' (''file:'' @ dir @ ''/kv?'')"
  obtain out d1 where p: "probe_database Q ?dsn d = Some (out, d1)" "\<forall>err. out \<noteq> Fatal err"
    using probe_database_ends [of Q ?dsn d] by blast
  with "1.IH" [OF p(1) refl] show ?case by (cases out) auto
qed auto

lemma probe_database_rows:
  assumes "sql_laws Q rows saved" "probe_database Q dsn d = Some (Done (), d')"
    and "\<And>d d1. q_exec Q dsn probe_sql [] d = (None, d1) \<Longrightarrow> rows dsn d1 = Map.empty"
  shows "\<exists>d2. dom (rows dsn d2) = set (chunk_keys 2000) \<and> d' = snd (q_close Q dsn d2)"
proof -
  let ?p = "replicate 4096 (CHR ''x'')"
  obtain r1 d1 where 1: "q_exec Q dsn probe_sql [] d = (r1, d1)" by force
  obtain r2 d2 where 2: "stmt_each Q dsn (chunk_keys 2000) ?p d1 = (r2, d2)" by force
  have r: "r1 = None" "r2 = None" "d' = snd (q_close Q dsn d2)"
    using assms(2) 1 2 by (auto simp: probe_database_def db_Exec_def insert_each_stmt_each Let_def split: option.splits)
  with stmt_each_rows [OF assms(1), of dsn "chunk_keys 2000" ?p d1 d2] assms(3) 1 2 show ?thesis
    by (intro exI [of _ d2]) simp
qed

end
