(* ===== verification/Bench_Table.thy ===== *)
theory Bench_Table
  imports Bench_Report Bench_Batch "HOL-Library.Char_ord" "HOL-Library.List_Lexorder" "HOL-Library.Multiset"
begin

text \<open>
  The report table on standard output (\<^verbatim>\<open>printTable\<close> in \<^verbatim>\<open>bench/embed_vs_sqlite/main.go\<close>), as the list of its
  lines. Go compares strings bytewise, which is the lexicographic order of the lists here. \<^verbatim>\<open>sort.Slice\<close> is
  not stable, so it is a parameter that returns some sorted arrangement, as the order of map iteration
  is one. The verbs \<^verbatim>\<open>%.1f\<close>, \<^verbatim>\<open>%.0f\<close> and \<^verbatim>\<open>%g\<close> are the functions of the record \<open>verbs\<close>.
\<close>

section \<open>Printing\<close>

record 'f verbs =
  fmt_1f :: "'f \<Rightarrow> bytes"
  fmt_0f :: "'f \<Rightarrow> bytes"
  fmt_g :: "'f \<Rightarrow> bytes"

text \<open>A width of \<^verbatim>\<open>fmt\<close> counts characters; a byte that belongs to none counts as one.\<close>

fun RuneCount :: "bytes \<Rightarrow> nat" where
  "RuneCount [] = 0"
| "RuneCount (c # s) =
     (case utf8_head c s of U_ok w \<Rightarrow> Suc (RuneCount (drop (w - 1) s)) | _ \<Rightarrow> Suc (RuneCount s))"

definition pad_left :: "nat \<Rightarrow> bytes \<Rightarrow> bytes" where
  "pad_left w s = replicate (w - RuneCount s) (CHR '' '') @ s"

definition pad_right :: "nat \<Rightarrow> bytes \<Rightarrow> bytes" where
  "pad_right w s = s @ replicate (w - RuneCount s) (CHR '' '')"

definition table_note :: "'f phaseResult \<Rightarrow> bytes" where
  "table_note r = (if pr_Extra r = [] then pr_Durability r else pr_Extra r)"

definition row_line :: "'f verbs \<Rightarrow> 'f phaseResult \<Rightarrow> bytes" where
  "row_line V r =
     pad_right 22 (pr_Phase r) @ '' '' @ pad_right 18 (pr_Profile r) @ '' '' @ pad_left 8 (Itoa (pr_Ops r)) @ '' '' @
     pad_left 12 (fmt_1f V (pr_Ms r)) @ '' '' @
     (if pr_MetricOnly r \<noteq> []
      then pad_left 12 (pr_Unit r) @ '' '' @ pr_MetricOnly r @ ''='' @ fmt_g V (pr_Value r) @ '' '' @ table_note r
      else pad_left 12 (fmt_0f V (pr_OpsPerS r)) @ '' '' @ table_note r)"

text \<open>The arrow of a comparison line is the code point U+2192.\<close>

definition compare_line :: "compareLine \<Rightarrow> bytes" where
  "compare_line c = ''  '' @ [CHR 0xE2, CHR 0x86, CHR 0x92] @ '' '' @ cl_label c @ '': '' @ cl_line c"

definition table_head :: "bytes list" where
  "table_head =
     [[], ''=== f4kvs-ffi vs SQLite (product-shaped workloads) ==='',
      pad_right 22 ''phase'' @ '' '' @ pad_right 18 ''profile'' @ '' '' @ pad_left 8 ''ops'' @ '' '' @
      pad_left 12 ''ms'' @ '' '' @ pad_left 12 ''ops/s'' @ '' '' @ ''notes'']"

section \<open>Grouping and sorting\<close>

definition by_phase :: "'f phaseResult list \<Rightarrow> bytes \<Rightarrow> 'f phaseResult list" where
  "by_phase results = fold (\<lambda>r m. m(pr_Phase r := m (pr_Phase r) @ [r])) results (\<lambda>_. [])"

definition row_less :: "'f phaseResult \<Rightarrow> 'f phaseResult \<Rightarrow> bool" where
  "row_less r r' \<longleftrightarrow>
     (if pr_Profile r \<noteq> pr_Profile r' then pr_Profile r < pr_Profile r' else pr_MetricOnly r < pr_MetricOnly r')"

text \<open>One phase: its rows are sorted in place, printed, and compared.\<close>

fun print_phases ::
  "('f :: linordered_field) verbs \<Rightarrow> ('f phaseResult list \<Rightarrow> 'f phaseResult list) \<Rightarrow> bytes list \<Rightarrow>
   (bytes \<Rightarrow> 'f phaseResult list) \<Rightarrow> bytes list" where
  "print_phases V sort_Slice [] byPhase = []"
| "print_phases V sort_Slice (phase # phases) byPhase =
     (let byPhase = byPhase(phase := sort_Slice (byPhase phase)) in
      map (row_line V) (byPhase phase) @
      map compare_line (phaseCompares (fmt_1f V) byPhase (byPhase phase) phase) @
      print_phases V sort_Slice phases byPhase)"

definition printTable ::
  "('f :: linordered_field) verbs \<Rightarrow> (bytes list \<Rightarrow> bytes list) \<Rightarrow> ('f phaseResult list \<Rightarrow> 'f phaseResult list) \<Rightarrow>
   'f phaseResult list \<Rightarrow> bytes list" where
  "printTable V rng sort_Slice results =
     table_head @
     print_phases V sort_Slice (sort (rng (remdups (map pr_Phase results)))) (by_phase results)"

section \<open>What is printed\<close>

text \<open>The contract of \<^verbatim>\<open>sort.Slice\<close> with the order of the table.\<close>

definition slice_sort :: "('f phaseResult list \<Rightarrow> 'f phaseResult list) \<Rightarrow> bool" where
  "slice_sort sort_Slice \<longleftrightarrow>
     (\<forall>rs. mset (sort_Slice rs) = mset rs \<and> sorted_wrt (\<lambda>r r'. \<not> row_less r' r) (sort_Slice rs))"

text \<open>The order of the printed rows: by phase, then profile, then metric.\<close>

definition row_le :: "'f phaseResult \<Rightarrow> 'f phaseResult \<Rightarrow> bool" where
  "row_le r r' \<longleftrightarrow> pr_Phase r < pr_Phase r' \<or> pr_Phase r = pr_Phase r' \<and> \<not> row_less r' r"

definition group_lines ::
  "('f :: linordered_field) verbs \<Rightarrow> (bytes \<Rightarrow> 'f phaseResult list) \<Rightarrow> bytes \<Rightarrow> 'f phaseResult list \<Rightarrow> bytes list" where
  "group_lines V byPhase phase rs =
     map (row_line V) rs @ map compare_line (phaseCompares (fmt_1f V) byPhase rs phase)"

lemma by_phase_filter: "by_phase results phase = filter (\<lambda>r. pr_Phase r = phase) results"
proof -
  have "fold (\<lambda>r m. m(pr_Phase r := m (pr_Phase r) @ [r])) results m phase =
      m phase @ filter (\<lambda>r. pr_Phase r = phase) results" for m
    by (induction results arbitrary: m) auto
  then show ?thesis by (simp add: by_phase_def)
qed

lemma visits_mset: "visits rng \<Longrightarrow> distinct ks \<Longrightarrow> mset (rng ks) = mset ks"
  unfolding visits_def using set_eq_iff_mset_eq_distinct by blast

lemma sort_visits: "visits rng \<Longrightarrow> distinct ks \<Longrightarrow> sort (rng ks) = sort ks"
  by (intro properties_for_sort) (simp_all add: visits_mset)

text \<open>
  Only the rows of a phase that was printed are rearranged, so each phase prints its own rows, and its
  comparisons see the earlier phases sorted and the later ones as they were measured.
\<close>

lemma print_phases_groups:
  assumes "sorted_wrt (<) phases" "\<forall>p\<in>set phases. \<not> P p"
  shows "print_phases V srt phases (\<lambda>q. if P q then srt (b q) else b q) =
     concat (map (\<lambda>p. group_lines V (\<lambda>q. if P q \<or> q \<in> set phases \<and> q \<le> p then srt (b q) else b q) p (srt (b p))) phases)"
  using assms
proof (induction phases arbitrary: P)
  case (Cons p ps)
  let ?m = "\<lambda>q. if P q \<or> q = p then srt (b q) else b q"
  have now: "(\<lambda>q. if P q then srt (b q) else b q)(p := srt (b p)) = ?m" by auto
  have head: "?m = (\<lambda>q. if P q \<or> q \<in> set (p # ps) \<and> q \<le> p then srt (b q) else b q)"
    using Cons.prems by (auto simp: fun_eq_iff)
  have tail: "(\<lambda>q. if P q \<or> q = p \<or> q \<in> set ps \<and> q \<le> p' then srt (b q) else b q) =
      (\<lambda>q. if P q \<or> q \<in> set (p # ps) \<and> q \<le> p' then srt (b q) else b q)" if "p' \<in> set ps" for p'
    using Cons.prems that by (fastforce simp: fun_eq_iff)
  have "print_phases V srt ps ?m = concat (map (\<lambda>p'. group_lines V
      (\<lambda>q. if P q \<or> q \<in> set (p # ps) \<and> q \<le> p' then srt (b q) else b q) p' (srt (b p'))) ps)"
  proof (subst Cons.IH)
    show "\<forall>x\<in>set ps. \<not> (P x \<or> x = p)" using Cons.prems by auto
    show "sorted_wrt (<) ps" using Cons.prems by simp
  qed (simp add: tail cong: map_cong del: set_simps)
  moreover have "\<not> P p" using Cons.prems by simp
  moreover have "p \<in> set (p # ps)" by simp
  ultimately show ?case by (simp only: simp_thms order_refl if_True print_phases.simps Let_def fun_upd_same if_False now head group_lines_def
        list.map concat.simps append_assoc)
qed simp

lemma slice_sort_set: "slice_sort srt \<Longrightarrow> set (srt rs) = set rs"
  unfolding slice_sort_def by (metis mset_eq_setD)

lemma slice_sort_Nil: "slice_sort srt \<Longrightarrow> srt [] = []"
  unfolding slice_sort_def by (metis mset_zero_iff mset.simps(1))

definition table_phases :: "'f phaseResult list \<Rightarrow> bytes list" where
  "table_phases results = sort (remdups (map pr_Phase results))"

lemma table_phases:
  "sorted_wrt (<) (table_phases results)" "set (table_phases results) = pr_Phase ` set results"
  by (simp_all add: table_phases_def strict_sorted_iff)

lemma printTable_groups:
  assumes "visits rng" "slice_sort srt"
  shows "printTable V rng srt results =
    table_head @ concat (map (\<lambda>p. group_lines V
      (\<lambda>q. if q \<le> p then srt (by_phase results q) else by_phase results q) p (srt (by_phase results p)))
      (table_phases results))"
proof -
  let ?b = "by_phase results"
  have absent: "srt (?b q) = ?b q" if "q \<notin> pr_Phase ` set results" for q
  proof -
    have "?b q = []" using that by (auto simp: by_phase_filter filter_empty_conv)
    then show ?thesis by (simp add: slice_sort_Nil [OF assms(2)])
  qed
  have "(\<lambda>q. if q \<in> set (table_phases results) \<and> q \<le> p then srt (?b q) else ?b q) =
      (\<lambda>q. if q \<le> p then srt (?b q) else ?b q)" for p
    by (auto simp: fun_eq_iff table_phases(2) absent)
  then show ?thesis
    using print_phases_groups [OF table_phases(1) [of results], of "\<lambda>_. False" V srt ?b]
    by (simp add: printTable_def sort_visits [OF assms(1)] table_phases_def)
qed

text \<open>The rows of the table are the measured rows, each once, in order.\<close>

lemma mset_by_phase:
  "distinct phases \<Longrightarrow> mset (concat (map (by_phase results) phases)) = mset (filter (\<lambda>r. pr_Phase r \<in> set phases) results)"
proof (induction phases)
  case (Cons p ps)
  have "mset (filter (\<lambda>r. pr_Phase r \<in> set (p # ps)) results) =
      mset (filter (\<lambda>r. pr_Phase r = p) results) + mset (filter (\<lambda>r. pr_Phase r \<in> set ps) results)"
    using Cons.prems by (induction results) auto
  with Cons show ?case by (simp add: by_phase_filter)
qed simp

lemma mset_concat_map_cong: "(\<And>x. mset (f x) = mset (g x)) \<Longrightarrow> mset (concat (map f xs)) = mset (concat (map g xs))"
  by (induction xs) auto

lemma sorted_rows:
  assumes "slice_sort srt" "sorted_wrt (<) phases"
  shows "sorted_wrt row_le (concat (map (\<lambda>p. srt (by_phase results p)) phases))"
  using assms(2)
proof (induction phases)
  case (Cons p ps)
  have phase: "pr_Phase r = q" if "r \<in> set (srt (by_phase results q))" for r q
    using that slice_sort_set [OF assms(1)] by (auto simp: by_phase_filter)
  have "sorted_wrt (\<lambda>r r'. \<not> row_less r' r) (srt (by_phase results p))"
    using assms(1) by (simp add: slice_sort_def)
  then have "sorted_wrt row_le (srt (by_phase results p))"
    by (rule sorted_wrt_mono_rel [rotated]) (auto simp: row_le_def dest: phase)
  moreover have "row_le r r'" if "r \<in> set (srt (by_phase results p))" "q \<in> set ps" "r' \<in> set (srt (by_phase results q))"
    for r r' q
    using phase [OF that(1)] phase [OF that(3)] that(2) Cons.prems by (simp add: row_le_def)
  ultimately show ?case using Cons by (auto simp: sorted_wrt_append)
qed simp

lemma table_rows:
  assumes "slice_sort srt"
  shows "mset (concat (map (\<lambda>p. srt (by_phase results p)) (table_phases results))) = mset results"
    "sorted_wrt row_le (concat (map (\<lambda>p. srt (by_phase results p)) (table_phases results)))"
proof -
  have "mset (concat (map (\<lambda>p. srt (by_phase results p)) (table_phases results))) =
      mset (concat (map (by_phase results) (table_phases results)))"
    using assms by (intro mset_concat_map_cong) (simp add: slice_sort_def)
  also have "\<dots> = mset (filter (\<lambda>r. pr_Phase r \<in> set (table_phases results)) results)"
    by (rule mset_by_phase) (simp add: table_phases_def)
  also have "filter (\<lambda>r. pr_Phase r \<in> set (table_phases results)) results = results"
    by (rule filter_True) (simp add: table_phases(2))
  finally show "mset (concat (map (\<lambda>p. srt (by_phase results p)) (table_phases results))) = mset results" .
  show "sorted_wrt row_le (concat (map (\<lambda>p. srt (by_phase results p)) (table_phases results)))"
    by (rule sorted_rows [OF assms table_phases(1)])
qed

end
