(* ===== verification/Bench_Host.thy ===== *)
theory Bench_Host
  imports Bench_Report
begin

text \<open>
  What the run manifest says of the machine and the checkout (\<^verbatim>\<open>de_out.go\<close>): the short hashes of git, the
  pinned engine version and the processor. The record \<open>machine\<close> is what the process can observe: the
  output of a command that succeeds, the environment, the file tree, and the constants of the Go runtime.
  Symbolic links and permissions are not part of the tree.
\<close>

record machine =
  m_run :: "bytes list \<Rightarrow> bytes option"
  m_getenv :: "bytes \<Rightarrow> bytes"
  m_tree :: tree
  m_GOOS :: bytes
  m_GOARCH :: bytes
  m_Hostname :: bytes
  m_Version :: bytes
  m_NumCPU :: int

section \<open>Files\<close>

definition os_ReadFile :: "machine \<Rightarrow> path \<Rightarrow> bytes option" where
  "os_ReadFile M p = (case m_tree M p of Some (File b) \<Rightarrow> Some b | _ \<Rightarrow> None)"

definition fileExists :: "machine \<Rightarrow> path \<Rightarrow> bool" where
  "fileExists M p = (case m_tree M p of None \<Rightarrow> False | Some st \<Rightarrow> st \<noteq> Dir)"

definition dirExists :: "machine \<Rightarrow> path \<Rightarrow> bool" where
  "dirExists M p = (case m_tree M p of None \<Rightarrow> False | Some st \<Rightarrow> st = Dir)"

section \<open>Git\<close>

definition gitShortSHA :: "machine \<Rightarrow> bytes \<Rightarrow> bytes" where
  "gitShortSHA M dir =
     (if dir = [] then ''unknown''
      else case m_run M [''git'', ''-C'', dir, ''rev-parse'', ''--short'', ''HEAD''] of
             None \<Rightarrow> ''unknown''
           | Some out \<Rightarrow> TrimSpace out)"

definition gitDirty :: "machine \<Rightarrow> bytes \<Rightarrow> bool" where
  "gitDirty M dir =
     (if dir = [] then False
      else case m_run M [''git'', ''-C'', dir, ''status'', ''--porcelain''] of
             None \<Rightarrow> False
           | Some out \<Rightarrow> length (TrimSpace out) > 0)"

definition CollectGitInfo :: "machine \<Rightarrow> path \<Rightarrow> GitInfo" where
  "CollectGitInfo M repoRoot =
     (let info = \<lparr>gi_F4KVSFFI = gitShortSHA M (path_string repoRoot), gi_F4KVSLSM = [],
                  gi_Dirty = gitDirty M (path_string repoRoot)\<rparr>;
          ref = TrimSpace (m_getenv M ''F4KVS_LSM_REF'') in
      if ref \<noteq> [] then info\<lparr>gi_F4KVSLSM := ref\<rparr>
      else
        let sha = gitShortSHA M (path_string (walk repoRoot [''..'', ''f4kvs-lsm''])) in
        if sha \<noteq> [] \<and> sha \<noteq> ''unknown'' then info\<lparr>gi_F4KVSLSM := sha\<rparr>
        else
          let tag = cargoLSMPin (os_ReadFile M (''Cargo.toml'' # repoRoot)) in
          if tag \<noteq> [] then info\<lparr>gi_F4KVSLSM := tag\<rparr>
          else info\<lparr>gi_F4KVSLSM := ''unknown''\<rparr>)"

section \<open>Host\<close>

fun model_name :: "bytes list \<Rightarrow> bytes option" where
  "model_name [] = None"
| "model_name (line # lines) =
     (if prefix ''model name'' line then
        (case Index line '':'' of
           None \<Rightarrow> model_name lines
         | Some i \<Rightarrow> Some (TrimSpace (drop (Suc i) line)))
      else model_name lines)"

definition cpuModel :: "machine \<Rightarrow> bytes" where
  "cpuModel M =
     (if m_GOOS M = ''darwin'' then
        (case m_run M [''sysctl'', ''-n'', ''machdep.cpu.brand_string''] of
           Some out \<Rightarrow> TrimSpace out
         | None \<Rightarrow> ''unknown'')
      else if m_GOOS M = ''linux'' then
        (case os_ReadFile M [''cpuinfo'', ''proc''] of
           Some b \<Rightarrow> (case model_name (Split b (CHR 0x0A)) of Some name \<Rightarrow> name | None \<Rightarrow> ''unknown'')
         | None \<Rightarrow> ''unknown'')
      else ''unknown'')"

definition CollectHostInfo :: "machine \<Rightarrow> HostInfo" where
  "CollectHostInfo M =
     \<lparr>hi_OS = m_GOOS M, hi_Arch = m_GOARCH M, hi_Hostname = m_Hostname M, hi_Go = m_Version M,
      hi_CPUModel = cpuModel M, hi_CPUCores = m_NumCPU M\<rparr>"

section \<open>Lemmas\<close>

text \<open>
  The engine version of a manifest is never blank, and the environment variable wins over the checkout
  next to the repository, which wins over the pinned tag.
\<close>

lemma CollectGitInfo_lsm:
  "gi_F4KVSLSM (CollectGitInfo M dir) =
     hd (filter (\<lambda>v. v \<noteq> [])
       [TrimSpace (m_getenv M ''F4KVS_LSM_REF''),
        (let sha = gitShortSHA M (path_string (walk dir [''..'', ''f4kvs-lsm''])) in if sha = ''unknown'' then [] else sha),
        cargoLSMPin (os_ReadFile M (''Cargo.toml'' # dir)), ''unknown''])"
  by (simp add: CollectGitInfo_def Let_def)

lemma CollectGitInfo_lsm_nonempty: "gi_F4KVSLSM (CollectGitInfo M dir) \<noteq> []"
  by (simp add: CollectGitInfo_def Let_def)

text \<open>
  \<^verbatim>\<open>FindRepoRoot\<close> ends and returns the nearest directory at or above the start that holds the workspace
  manifest and the crate, or the start when there is none.
\<close>

lemma find_repo_root_nearest:
  "let root = (\<lambda>dir. fileExists M (''Cargo.toml'' # dir) \<and> dirExists M (''f4kvs-ffi'' # ''crates'' # dir));
       found = FindRepoRoot (fileExists M) (dirExists M) start in
   (root found \<and> suffix found start \<and> (\<forall>d. suffix d start \<and> root d \<longrightarrow> length d \<le> length found)) \<or>
   (found = start \<and> (\<forall>d. suffix d start \<longrightarrow> \<not> root d))"
  unfolding Let_def FindRepoRoot_def by (rule find_root_nearest)

end
