(* ===== verification/Bench_Payload.thy ===== *)
theory Bench_Payload
  imports Prelude Utf8
begin

unbundle bit_operations_syntax

text \<open>
  The payload generator of the benchmark harness (\<^verbatim>\<open>samplePayloadSeeded\<close> in
  \<^verbatim>\<open>bench/embed_vs_sqlite/main.go\<close>): a JSON document of an exact length whose body is filled by a
  64-bit xorshift generator, or by the system's random source \<open>rnd\<close> when the seed is 0.
\<close>

definition payload_head :: bytes where
  "payload_head = ''{\"v\":1,\"title\":\"bench\",\"body\":\"''"

definition payload_tail :: bytes where
  "payload_tail = ''\"}''"

definition xorshift :: "64 word \<Rightarrow> 64 word" where
  "xorshift state =
     (let state = state XOR push_bit 13 state;
          state = state XOR drop_bit 7 state
      in state XOR push_bit 17 state)"

text \<open>\<^verbatim>\<open>'a' + next()\<close> on bytes.\<close>

definition letter :: "64 word \<Rightarrow> char" where
  "letter n = char_of (97 + unat (n mod 26))"

fun fill_seeded :: "nat \<Rightarrow> 64 word \<Rightarrow> bytes" where
  "fill_seeded 0 state = []"
| "fill_seeded (Suc n) state = (let state = xorshift state in letter state # fill_seeded n state)"

fun fill_random :: "nat \<Rightarrow> 8 word list \<Rightarrow> bytes" where
  "fill_random 0 rnd = []"
| "fill_random (Suc n) rnd =
     (case rnd of
        [] \<Rightarrow> CHR ''a'' # fill_random n []
      | b # rnd' \<Rightarrow> char_of (97 + unat (b mod 26)) # fill_random n rnd')"

text \<open>
  The check of Go's \<^verbatim>\<open>make\<close> for a slice of \<open>n\<close> elements of \<open>elem\<close> bytes: a negative length, and one for which
  the slice is larger than the limit \<open>maxAlloc\<close> of the runtime (\<open>2 ^ 48\<close> bytes on amd64), is a panic. A slice
  within the limit is taken to be allocated.
\<close>

definition makeslice_ok :: "nat \<Rightarrow> nat \<Rightarrow> int \<Rightarrow> bool" where
  "makeslice_ok maxAlloc elem n \<longleftrightarrow> 0 \<le> n \<and> elem * nat n \<le> maxAlloc"

definition makeslice_panic :: bytes where
  "makeslice_panic = ''runtime error: makeslice: len out of range''"

text \<open>
  \<open>make\<close> fills with zero bytes and \<open>copy\<close> stops at the shorter side, so a payload too short for head and
  tail is the head, cut or padded with zero bytes. A read of the random source that fails leaves the
  zero byte in the buffer, which is the empty list here. \<^const>\<open>None\<close> is the panic of \<^verbatim>\<open>make\<close>.
\<close>

definition samplePayloadSeeded :: "nat \<Rightarrow> 8 word list \<Rightarrow> int \<Rightarrow> int \<Rightarrow> bytes option" where
  "samplePayloadSeeded maxAlloc rnd n seed =
     (if n \<le> 0 then Some []
      else if \<not> makeslice_ok maxAlloc 1 n then None
      else
        let fill = n - int (length payload_head) - int (length payload_tail) in
        if fill < 0 then
          Some (take (nat n) payload_head @ replicate (nat n - length payload_head) NUL)
        else if seed \<noteq> 0 then
          Some (payload_head @ fill_seeded (nat fill) (word_of_int seed) @ payload_tail)
        else Some (payload_head @ fill_random (nat fill) rnd @ payload_tail))"

definition samplePayload :: "nat \<Rightarrow> 8 word list \<Rightarrow> int \<Rightarrow> bytes option" where
  "samplePayload maxAlloc rnd n = samplePayloadSeeded maxAlloc rnd n 0"

section \<open>Lemmas\<close>

lemma length_fill_seeded [simp]: "length (fill_seeded n st) = n"
  by (induction n arbitrary: st) (auto simp: Let_def)

lemma length_fill_random [simp]: "length (fill_random n rnd) = n"
  by (induction n arbitrary: rnd) (auto split: list.splits)

lemma length_payload: "samplePayloadSeeded A rnd n seed = Some p \<Longrightarrow> length p = nat n"
  by (auto simp: samplePayloadSeeded_def Let_def payload_head_def payload_tail_def split: if_splits)

lemma payload_panics: "samplePayloadSeeded A rnd n seed = None \<longleftrightarrow> int A < n"
  by (auto simp: samplePayloadSeeded_def Let_def makeslice_ok_def)

text \<open>The body consists of lower-case letters.\<close>

definition lower_case :: "char \<Rightarrow> bool" where
  "lower_case c \<longleftrightarrow> 97 \<le> (of_char c :: nat) \<and> (of_char c :: nat) < 123"

lemma lower_case_char: "(n::nat) < 26 \<Longrightarrow> lower_case (char_of (97 + n))"
  by (simp add: lower_case_def)

lemma fill_seeded_lower: "c \<in> set (fill_seeded n st) \<Longrightarrow> lower_case c"
proof (induction n arbitrary: st)
  case (Suc n)
  have "unat (xorshift st mod 26) < 26" by (simp add: unat_mod)
  with Suc show ?case by (auto simp: Let_def letter_def lower_case_char)
qed simp

lemma fill_random_lower: "c \<in> set (fill_random n rnd) \<Longrightarrow> lower_case c"
proof (induction n arbitrary: rnd)
  case (Suc n)
  show ?case
  proof (cases rnd)
    case Nil
    with Suc show ?thesis by (auto simp: lower_case_def)
  next
    case (Cons b rnd')
    have "unat (b mod 26) < 26" by (simp add: unat_mod)
    with Cons Suc show ?thesis by (auto simp: lower_case_char)
  qed
qed simp

text \<open>The generator never reaches the state 0, in which it would stay.\<close>

lemma xor_eq_0: "x XOR y = (0 :: 64 word) \<Longrightarrow> bit x n = bit y n"
  using bit_xor_iff [of x y n] by simp

lemma xor_push_eq_0: "0 < k \<Longrightarrow> x XOR push_bit k x = 0 \<Longrightarrow> x = (0 :: 64 word)"
proof (rule ccontr)
  assume k: "0 < k" and eq: "x XOR push_bit k x = 0" and "x \<noteq> 0"
  then obtain i where i: "bit x i" by (metis bit_eqI bit_0_eq bot_apply bot_bool_def)
  define m where "m = (LEAST i. bit x i)"
  have m: "bit x m" unfolding m_def using i by (rule LeastI)
  then have "bit (push_bit k x) m" using xor_eq_0 [OF eq] by simp
  then have "bit x (m - k)" "k \<le> m" by (auto simp: bit_push_bit_iff)
  then have "m \<le> m - k" unfolding m_def by (intro Least_le)
  with k \<open>k \<le> m\<close> show False by simp
qed

lemma xor_drop_eq_0: "0 < k \<Longrightarrow> x XOR drop_bit k x = 0 \<Longrightarrow> x = (0 :: 64 word)"
proof (rule ccontr)
  assume k: "0 < k" and eq: "x XOR drop_bit k x = 0" and "x \<noteq> 0"
  then obtain i where i: "bit x i" by (metis bit_eqI bit_0_eq bot_apply bot_bool_def)
  have step: "bit x j = bit x (k + j)" for j
    using xor_eq_0 [OF eq, of j] by (simp add: bit_drop_bit_eq)
  have "bit x (i + n * k)" for n
  proof (induction n)
    case (Suc n)
    with step [of "i + n * k"] show ?case by (simp add: algebra_simps)
  qed (use i in simp)
  from bit_imp_le_length [OF this [of 64]] k show False by simp
qed

lemma xorshift_nonzero: "st \<noteq> 0 \<Longrightarrow> xorshift st \<noteq> 0"
  unfolding xorshift_def Let_def using xor_push_eq_0 xor_drop_eq_0 by (metis zero_less_numeral)

text \<open>
  Benchmark payloads that can be allocated have exactly the requested length; from 33 bytes on a payload is the JSON
  document with a body of lower-case letters, hence valid UTF-8 without NUL bytes, and a non-zero seed
  never drives the generator into its fixed point 0.
\<close>

lemma sample_payload_correct:
  assumes "33 \<le> n" "n \<le> int A"
  shows "\<exists>p. samplePayloadSeeded A rnd n seed = Some p \<and> length p = nat n \<and>
     (\<exists>body. p = payload_head @ body @ payload_tail \<and> (\<forall>c\<in>set body. lower_case c)) \<and>
     valid_utf8 p \<and> NUL \<notin> set p \<and> (st \<noteq> 0 \<longrightarrow> xorshift st \<noteq> 0)"
proof -
  obtain p where p: "samplePayloadSeeded A rnd n seed = Some p"
    using payload_panics [of A rnd n seed] assms(2) by fastforce
  have l: "length p = nat n" using p by (rule length_payload)
  have "\<not> n - int (length payload_head) - int (length payload_tail) < 0"
    using assms by (simp add: payload_head_def payload_tail_def)
  then obtain body where b: "p = payload_head @ body @ payload_tail" "\<forall>c\<in>set body. lower_case c"
    using assms p fill_seeded_lower fill_random_lower
    by (cases "seed = 0") (auto simp: samplePayloadSeeded_def Let_def split: if_splits)
  have "\<forall>c\<in>set payload_head \<union> set payload_tail. (of_char c :: nat) < 0x80 \<and> c \<noteq> NUL"
    by (simp add: payload_head_def payload_tail_def)
  moreover have "\<forall>c\<in>set body. (of_char c :: nat) < 0x80 \<and> c \<noteq> NUL"
    using b(2) by (auto simp: lower_case_def)
  ultimately have "\<forall>c\<in>set p. (of_char c :: nat) < 0x80 \<and> c \<noteq> NUL"
    unfolding b(1) set_append by blast
  then have "valid_utf8 p" "NUL \<notin> set p" by (blast intro: valid_utf8_ascii)+
  then show ?thesis using p l b xorshift_nonzero [of st] by blast
qed

end
