(* ===== verification/Run_Writer.thy ===== *)
theory Run_Writer
  imports Bench_Report Json
begin

text \<open>
  The run writer of \<^verbatim>\<open>bench/embed_vs_sqlite/de_out.go\<close>: a run is staged in the directory \<^verbatim>\<open>{runID}.partial\<close>
  and renamed to \<^verbatim>\<open>{runID}\<close> when it is complete. The JSON of the structs follows their field tags; \<open>num\<close> is
  the text of a floating-point number, \<^const>\<open>None\<close> for the values JSON cannot express. \<open>run_files\<close> is what a
  complete run directory holds.
\<close>

section \<open>Structs as JSON\<close>

definition schemaVersion :: bytes where "schemaVersion = ''bench-schema-v1''"

definition flowID :: bytes where "flowID = ''rag_chunk_ingest_v1''"

definition harnessPath :: bytes where "harnessPath = ''bench/embed_vs_sqlite''"

record 'f report =
  rep_Host :: bytes
  rep_Memoirs :: int
  rep_Chunks :: int
  rep_MemoirB :: int
  rep_ChunkB :: int
  rep_RandomGet :: int
  rep_FairCompare :: bytes
  rep_BatchedCompare :: bytes
  rep_Results :: "'f phaseResult list"

definition JInt :: "int \<Rightarrow> json" where
  "JInt i = JNumber (show_int i)"

definition json_of_git :: "GitInfo \<Rightarrow> json" where
  "json_of_git g =
     JObject [(''f4kvs_ffi'', JString (gi_F4KVSFFI g)), (''f4kvs_lsm'', JString (gi_F4KVSLSM g)),
       (''dirty'', JBool (gi_Dirty g))]"

definition json_of_host :: "HostInfo \<Rightarrow> json" where
  "json_of_host h =
     JObject [(''os'', JString (hi_OS h)), (''arch'', JString (hi_Arch h)), (''hostname'', JString (hi_Hostname h)),
       (''go'', JString (hi_Go h)), (''cpu_model'', JString (hi_CPUModel h)), (''cpu_cores'', JInt (hi_CPUCores h))]"

definition json_of_scale :: "ScaleInfo \<Rightarrow> json" where
  "json_of_scale c =
     JObject [(''memoirs'', JInt (si_Memoirs c)), (''chunks'', JInt (si_Chunks c)),
       (''memoir_bytes'', JInt (si_MemoirBytes c)), (''chunk_bytes'', JInt (si_ChunkBytes c)),
       (''random_gets'', JInt (si_RandomGets c))]"

definition json_of_manifest :: "RunManifest \<Rightarrow> json" where
  "json_of_manifest m =
     JObject
       [(''schema_version'', JString (rm_SchemaVersion m)), (''run_id'', JString (rm_RunID m)),
        (''flow_id'', JString (rm_FlowID m)), (''tier'', JString (rm_Tier m)), (''seed'', JInt (rm_Seed m)),
        (''started_at'', JString (rm_StartedAt m)), (''finished_at'', JString (rm_FinishedAt m)),
        (''git'', json_of_git (rm_Git m)), (''host'', json_of_host (rm_Host m)),
        (''scale'', json_of_scale (rm_Scale m)),
        (''engines'', case rm_Engines m of None \<Rightarrow> JNull | Some es \<Rightarrow> JArray (map JString es)),
        (''harness'', JObject [(''path'', JString (ha_Path (rm_Harness m))), (''command'', JString (ha_Command (rm_Harness m)))]),
        (''notes'', JString (rm_Notes m))]"

definition json_of_line :: "('f \<Rightarrow> bytes option) \<Rightarrow> 'f ResultLine \<Rightarrow> json option" where
  "json_of_line num l =
     do {
       v \<leftarrow> num (rl_Value l);
       Some (JObject
         [(''run_id'', JString (rl_RunID l)), (''engine'', JString (rl_Engine l)), (''phase'', JString (rl_Phase l)),
          (''metric'', JString (rl_Metric l)), (''value'', JNumber v), (''ops'', JInt (rl_Ops l)),
          (''unit'', JString (rl_Unit l)), (''notes'', JString (rl_Notes l))])
     }"

text \<open>The fields with \<^verbatim>\<open>omitempty\<close> are left out when they have their zero value.\<close>

definition omitempty :: "bytes \<Rightarrow> bytes \<Rightarrow> (bytes \<times> json) list" where
  "omitempty k s = (if s = [] then [] else [(k, JString s)])"

definition json_of_phase :: "('f \<Rightarrow> bytes option) \<Rightarrow> ('f :: zero) phaseResult \<Rightarrow> json option" where
  "json_of_phase num r =
     do {
       ms \<leftarrow> num (pr_Ms r);
       ops_per_s \<leftarrow> num (pr_OpsPerS r);
       val \<leftarrow> (if pr_Value r = 0 then Some [] else map_option (\<lambda>v. [(''value'', JNumber v)]) (num (pr_Value r)));
       Some (JObject
         ([(''phase'', JString (pr_Phase r)), (''profile'', JString (pr_Profile r)), (''ops'', JInt (pr_Ops r)),
           (''ms'', JNumber ms), (''ops_per_s'', JNumber ops_per_s)] @
          omitempty ''durability'' (pr_Durability r) @ omitempty ''extra'' (pr_Extra r) @
          omitempty ''metric'' (pr_MetricOnly r) @ val @ omitempty ''unit'' (pr_Unit r)))
     }"

definition json_of_report :: "('f \<Rightarrow> bytes option) \<Rightarrow> ('f :: zero) report \<Rightarrow> json option" where
  "json_of_report num rep =
     do {
       results \<leftarrow> those (map (json_of_phase num) (rep_Results rep));
       Some (JObject
         [(''host'', JString (rep_Host rep)), (''memoirs'', JInt (rep_Memoirs rep)), (''chunks'', JInt (rep_Chunks rep)),
          (''memoir_bytes'', JInt (rep_MemoirB rep)), (''chunk_bytes'', JInt (rep_ChunkB rep)),
          (''random_gets'', JInt (rep_RandomGet rep)), (''fair_compare'', JString (rep_FairCompare rep)),
          (''batched_compare'', JString (rep_BatchedCompare rep)),
          (''results'', if results = [] then JNull else JArray results)])
     }"

definition json_err :: go_error where
  "json_err = Errorf ''json: unsupported value'' []"

section \<open>Times and run identifiers\<close>

definition NewRunID :: "utc_time \<Rightarrow> bytes" where
  "NewRunID t =
     pad_nat 4 (t_year t) @ pad_nat 2 (t_month t) @ pad_nat 2 (t_day t) @ ''T'' @
     pad_nat 2 (t_hour t) @ pad_nat 2 (t_minute t) @ pad_nat 2 (t_second t) @ ''Z''"

definition RFC3339 :: "utc_time \<Rightarrow> bytes" where
  "RFC3339 t =
     pad_nat 4 (t_year t) @ ''-'' @ pad_nat 2 (t_month t) @ ''-'' @ pad_nat 2 (t_day t) @ ''T'' @
     pad_nat 2 (t_hour t) @ '':'' @ pad_nat 2 (t_minute t) @ '':'' @ pad_nat 2 (t_second t) @ ''Z''"

section \<open>The writer\<close>

definition NewRunWriter ::
  "calls \<Rightarrow> path \<Rightarrow> utc_time \<Rightarrow> bytes \<Rightarrow> bytes \<Rightarrow> RunManifest \<Rightarrow> os_state \<Rightarrow>
   (go_error + 'f RunWriter) \<times> os_state" where
  "NewRunWriter C cwd now runsRoot runID manifest s =
     (if runsRoot = [] then (Inl (Errorf ''runs-root is empty'' []), s)
      else if runID = [] then (Inl (Errorf ''run_id is empty'' []), s)
      else
        let partial = join_path (abs_path cwd runsRoot) (runID @ ''.partial'');
            final = join_path (abs_path cwd runsRoot) runID in
        case os_RemoveAll C partial s of
          (Some err, s1) \<Rightarrow> (Inl err, s1)
        | (None, s1) \<Rightarrow>
            (case os_MkdirAll C partial s1 of
               (Some err, s2) \<Rightarrow> (Inl err, s2)
             | (None, s2) \<Rightarrow>
                 (let m = manifest\<lparr>rm_SchemaVersion := schemaVersion, rm_RunID := runID, rm_FlowID := flowID\<rparr>;
                      m = (if ha_Path (rm_Harness m) = [] then m\<lparr>rm_Harness := (rm_Harness m)\<lparr>ha_Path := harnessPath\<rparr>\<rparr> else m) in
                  (Inr \<lparr>rw_RunsRoot = runsRoot, rw_RunID = runID, rw_PartialDir = partial, rw_FinalDir = final,
                        rw_Manifest = m, rw_lines = [], rw_started = now\<rparr>, s2))))"

fun write_lines ::
  "calls \<Rightarrow> ('f \<Rightarrow> bytes option) \<Rightarrow> path \<Rightarrow> 'f ResultLine list \<Rightarrow> bytes \<Rightarrow> os_state \<Rightarrow>
   go_error option \<times> bytes \<times> os_state" where
  "write_lines C num f [] buf s = (None, buf, s)"
| "write_lines C num f (line # lines) buf s =
     (case json_of_line num line of
        None \<Rightarrow> (Some json_err, buf, s)
      | Some v \<Rightarrow>
          (case bw_Write C f (Marshal v) buf s of
             (Some err, buf1, s1) \<Rightarrow> (Some err, buf1, s1)
           | (None, buf1, s1) \<Rightarrow>
               (case bw_WriteByte C f LF buf1 s1 of
                  (Some err, buf2, s2) \<Rightarrow> (Some err, buf2, s2)
                | (None, buf2, s2) \<Rightarrow> write_lines C num f lines buf2 s2)))"

definition write_results ::
  "calls \<Rightarrow> ('f \<Rightarrow> bytes option) \<Rightarrow> path \<Rightarrow> 'f ResultLine list \<Rightarrow> os_state \<Rightarrow> go_error option \<times> os_state" where
  "write_results C num f lines s =
     (case os_Create C f s of
        (Some err, s1) \<Rightarrow> (Some err, s1)
      | (None, s1) \<Rightarrow>
          (case write_lines C num f lines [] s1 of
             (Some err, _, s2) \<Rightarrow> (Some err, snd (os_close C f s2))
           | (None, buf, s2) \<Rightarrow>
               (case bw_Flush C f buf s2 of
                  (Some err, _, s3) \<Rightarrow> (Some err, snd (os_close C f s3))
                | (None, _, s3) \<Rightarrow> os_close C f s3)))"

definition write_legacy ::
  "calls \<Rightarrow> ('f \<Rightarrow> bytes option) \<Rightarrow> path \<Rightarrow> ('f :: zero) report option \<Rightarrow> os_state \<Rightarrow> go_error option \<times> os_state" where
  "write_legacy C num f legacy s =
     (case legacy of
        None \<Rightarrow> (None, s)
      | Some rep \<Rightarrow>
          (case json_of_report num rep of
             None \<Rightarrow> (Some json_err, s)
           | Some v \<Rightarrow> os_WriteFile C f (MarshalIndent v) s))"

definition publish_run :: "calls \<Rightarrow> path \<Rightarrow> path \<Rightarrow> os_state \<Rightarrow> (go_error + path) \<times> os_state" where
  "publish_run C partial final s =
     (case os_Rename C partial final (snd (os_RemoveAll C final s)) of
        (Some err, s1) \<Rightarrow> (Inl err, s1)
      | (None, s1) \<Rightarrow> (Inr final, s1))"

definition final_manifest :: "utc_time \<Rightarrow> bytes list \<Rightarrow> 'f RunWriter \<Rightarrow> RunManifest" where
  "final_manifest finished engines w =
     (let m = (rw_Manifest w)\<lparr>rm_StartedAt := RFC3339 (rw_started w), rm_FinishedAt := RFC3339 finished\<rparr> in
      if engines \<noteq> [] then m\<lparr>rm_Engines := Some engines\<rparr> else m)"

definition Finalize ::
  "calls \<Rightarrow> ('f \<Rightarrow> bytes option) \<Rightarrow> utc_time \<Rightarrow> ('f :: zero) report option \<Rightarrow> bytes list \<Rightarrow> 'f RunWriter \<Rightarrow>
   os_state \<Rightarrow> (go_error + path) \<times> 'f RunWriter \<times> os_state" where
  "Finalize C num finished legacy engines w s =
     (let w = w\<lparr>rw_Manifest := final_manifest finished engines w\<rparr>; dir = rw_PartialDir w in
      case os_WriteFile C (''manifest.json'' # dir) (MarshalIndent (json_of_manifest (rw_Manifest w))) s of
        (Some err, s1) \<Rightarrow> (Inl err, w, s1)
      | (None, s1) \<Rightarrow>
          (case write_results C num (''results.jsonl'' # dir) (rw_lines w) s1 of
             (Some err, s2) \<Rightarrow> (Inl err, w, s2)
           | (None, s2) \<Rightarrow>
               (case write_legacy C num (''report.legacy.json'' # dir) legacy s2 of
                  (Some err, s3) \<Rightarrow> (Inl err, w, s3)
                | (None, s3) \<Rightarrow> (let (r, s4) = publish_run C dir (rw_FinalDir w) s3 in (r, w, s4)))))"

section \<open>A complete run directory\<close>

definition jsonl :: "('f \<Rightarrow> bytes option) \<Rightarrow> 'f ResultLine list \<Rightarrow> bytes list option" where
  "jsonl num lines = those (map (\<lambda>l. map_option Marshal (json_of_line num l)) lines)"

definition lines_text :: "bytes list \<Rightarrow> bytes" where
  "lines_text bs = concat (map (\<lambda>b. b @ [LF]) bs)"

definition run_files ::
  "('f \<Rightarrow> bytes option) \<Rightarrow> ('f :: zero) report option \<Rightarrow> RunManifest \<Rightarrow> 'f ResultLine list \<Rightarrow> tree" where
  "run_files num legacy m lines =
     [[] \<mapsto> Dir, [''manifest.json''] \<mapsto> File (MarshalIndent (json_of_manifest m)),
      [''results.jsonl''] \<mapsto> File (lines_text (the (jsonl num lines)))] ++
     (case legacy of
        None \<Rightarrow> Map.empty
      | Some rep \<Rightarrow> [[''report.legacy.json''] \<mapsto> File (MarshalIndent (the (json_of_report num rep)))])"

text \<open>The tree below a directory.\<close>

definition subtree :: "path \<Rightarrow> tree \<Rightarrow> tree" where
  "subtree d t = (\<lambda>rel. t (rel @ d))"

section \<open>Staging\<close>

lemma write_lines_spec:
  "write_lines C num f lines buf s = (r, buf', s') \<Longrightarrow>
   touches {f} s s' \<and>
   (r = None \<longrightarrow> (\<exists>bs. jsonl num lines = Some bs \<and> written f buf' s' = written f buf s @ lines_text bs \<and> keeps_file f s s'))"
proof (induction C num f lines buf s rule: write_lines.induct)
  case (1 C num f buf s)
  then show ?case by (simp add: jsonl_def lines_text_def)
next
  case (2 C num f line lines buf s)
  show ?case
  proof (cases "json_of_line num line")
    case None
    with 2(2) show ?thesis by auto
  next
    case v: (Some v)
    obtain e1 b1 s1 where w1: "bw_Write C f (Marshal v) buf s = (e1, b1, s1)" by (metis prod_cases3)
    note b1 = bw_Write_spec [OF w1]
    obtain e2 b2 s2 where w2: "bw_WriteByte C f LF b1 s1 = (e2, b2, s2)" by (metis prod_cases3)
    note b2 = bw_WriteByte_spec [OF w2]
    show ?thesis
    proof (cases "e1 = None \<and> e2 = None")
      case True
      with 2(2) v w1 w2 have "write_lines C num f lines b2 s2 = (r, buf', s')" by simp
      from 2(1) [OF v w1 [symmetric] _ refl w2 [symmetric] _ refl this] True b1 b2 v show ?thesis
        by (auto simp: jsonl_def lines_text_def intro: touches_trans) (simp_all add: keeps_file_def)
    next
      case False
      with 2(2) v w1 w2 b1 b2 show ?thesis by (auto split: option.splits intro: touches_trans)
    qed
  qed
qed

lemma write_results_spec:
  assumes "write_results C num f lines s = (r, s')"
  shows "touches {f} s s' \<and>
    (r = None \<longrightarrow> (\<exists>bs. jsonl num lines = Some bs \<and> os_tree s' = (os_tree s)(f \<mapsto> File (lines_text bs))))"
proof -
  note close = touches_mono [OF touches_files(4), of "{f}"]
  obtain e1 s1 where w1: "os_Create C f s = (e1, s1)" by force
  with touches_files(2) [of f s C] have t1: "touches {f} s s1" by simp
  show ?thesis
  proof (cases e1)
    case (Some err)
    with assms w1 t1 show ?thesis by (auto simp: write_results_def)
  next
    case None
    obtain e2 b2 s2 where w2: "write_lines C num f lines [] s1 = (e2, b2, s2)" by (metis prod_cases3)
    note l2 = write_lines_spec [OF w2]
    obtain e3 b3 s3 where w3: "bw_Flush C f b2 s2 = (e3, b3, s3)" by (metis prod_cases3)
    note l3 = bw_Flush_spec [OF w3]
    have t: "touches {f} s s2" "touches {f} s s3" using t1 l2 l3 by (auto intro: touches_trans)
    show ?thesis
    proof (cases "e2 = None \<and> e3 = None")
      case False
      with assms None w1 w2 w3 t show ?thesis
        by (auto simp: write_results_def split: option.splits intro: touches_trans close)
    next
      case True
      with assms None w1 w2 w3 have c: "os_close C f s3 = (r, s')" by (simp add: write_results_def)
      then have s': "os_tree s' = os_tree s3" using close_tree [of C f s3] by simp
      from None files_ok(2) w1 have s1: "os_tree s1 = (os_tree s)(f \<mapsto> File [])" by simp
      from True l2 l3 s1 obtain bs where
        bs: "jsonl num lines = Some bs" "file_content f (os_tree s3) = lines_text bs"
        by (auto simp: written_def)
      have "is_file (os_tree s3 f)"
        using True l2 l3 s1 by (auto simp: keeps_file_def is_file_def)
      from is_file_content [where t = "os_tree s3" and f = f, OF this] bs(2) have f: "os_tree s3 f = Some (File (lines_text bs))" by simp
      have "os_tree s3 = (os_tree s)(f \<mapsto> File (lines_text bs))"
        using f touchesD [OF t(2)] by (auto simp: fun_eq_iff)
      moreover have "touches {f} s s'" using t(2) close [of s3 C f] c by (auto intro: touches_trans)
      ultimately show ?thesis using s' bs(1) by auto
    qed
  qed
qed

lemma write_legacy_spec:
  assumes "write_legacy C num f legacy s = (r, s')"
  shows "touches {f} s s' \<and>
    (r = None \<longrightarrow> os_tree s' = (case legacy of None \<Rightarrow> os_tree s
       | Some rep \<Rightarrow> (os_tree s)(f \<mapsto> File (MarshalIndent (the (json_of_report num rep))))))"
  using assms touches_files(1) [of f s C] files_ok(1) [of C f _ s s']
  by (auto simp: write_legacy_def split: option.splits) (metis snd_conv)

lemma subtree_upd [simp]: "subtree d (t(x # d \<mapsto> n)) = (subtree d t)([x] \<mapsto> n)"
proof (rule ext)
  fix rel
  have "rel @ d = x # d \<longleftrightarrow> rel = [x]" by (metis append_Cons append_Nil append_same_eq)
  then show "subtree d (t(x # d \<mapsto> n)) rel = ((subtree d t)([x] \<mapsto> n)) rel" by (simp add: subtree_def)
qed

text \<open>Until the run is published every call stays inside the staging directory.\<close>

lemma Finalize_staging:
  assumes "Finalize C num finished legacy engines w s = (r, w', s')"
  obtains (failed) err where "r = Inl err" "touches {q. suffix (rw_PartialDir w) q} s s'"
  | (staged) s3 where "touches {q. suffix (rw_PartialDir w) q} s s3"
      "publish_run C (rw_PartialDir w) (rw_FinalDir w) s3 = (r, s')"
      "subtree (rw_PartialDir w) (os_tree s) = [[] \<mapsto> Dir] \<Longrightarrow>
       subtree (rw_PartialDir w) (os_tree s3) = run_files num legacy (final_manifest finished engines w) (rw_lines w)"
      "jsonl num (rw_lines w) \<noteq> None"
proof -
  let ?d = "rw_PartialDir w" and ?m = "final_manifest finished engines w"
  have mono: "touches {x # ?d} s1 s2 \<Longrightarrow> touches {q. suffix ?d q} s1 s2" for x s1 s2
    by (erule touches_mono) (auto simp: suffix_ConsI)
  obtain e1 s1 where 1: "os_WriteFile C (''manifest.json'' # ?d) (MarshalIndent (json_of_manifest ?m)) s = (e1, s1)"
    by force
  have "touches {''manifest.json'' # ?d} s s1"
    using touches_files(1) [of "''manifest.json'' # ?d" s C "MarshalIndent (json_of_manifest ?m)"] by (simp add: 1)
  note t1 = mono [OF this]
  obtain e2 s2 where 2: "write_results C num (''results.jsonl'' # ?d) (rw_lines w) s1 = (e2, s2)" by force
  note r2 = write_results_spec [OF 2]
  note t2 = touches_trans [OF t1 mono [OF conjunct1 [OF r2]]]
  obtain e3 s3 where 3: "write_legacy C num (''report.legacy.json'' # ?d) legacy s2 = (e3, s3)" by force
  note r3 = write_legacy_spec [OF 3]
  note t3 = touches_trans [OF t2 mono [OF conjunct1 [OF r3]]]
  show ?thesis
  proof (cases "e1 = None \<and> e2 = None \<and> e3 = None")
    case False
    then have "(\<exists>err. r = Inl err) \<and> (s' = s1 \<or> s' = s2 \<or> s' = s3)"
      using assms 1 2 3 by (cases e1; cases e2; cases e3) (auto simp: Finalize_def)
    with t1 t2 t3 show ?thesis using failed by blast
  next
    case True
    with files_ok(1) 1 r2 obtain bs where
      t: "jsonl num (rw_lines w) = Some bs"
        "os_tree s2 = (os_tree s)(''manifest.json'' # ?d \<mapsto> File (MarshalIndent (json_of_manifest ?m)),
           ''results.jsonl'' # ?d \<mapsto> File (lines_text bs))" by auto
    show ?thesis
    proof (rule staged [OF t3])
      show "publish_run C ?d (rw_FinalDir w) s3 = (r, s')"
        using assms 1 2 3 True by (auto simp: Finalize_def Let_def split: prod.splits)
      show "subtree ?d (os_tree s3) = run_files num legacy ?m (rw_lines w)"
        if "subtree ?d (os_tree s) = [[] \<mapsto> Dir]"
        using that True t r3 by (auto simp: run_files_def split: option.splits)
      show "jsonl num (rw_lines w) \<noteq> None" using t by simp
    qed
  qed
qed

section \<open>Publishing\<close>

lemma siblings: "a \<noteq> b \<Longrightarrow> \<not> suffix (b # base) (rel @ a # base)"
proof
  assume "a \<noteq> b" "suffix (b # base) (rel @ a # base)"
  then obtain x where "(rel @ [a]) @ base = (x @ [b]) @ base" by (auto simp: suffix_def)
  with \<open>a \<noteq> b\<close> show False by simp
qed

lemma subtree_moved: "subtree new (moved old new t) = subtree old t"
  by (simp add: subtree_def moved_def suffix_def fun_eq_iff)

lemma subtree_removed: "subtree p (remove_under p keep t) rel \<in> {None, subtree p t rel}"
  by (simp add: subtree_def remove_under_def)

lemma subtree_sibling_removed:
  "a \<noteq> b \<Longrightarrow> subtree (a # base) (remove_under (b # base) keep t) = subtree (a # base) t"
  by (simp add: subtree_def remove_under_def siblings fun_eq_iff)

text \<open>
  A tree in which the final directory shows nothing new, or the run as a whole.
\<close>

definition old_or_new :: "path \<Rightarrow> tree \<Rightarrow> tree \<Rightarrow> tree \<Rightarrow> bool" where
  "old_or_new final old run t \<longleftrightarrow>
     (\<forall>rel. subtree final t rel \<in> {None, subtree final old rel}) \<or> subtree final t = run"

lemma os_RemoveAll_trace:
  "\<exists>ts. os_trace (snd (os_RemoveAll C p s)) = os_trace s @ ts \<and>
     (\<forall>t\<in>set (os_tree (snd (os_RemoveAll C p s)) # ts). \<exists>keep. t = remove_under p keep (os_tree s))"
  by (auto simp: os_RemoveAll_def Let_def settle_def split: option.splits)

lemma publish_run_spec:
  assumes "publish_run C (a # base) (b # base) s = (r, s')" "a \<noteq> b"
  shows "(\<exists>ts. os_trace s' = os_trace s @ ts \<and>
       (\<forall>t\<in>set (os_tree s' # ts). old_or_new (b # base) (os_tree s) (subtree (a # base) (os_tree s)) t)) \<and>
     (\<forall>dir. r = Inr dir \<longrightarrow>
        dir = b # base \<and> subtree (b # base) (os_tree s') = subtree (a # base) (os_tree s) \<and>
        subtree (a # base) (os_tree s') = Map.empty \<and>
        (\<forall>q. \<not> suffix (a # base) q \<longrightarrow> \<not> suffix (b # base) q \<longrightarrow> os_tree s' q = os_tree s q))"
proof -
  define s1 where "s1 = snd (os_RemoveAll C (b # base) s)"
  from os_RemoveAll_trace [of C "b # base" s] obtain ts1 where
    ts1: "os_trace s1 = os_trace s @ ts1"
      "\<forall>t\<in>set (os_tree s1 # ts1). \<exists>keep. t = remove_under (b # base) keep (os_tree s)"
    by (auto simp: s1_def)
  then obtain keep where k: "os_tree s1 = remove_under (b # base) keep (os_tree s)" by auto
  have sub: "subtree (a # base) (os_tree s1) = subtree (a # base) (os_tree s)"
    unfolding k by (rule subtree_sibling_removed [OF assms(2)])
  have old: "old_or_new (b # base) (os_tree s) run t" if "t \<in> set (os_tree s1 # ts1)" for run t
    using ts1(2) that subtree_removed unfolding old_or_new_def by metis
  have mv: "subtree (a # base) (moved (a # base) (b # base) (os_tree s1)) = Map.empty"
    using siblings [OF assms(2)] by (auto simp: subtree_def moved_def suffix_def fun_eq_iff)
  from assms(1) have R: "os_Rename C (a # base) (b # base) s1 = (case r of Inl err \<Rightarrow> Some err | Inr _ \<Rightarrow> None, s')"
    "\<forall>dir. r = Inr dir \<longrightarrow> dir = b # base"
    by (auto simp: publish_run_def s1_def split: prod.splits option.splits)
  show ?thesis
  proof (cases r)
    case (Inl err)
    then have "os_trace s' = os_trace s @ ts1 @ [os_tree s1]" "os_tree s' = os_tree s1"
      using R ts1(1) by (auto simp: os_Rename_def settle_def Let_def split: if_splits option.splits)
    with Inl old show ?thesis by auto
  next
    case (Inr dir)
    then have s': "os_tree s' = moved (a # base) (b # base) (os_tree s1)"
      "os_trace s' = os_trace s @ ts1 @ [os_tree s']"
      using R ts1(1) by (auto simp: os_Rename_def settle_def Let_def split: if_splits option.splits)
    have fin: "subtree (b # base) (os_tree s') = subtree (a # base) (os_tree s)"
      using sub by (simp add: s' subtree_moved)
    moreover have "os_tree s' q = os_tree s q" if "\<not> suffix (a # base) q" "\<not> suffix (b # base) q" for q
      using that by (simp add: s' k moved_def remove_under_def)
    moreover have "\<forall>t\<in>set (os_tree s' # ts1 @ [os_tree s']).
        old_or_new (b # base) (os_tree s) (subtree (a # base) (os_tree s)) t"
      using old fin by (auto simp: old_or_new_def)
    ultimately show ?thesis using Inr R(2) mv s' by auto
  qed
qed

text \<open>
  From an empty staging directory on: whatever fails, the final directory never shows a part of the new
  run, and on success it shows the whole of it and nothing else in the tree has changed.
\<close>

lemma old_or_new_same:
  assumes "\<forall>q. q \<notin> {q. suffix (a # base) q} \<longrightarrow> t q = old q" "a \<noteq> b"
  shows "old_or_new (b # base) old run t"
proof -
  have "t (rel @ b # base) = old (rel @ b # base)" for rel
    using assms(1) siblings [of b a base rel] assms(2) by blast
  then show ?thesis by (simp add: old_or_new_def subtree_def)
qed

lemma Finalize_whole:
  assumes "Finalize C num fin legacy engines w s = (r, w', s')"
    and "rw_PartialDir w = a # base" "rw_FinalDir w = b # base" "a \<noteq> b" "subtree (a # base) (os_tree s) = [[] \<mapsto> Dir]"
    and run: "run = run_files num legacy (final_manifest fin engines w) (rw_lines w)"
  shows "\<exists>ts. os_trace s' = os_trace s @ ts \<and> (\<forall>t\<in>set (os_tree s' # ts). old_or_new (b # base) (os_tree s) run t)" (is ?trace)
    and "\<forall>dir. r = Inr dir \<longrightarrow> dir = b # base \<and> subtree dir (os_tree s') = run \<and> jsonl num (rw_lines w) \<noteq> None \<and>
       subtree (a # base) (os_tree s') = Map.empty \<and>
       (\<forall>q. \<not> suffix (a # base) q \<longrightarrow> \<not> suffix (b # base) q \<longrightarrow> os_tree s' q = os_tree s q)" (is ?done)
proof -
  have kept: "\<exists>ts. os_trace s1 = os_trace s @ ts \<and> (\<forall>t\<in>set (os_tree s1 # ts). old_or_new (b # base) (os_tree s) run t)"
    if t: "touches {q. suffix (a # base) q} s s1" for s1
    using t old_or_new_same [OF _ assms(4)] unfolding touches_def by blast
  have "?trace \<and> ?done"
    using assms(1)
  proof (cases rule: Finalize_staging)
    case (failed err)
    with kept assms(2) show ?thesis by simp
  next
    case (staged s3)
    from kept staged(1) assms(2) obtain ts1 where 1: "os_trace s3 = os_trace s @ ts1"
      "\<forall>t\<in>set ts1. old_or_new (b # base) (os_tree s) run t" by auto
    have out: "q \<notin> {q. suffix (a # base) q} \<Longrightarrow> os_tree s3 q = os_tree s q" for q
      using touchesD [OF staged(1)] assms(2) by simp
    have fin: "subtree (b # base) (os_tree s3) = subtree (b # base) (os_tree s)"
      using out siblings [of b a base] assms(4) by (auto simp: subtree_def fun_eq_iff)
    have part: "subtree (a # base) (os_tree s3) = run" using staged(3) assms(2,5) run by simp
    from publish_run_spec [OF _ assms(4), of C base s3 r s'] staged(2) assms(2,3) obtain ts2 where
      2: "os_trace s' = os_trace s3 @ ts2" "\<forall>t\<in>set (os_tree s' # ts2). old_or_new (b # base) (os_tree s3) run t"
        "\<forall>dir. r = Inr dir \<longrightarrow> dir = b # base \<and> subtree (b # base) (os_tree s') = run \<and>
          subtree (a # base) (os_tree s') = Map.empty \<and>
          (\<forall>q. \<not> suffix (a # base) q \<longrightarrow> \<not> suffix (b # base) q \<longrightarrow> os_tree s' q = os_tree s3 q)"
      by (auto simp: part)
    from 1 2(1,2) have ?trace by (auto simp: old_or_new_def fin)
    moreover have ?done using 2(3) staged(4) out by auto
    ultimately show ?thesis ..
  qed
  then show ?trace ?done by blast+
qed

lemma Finalize_lines:
  "Finalize C num fin legacy engines w s = (r, w', s') \<Longrightarrow> rw_lines w' = rw_lines w"
  by (auto simp: Finalize_def Let_def split: prod.splits option.splits)

section \<open>A run is published\<close>

lemma healthy_lines:
  assumes "healthy C" "jsonl num lines \<noteq> None"
  shows "fst (write_lines C num f lines buf s) = None"
  using assms(2)
proof (induction lines arbitrary: buf s)
  case (Cons l ls)
  then obtain v where v: "json_of_line num l = Some v" by (auto simp: jsonl_def split: option.splits)
  obtain e1 b1 s1 where 1: "bw_Write C f (Marshal v) buf s = (e1, b1, s1)" by (metis prod_cases3)
  obtain e2 b2 s2 where 2: "bw_WriteByte C f LF b1 s1 = (e2, b2, s2)" by (metis prod_cases3)
  have "e1 = None" "e2 = None"
    using healthy_bw_Write [OF assms(1), of f "Marshal v" buf s] healthy_bw(2) [OF assms(1), of f LF b1 s1] 1 2 by simp_all
  with Cons v 1 2 show ?case by (auto simp: jsonl_def split: option.splits)
qed simp

lemma healthy_results:
  assumes "healthy C" "jsonl num lines \<noteq> None" "parent_ok f (os_tree s)" "os_tree s f \<noteq> Some Dir"
  shows "fst (write_results C num f lines s) = None"
proof -
  obtain e1 s1 where 1: "os_Create C f s = (e1, s1)" by force
  obtain e2 b2 s2 where 2: "write_lines C num f lines [] s1 = (e2, b2, s2)" by (metis prod_cases3)
  obtain e3 b3 s3 where 3: "bw_Flush C f b2 s2 = (e3, b3, s3)" by (metis prod_cases3)
  have "e1 = None" "e2 = None" "e3 = None"
    using healthy_files(2) [OF assms(1,3,4)] healthy_lines [OF assms(1,2), of f "[]" s1] healthy_bw(1) [OF assms(1), of f b2 s2] 1 2 3
    by simp_all
  with 1 2 3 healthy_files(4) [OF assms(1), of f s3] show ?thesis by (simp add: write_results_def)
qed

lemma healthy_publish:
  assumes "healthy C" "a \<noteq> b" "os_tree s (a # base) \<noteq> None" "os_tree s base = Some Dir"
  shows "fst (publish_run C (a # base) (b # base) s) = Inr (b # base)"
proof -
  define s1 where "s1 = snd (os_RemoveAll C (b # base) s)"
  have t: "os_tree s1 = remove_under (b # base) (\<lambda>_. False) (os_tree s)"
    using assms(1) by (simp add: s1_def os_RemoveAll_def healthy_def Let_def)
  have "\<not> suffix (b # base) base" by (auto dest: suffix_length_le)
  moreover have "\<not> suffix (b # base) (a # base)" "\<not> suffix (a # base) (b # base)"
    using siblings [of a b base "[]"] siblings [of b a base "[]"] assms(2) by auto
  ultimately have "fst (os_Rename C (a # base) (b # base) s1) = None"
    using assms by (simp add: os_Rename_def t remove_under_def parent_ok_def healthy_def Let_def)
  then show ?thesis by (auto simp: publish_run_def simp flip: s1_def split: prod.splits option.splits)
qed

text \<open>When no call fails and the numbers can be printed, the run is published.\<close>

lemma Finalize_succeeds:
  assumes "healthy C" "rw_PartialDir w = a # base" "rw_FinalDir w = b # base" "a \<noteq> b"
    and "subtree (a # base) (os_tree s) = [[] \<mapsto> Dir]" "os_tree s base = Some Dir"
    and "jsonl num (rw_lines w) \<noteq> None" "\<forall>rep. legacy = Some rep \<longrightarrow> json_of_report num rep \<noteq> None"
  shows "\<exists>w' s'. Finalize C num fin legacy engines w s = (Inr (b # base), w', s')"
proof -
  let ?d = "a # base" and ?m = "final_manifest fin engines w"
  have node: "os_tree s (x # ?d) = None" "os_tree s ?d = Some Dir" for x
    using fun_cong [OF assms(5), of "[x]"] fun_cong [OF assms(5), of "[]"] by (simp_all add: subtree_def)
  obtain e1 s1 where 1: "os_WriteFile C (''manifest.json'' # ?d) (MarshalIndent (json_of_manifest ?m)) s = (e1, s1)" by force
  have "parent_ok (''manifest.json'' # ?d) (os_tree s)" "os_tree s (''manifest.json'' # ?d) \<noteq> Some Dir"
    using node by (simp_all add: parent_ok_def)
  from healthy_files(1) [OF assms(1) this, of "MarshalIndent (json_of_manifest ?m)"] 1 have e1: "e1 = None" by simp
  with 1 files_ok(1) have t1: "os_tree s1 = (os_tree s)(''manifest.json'' # ?d \<mapsto> File (MarshalIndent (json_of_manifest ?m)))" by simp
  obtain e2 s2 where 2: "write_results C num (''results.jsonl'' # ?d) (rw_lines w) s1 = (e2, s2)" by force
  have "parent_ok (''results.jsonl'' # ?d) (os_tree s1)" "os_tree s1 (''results.jsonl'' # ?d) \<noteq> Some Dir"
    using node by (simp_all add: t1 parent_ok_def)
  from healthy_results [OF assms(1,7) this] 2 have e2: "e2 = None" by simp
  from write_results_spec [OF 2] e2 obtain bs where
    t2: "os_tree s2 = (os_tree s1)(''results.jsonl'' # ?d \<mapsto> File (lines_text bs))" by auto
  obtain e3 s3 where 3: "write_legacy C num (''report.legacy.json'' # ?d) legacy s2 = (e3, s3)" by force
  have "parent_ok (''report.legacy.json'' # ?d) (os_tree s2)" "os_tree s2 (''report.legacy.json'' # ?d) \<noteq> Some Dir"
    using node by (simp_all add: t1 t2 parent_ok_def)
  then have ok: "fst (os_WriteFile C (''report.legacy.json'' # ?d) b s2) = None" for b by (rule healthy_files(1) [OF assms(1)])
  have e3: "e3 = None"
  proof (cases legacy)
    case (Some rep)
    with assms(8) obtain v where "json_of_report num rep = Some v" by auto
    with Some 3 ok [of "MarshalIndent v"] show ?thesis by (simp add: write_legacy_def)
  qed (use 3 in \<open>simp add: write_legacy_def\<close>)
  with write_legacy_spec [OF 3] have "os_tree s3 ?d \<noteq> None" "os_tree s3 base = Some Dir"
    using node assms(6) by (auto simp: t1 t2 split: option.splits)
  from healthy_publish [OF assms(1,4) this] show ?thesis
    using 1 2 3 e1 e2 e3 assms(2,3) by (auto simp: Finalize_def Let_def split: prod.splits)
qed

section \<open>Opening a run\<close>

lemma plain_partial: "plain_name runID \<Longrightarrow> plain_name (runID @ ''.partial'')"
  by (simp add: plain_name_def)

lemma NewRunWriter_spec:
  assumes "NewRunWriter C cwd now runsRoot runID man s = (Inr w, s')" "plain_name runID"
  shows "rw_RunID w = runID" "rw_PartialDir w = (runID @ ''.partial'') # abs_path cwd runsRoot"
    "rw_FinalDir w = runID # abs_path cwd runsRoot" "rw_lines w = []"
    "subtree (rw_PartialDir w) (os_tree s') = [[] \<mapsto> Dir]"
    "\<not> suffix (rw_PartialDir w) q \<Longrightarrow> os_tree s q \<noteq> None \<Longrightarrow> os_tree s' q = os_tree s q"
proof -
  let ?d = "(runID @ ''.partial'') # abs_path cwd runsRoot"
  have j: "join_path (abs_path cwd runsRoot) (runID @ ''.partial'') = ?d"
    "join_path (abs_path cwd runsRoot) runID = runID # abs_path cwd runsRoot"
    using assms(2) plain_partial by (simp_all add: join_plain)
  from assms(1) obtain s1 where
    r: "os_RemoveAll C ?d s = (None, s1)" "os_MkdirAll C ?d s1 = (None, s')"
    and w: "rw_RunID w = runID" "rw_PartialDir w = ?d" "rw_FinalDir w = runID # abs_path cwd runsRoot" "rw_lines w = []"
    by (auto simp: NewRunWriter_def j Let_def split: if_splits prod.splits option.splits)
  show "rw_RunID w = runID" "rw_PartialDir w = ?d" "rw_FinalDir w = runID # abs_path cwd runsRoot" "rw_lines w = []"
    by (fact w)+
  have t: "os_tree s1 = remove_under ?d (\<lambda>_. False) (os_tree s)" "os_tree s' = make_dirs ?d (\<lambda>_. True) (os_tree s1)"
    using r by (auto simp: os_RemoveAll_def os_MkdirAll_def Let_def split: option.splits if_splits)
  have "suffix (rel @ ?d) ?d \<longleftrightarrow> rel = []" for rel by (auto dest: suffix_length_le)
  then show "subtree (rw_PartialDir w) (os_tree s') = [[] \<mapsto> Dir]"
    unfolding w(2) subtree_def t make_dirs_def remove_under_def by (auto simp: fun_eq_iff suffix_def)
  show "\<not> suffix (rw_PartialDir w) q \<Longrightarrow> os_tree s q \<noteq> None \<Longrightarrow> os_tree s' q = os_tree s q"
    by (simp add: w(2) t make_dirs_def remove_under_def)
qed

lemma MkdirAll_dirs:
  assumes "os_MkdirAll C p s = (None, s')" "suffix q p"
  shows "os_tree s' q = Some Dir"
proof -
  from assms have "\<not> is_file (os_tree s q)" "os_tree s' = make_dirs p (\<lambda>_. True) (os_tree s)"
    by (auto simp: os_MkdirAll_def Let_def list_ex_iff in_set_suffixes split: if_splits option.splits)
  with assms(2) show ?thesis by (cases "os_tree s q") (auto simp: make_dirs_def is_file_def split: node.splits)
qed

lemma NewRunWriter_base:
  assumes "NewRunWriter C cwd now runsRoot runID man s = (Inr w, s')" "plain_name runID"
  shows "os_tree s' (abs_path cwd runsRoot) = Some Dir"
proof -
  have "join_path (abs_path cwd runsRoot) (runID @ ''.partial'') = (runID @ ''.partial'') # abs_path cwd runsRoot"
    using assms(2) plain_partial by (simp add: join_plain)
  with assms(1) obtain s1 where "os_MkdirAll C ((runID @ ''.partial'') # abs_path cwd runsRoot) s1 = (None, s')"
    by (auto simp: NewRunWriter_def Let_def split: if_splits prod.splits option.splits)
  then show ?thesis by (rule MkdirAll_dirs) (simp add: suffix_ConsI)
qed

lemma NewRunWriter_succeeds:
  assumes "healthy C" "runsRoot \<noteq> []" "plain_name runID" "\<forall>q. suffix q (abs_path cwd runsRoot) \<longrightarrow> \<not> is_file (os_tree s q)"
  shows "\<exists>w s'. NewRunWriter C cwd now runsRoot runID man s = (Inr w, s')"
proof -
  let ?base = "abs_path cwd runsRoot" and ?a = "runID @ ''.partial''"
  have j: "join_path ?base ?a = ?a # ?base" using assms(3) plain_partial by (simp add: join_plain)
  obtain s1 where 1: "os_RemoveAll C (?a # ?base) s = (None, s1)"
    using healthy_files(5) [OF assms(1), of "?a # ?base" s] by (metis prod.collapse)
  then have "os_tree s1 = remove_under (?a # ?base) (\<lambda>_. False) (os_tree s)"
    by (auto simp: os_RemoveAll_def Let_def split: option.splits)
  then have "\<not> is_file (os_tree s1 q)" if "suffix q (?a # ?base)" for q
    using that assms(4) by (auto simp: remove_under_def is_file_def suffix_Cons)
  then have "\<not> list_ex (\<lambda>q. is_file (os_tree s1 q)) (suffixes (?a # ?base))"
    unfolding list_ex_iff by (metis in_set_suffixes)
  then obtain s2 where 2: "os_MkdirAll C (?a # ?base) s1 = (None, s2)"
    using assms(1) by (simp add: os_MkdirAll_def Let_def healthy_def del: suffixes.simps list_ex_iff)
  have "runID \<noteq> []" using assms(3) by (simp add: plain_name_def)
  with assms(2) 1 2 j show ?thesis by (simp add: NewRunWriter_def Let_def)
qed

lemma AppendPhaseResults_keeps [simp]:
  "rw_PartialDir (AppendPhaseResults results w) = rw_PartialDir w"
  "rw_FinalDir (AppendPhaseResults results w) = rw_FinalDir w"
  unfolding AppendPhaseResults_def by (induction results arbitrary: w) simp_all

text \<open>A default run identifier is a plain name.\<close>

lemma pad_nat_no_slash: "slash \<notin> set (pad_nat w n)"
proof
  assume "slash \<in> set (pad_nat w n)"
  then have "slash \<in> set (show_nat n)" by (auto simp: pad_nat_def)
  then obtain d where "d < 10" "slash = digit_char d" using show_nat_digits by blast
  then have "(of_char slash :: nat) = 48 + d" by (metis of_char_digit)
  then show False by simp
qed

lemma plain_NewRunID: "plain_name (NewRunID t)"
  using pad_nat_no_slash by (auto simp: plain_name_def NewRunID_def append_eq_Cons_conv append_eq_append_conv2)

section \<open>The lines of a published run\<close>

lemma those_length: "those xs = Some ys \<Longrightarrow> length ys = length xs"
  by (induction xs arbitrary: ys) (auto split: option.splits)

lemma Split_lines: "\<forall>b\<in>set bs. LF \<notin> set b \<Longrightarrow> Split (lines_text bs) LF = bs @ [[]]"
  by (induction bs) (auto simp: lines_text_def Split_append)

lemma JInt_plain [simp]: "plain_numbers (JInt i)"
proof -
  have "LF \<notin> set (show_nat n)" for n
  proof
    assume "LF \<in> set (show_nat n)"
    then obtain d where "d < 10" "LF = digit_char d" using show_nat_digits by blast
    then have "(of_char LF :: nat) = 48 + d" by (metis of_char_digit)
    then show False by simp
  qed
  then show ?thesis by (simp add: JInt_def show_int_def)
qed

lemma jsonl_LF:
  assumes "jsonl num lines = Some bs" "\<forall>x n. num x = Some n \<longrightarrow> LF \<notin> set n"
  shows "\<forall>b\<in>set bs. LF \<notin> set b"
proof -
  have "LF \<notin> set (Marshal v)" if "json_of_line num l = Some v" for l v
    using that assms(2) unfolding Marshal_def
    by (intro compact_LF) (auto simp: json_of_line_def split: Option.bind_splits)
  then have "b \<in> set bs \<Longrightarrow> those (map (\<lambda>l. map_option Marshal (json_of_line num l)) ls) = Some bs \<Longrightarrow> LF \<notin> set b"
    for b bs ls
    by (induction ls arbitrary: bs) (fastforce split: option.splits)+
  with assms(1) show ?thesis by (auto simp: jsonl_def)
qed

end
