(* ===== verification/Bench_Main.thy ===== *)
theory Bench_Main
  imports Bench_Sqlite Bench_Table Bench_Host Bench_Payload Run_Writer
begin

text \<open>
  The program of the benchmark (\<^verbatim>\<open>main\<close> in \<^verbatim>\<open>bench/embed_vs_sqlite/main.go\<close>) from its parsed flags to its exit
  status. The record \<open>harness\<close> has what the process depends on: the drivers' environment, the SQLite driver,
  the calls of \<^verbatim>\<open>os\<close>, the machine, the number formats and the clock. The state \<open>app\<close> has the library, the
  databases, the file tree of the reports and the lines of standard output; the temporary directory of
  the stores belongs to the first two. Progress lines on standard error are left out.
\<close>

section \<open>Flags, environment and state\<close>

record bench_flags =
  f_memoirs :: int
  f_chunks :: int
  f_memoirBytes :: int
  f_chunkBytes :: int
  f_randomGets :: int
  f_includeRelaxed :: bool
  f_seed :: int
  f_runsRoot :: bytes
  f_tier :: bytes
  f_profiles :: bytes
  f_maxPerCommitChunks :: int
  f_batchPutSize :: int
  f_fair :: bool
  f_out :: bytes
  f_runID :: bytes

record ('x, 'c, 'd, 'f) harness =
  h_bench :: "('x, 'c) bench"
  h_sql :: "'d sql_driver"
  h_calls :: calls
  h_machine :: machine
  h_verbs :: "'f verbs"
  h_num :: "'f \<Rightarrow> bytes option"
  h_sort :: "'f phaseResult list \<Rightarrow> 'f phaseResult list"
  h_rand_memoir :: "8 word list"
  h_rand_chunk :: "8 word list"
  h_maxAlloc :: nat
  h_tmp :: "go_error + bytes"
  h_cwd :: path
  h_now :: utc_time
  h_started :: utc_time
  h_finished :: utc_time

record ('x, 'c, 'd) app =
  a_world :: "('x, 'c) world"
  a_sql :: 'd
  a_os :: os_state
  a_out :: "bytes list"

text \<open>How the process ends: normally, in the integrity gate, in \<^verbatim>\<open>fatal\<close>, or in a panic.\<close>

datatype status = Exit_ok | Exit_integrity | Exit_fatal go_error | Exit_panic bytes

fun exit_code :: "status \<Rightarrow> nat" where
  "exit_code Exit_ok = 0"
| "exit_code Exit_integrity = 1"
| "exit_code (Exit_fatal err) = 1"
| "exit_code (Exit_panic msg) = 2"

definition on_world ::
  "(('x, 'c) world \<Rightarrow> ('a, ('x, 'c) world) run) \<Rightarrow> ('x, 'c, 'd) app \<Rightarrow> ('a, ('x, 'c, 'd) app) run" where
  "on_world f s = do { (out, w) \<leftarrow> f (a_world s); Some (out, s\<lparr>a_world := w\<rparr>) }"

definition on_sql :: "('d \<Rightarrow> ('a, 'd) run) \<Rightarrow> ('x, 'c, 'd) app \<Rightarrow> ('a, ('x, 'c, 'd) app) run" where
  "on_sql f s = do { (out, d) \<leftarrow> f (a_sql s); Some (out, s\<lparr>a_sql := d\<rparr>) }"

section \<open>Profiles\<close>

text \<open>The signs of these strings outside ASCII are U+2264 and U+2014.\<close>

definition less_eq_sign :: bytes where
  "less_eq_sign = [CHR 0xE2, CHR 0x89, CHR 0xA4]"

definition dash_sign :: bytes where
  "dash_sign = [CHR 0xE2, CHR 0x80, CHR 0x94]"

definition gc1Opts :: OpenOptions where
  "gc1Opts = zero_options\<lparr>GroupCommitEnabled := True, GroupCommitMaxWaitMs := 1, GroupCommitWaitDurable := False\<rparr>"

definition gc10Opts :: OpenOptions where
  "gc10Opts = zero_options\<lparr>GroupCommitEnabled := True, GroupCommitMaxWaitMs := 10\<rparr>"

text \<open>Name, directory, durability label and options of each run of \<^verbatim>\<open>benchF4KVS\<close>, in the order of \<^verbatim>\<open>main\<close>.\<close>

definition f4kvs_runs :: "(bytes \<times> bytes \<times> bytes \<times> OpenOptions option) list" where
  "f4kvs_runs =
     [(''f4kvs_wal_segment'', ''f4kvs_segment'', ''Segment WAL + WalSyncMode::Fsync (sync_all per put)'', None),
      (''f4kvs_wal_frame'', ''f4kvs_frame'', ''Frame WAL + WalSyncMode::Fsync (sync_data per put)'',
         Some (zero_options\<lparr>WalEngineOpt := WalEngineFrame\<rparr>)),
      (''f4kvs_wal_indexed'', ''f4kvs_indexed'',
         ''Indexed WAL v2 '' @ dash_sign @ '' per-frame micro-files + wal.idx (wal_engine=2)'',
         Some (zero_options\<lparr>WalEngineOpt := WalEngineIndexed\<rparr>)),
      (''f4kvs_group_commit_1ms'', ''f4kvs_gc1'',
         ''WAL group_commit 1ms (async ack; durable after FlushWAL / '' @ less_eq_sign @ ''1ms window)'', Some gc1Opts),
      (''f4kvs_group_commit_10ms'', ''f4kvs_gc10'',
         ''WAL Fsync + group_commit 10ms window (async ack, durable within 10ms)'', Some gc10Opts),
      (''f4kvs_group_commit_idle'', ''f4kvs_gc_idle'',
         ''Amortized WAL '' @ dash_sign @ '' 50ms max wait + 100ms idle flush (wal_durability=1)'',
         Some (zero_options\<lparr>WalDurabilityOpt := WalDurabilityAmortized, GroupCommitMaxWaitMs := 50,
                             GroupCommitIdleFlushMs := 100\<rparr>))]"

definition full_profile :: sqliteProfile where
  "full_profile =
     \<lparr>sp_Name = ''sqlite_wal_full'', sp_DSN = sqliteDSN ''WAL'' ''FULL'',
      sp_Durability = ''WAL + synchronous=FULL, per-commit put'', sp_PerCommit = True,
      sp_Extra = ''durability-matched''\<rparr>"

definition normal_profile :: sqliteProfile where
  "normal_profile =
     \<lparr>sp_Name = ''sqlite_wal_normal'', sp_DSN = sqliteDSN ''WAL'' ''NORMAL'',
      sp_Durability = ''WAL + synchronous=NORMAL, batched tx'', sp_PerCommit = False,
      sp_Extra = ''reference (relaxed)''\<rparr>"

definition sqlite_profiles :: "profile_set \<Rightarrow> sqliteProfile list" where
  "sqlite_profiles want =
     (if wantProfile want ''sqlite_wal_full'' then [full_profile] else []) @
     (if wantProfile want ''sqlite_wal_normal'' then [normal_profile] else [])"

definition f4kvs_restarts :: "(bytes \<times> bytes \<times> OpenOptions option) list" where
  "f4kvs_restarts =
     [(''f4kvs_wal_segment'', ''restart_f4kvs_segment'', None),
      (''f4kvs_group_commit_1ms'', ''restart_f4kvs_gc1'', Some gc1Opts),
      (''f4kvs_group_commit_10ms'', ''restart_f4kvs_gc10'', Some gc10Opts)]"

definition sqlite_restarts :: "(bytes \<times> sqliteProfile) list" where
  "sqlite_restarts = [(''restart_sqlite_full.db'', full_profile), (''restart_sqlite_normal.db'', normal_profile)]"

section \<open>Running the profiles\<close>

text \<open>Runs one after the other, each appending its rows.\<close>

fun run_all :: "('s \<Rightarrow> ('a list, 's) run) list \<Rightarrow> 's \<Rightarrow> ('a list, 's) run" where
  "run_all [] s = Some (Done [], s)"
| "run_all (f # fs) s = and_then (f s) (\<lambda>rows s. and_then (run_all fs s) (\<lambda>rest s. Some (Done (rows @ rest), s)))"

definition skip_per_commit :: "bench_flags \<Rightarrow> bool" where
  "skip_per_commit F \<longleftrightarrow> f_maxPerCommitChunks F > 0 \<and> f_chunks F > f_maxPerCommitChunks F"

definition all_runs ::
  "('x, 'c, 'd, 'f :: linordered_field) harness \<Rightarrow> bench_flags \<Rightarrow> bytes \<Rightarrow> profile_set \<Rightarrow> bytes \<Rightarrow> bytes \<Rightarrow>
   (('x, 'c, 'd) app \<Rightarrow> ('f phaseResult list, ('x, 'c, 'd) app) run) list" where
  "all_runs H F tmp want payload chunkPayload =
     (let B = h_bench H; Q = h_sql H; dur = b_dur B; skip = skip_per_commit F;
          mk = memoir_keys (nat (f_memoirs F)); ck = chunk_keys (nat (f_chunks F)) in
      map (\<lambda>(name, dir, durability, opts). on_world
            (benchF4KVS B (sub_dir tmp dir) name durability opts mk ck payload chunkPayload (f_randomGets F) skip))
        (filter (\<lambda>(name, _). wantProfile want name) f4kvs_runs) @
      map (\<lambda>(i, prof). on_sql
            (benchSQLite Q dur (sub_dir tmp (''sqlite_'' @ show_nat i @ ''.db''))
              (if skip then prof\<lparr>sp_PerCommit := False\<rparr> else prof) mk ck payload chunkPayload (f_randomGets F)))
        (enumerate 0 (sqlite_profiles want)) @
      map (\<lambda>(name, dir, opts). on_world
            (benchF4KVSPostRestart B (sub_dir tmp dir) name opts mk ck payload chunkPayload))
        (filter (\<lambda>(name, _). wantProfile want name) f4kvs_restarts) @
      map (\<lambda>(file, prof). on_sql (benchSQLitePostRestart Q dur (sub_dir tmp file) prof mk ck payload chunkPayload))
        (filter (\<lambda>(_, prof). wantProfile want (sp_Name prof)) sqlite_restarts))"

section \<open>Reporting\<close>

definition writeJSON ::
  "('x, 'c, 'd, 'f :: zero) harness \<Rightarrow> bytes \<Rightarrow> 'f report \<Rightarrow> ('x, 'c, 'd) app \<Rightarrow> (unit, ('x, 'c, 'd) app) run" where
  "writeJSON H file rep s =
     (case json_of_report (h_num H) rep of
        None \<Rightarrow> Some (Fatal json_err, s)
      | Some v \<Rightarrow>
          (case os_WriteFile (h_calls H) (abs_path (h_cwd H) file) (MarshalIndent v) (a_os s) of
             (Some err, s1) \<Rightarrow> Some (Fatal err, s\<lparr>a_os := s1\<rparr>)
           | (None, s1) \<Rightarrow> Some (Done (), s\<lparr>a_os := s1, a_out := a_out s @ [[], ''Wrote '' @ file]\<rparr>)))"

definition run_manifest :: "('x, 'c, 'd, 'f) harness \<Rightarrow> bench_flags \<Rightarrow> tree \<Rightarrow> RunManifest" where
  "run_manifest H F t =
     (let M = (h_machine H)\<lparr>m_tree := t\<rparr>;
          repoRoot = FindRepoRoot (fileExists M) (dirExists M) (h_cwd H) in
      \<lparr>rm_SchemaVersion = [], rm_RunID = [], rm_FlowID = [],
       rm_Tier = (if f_tier F = [] then DeriveTier (f_chunks F) else f_tier F), rm_Seed = f_seed F,
       rm_StartedAt = [], rm_FinishedAt = [], rm_Git = CollectGitInfo M repoRoot, rm_Host = CollectHostInfo M,
       rm_Scale = \<lparr>si_Memoirs = f_memoirs F, si_Chunks = f_chunks F, si_MemoirBytes = f_memoirBytes F,
                   si_ChunkBytes = f_chunkBytes F, si_RandomGets = f_randomGets F\<rparr>,
       rm_Engines = None,
       rm_Harness = \<lparr>ha_Path = harnessPath,
         ha_Command = FormatHarnessCommand (f_memoirs F) (f_chunks F) (f_memoirBytes F) (f_chunkBytes F)
           (f_randomGets F) (f_seed F) (f_includeRelaxed F) (f_profiles F)\<rparr>,
       rm_Notes = []\<rparr>)"

definition run_id :: "('x, 'c, 'd, 'f) harness \<Rightarrow> bench_flags \<Rightarrow> bytes" where
  "run_id H F = (if f_runID F = [] then NewRunID (h_now H) else f_runID F)"

definition open_writer ::
  "('x, 'c, 'd, 'f) harness \<Rightarrow> bench_flags \<Rightarrow> ('x, 'c, 'd) app \<Rightarrow> ('f RunWriter option, ('x, 'c, 'd) app) run" where
  "open_writer H F s =
     (if f_runsRoot F = [] then Some (Done None, s)
      else case NewRunWriter (h_calls H) (h_cwd H) (h_started H) (f_runsRoot F) (run_id H F)
                  (run_manifest H F (os_tree (a_os s))) (a_os s) of
        (Inl err, s1) \<Rightarrow> Some (Fatal err, s\<lparr>a_os := s1\<rparr>)
      | (Inr w, s1) \<Rightarrow> Some (Done (Some w), s\<lparr>a_os := s1\<rparr>))"

definition main_report :: "('x, 'c, 'd, 'f) harness \<Rightarrow> bench_flags \<Rightarrow> 'f phaseResult list \<Rightarrow> 'f report" where
  "main_report H F rows =
     \<lparr>rep_Host = m_GOOS (h_machine H) @ ''/'' @ m_GOARCH (h_machine H), rep_Memoirs = f_memoirs F,
      rep_Chunks = f_chunks F, rep_MemoirB = f_memoirBytes F, rep_ChunkB = f_chunkBytes F,
      rep_RandomGet = f_randomGets F,
      rep_FairCompare = ''f4kvs_wal_segment vs f4kvs_wal_frame vs sqlite_wal_full (per-commit puts)'',
      rep_BatchedCompare = ''f4kvs_wal_segment vs sqlite_wal_full (chunk_batch_put_batched)'',
      rep_Results = rows\<rparr>"

text \<open>From the rows on: the table, the flat report, the run directory and the verdict, which is \<^const>\<open>True\<close> for a failure.\<close>

definition verdict ::
  "('x, 'c, 'd, 'f :: linordered_field) harness \<Rightarrow> 'f RunWriter option \<Rightarrow> 'f report \<Rightarrow> 'f phaseResult list \<Rightarrow>
   ('x, 'c, 'd) app \<Rightarrow> (bool, ('x, 'c, 'd) app) run" where
  "verdict H writer rep rows s =
     (case writer of
        None \<Rightarrow> Some (Done (hasIntegrityFail rows), s)
      | Some w \<Rightarrow>
          (let w = AppendPhaseResults rows w in
           case Finalize (h_calls H) (h_num H) (h_finished H) (Some rep) (UniqueEngines rows) w (a_os s) of
             (Inl err, w1, s1) \<Rightarrow> Some (Fatal err, s\<lparr>a_os := s1\<rparr>)
           | (Inr dir, w1, s1) \<Rightarrow> Some (Done (HasIntegrityFailure w1), s\<lparr>a_os := s1\<rparr>)))"

definition conclude ::
  "('x, 'c, 'd, 'f :: linordered_field) harness \<Rightarrow> bench_flags \<Rightarrow> 'f RunWriter option \<Rightarrow> 'f phaseResult list \<Rightarrow>
   ('x, 'c, 'd) app \<Rightarrow> (bool, ('x, 'c, 'd) app) run" where
  "conclude H F writer rows s =
     (if rows = [] then Some (Fatal (Errorf ''no profiles selected (profiles=%q)'' [f_profiles F]), s)
      else
        let rep = main_report H F rows;
            s = s\<lparr>a_out := a_out s @ printTable (h_verbs H) (b_rng (h_bench H)) (h_sort H) rows\<rparr> in
        and_then (if f_out F = [] then Some (Done (), s) else writeJSON H (f_out F) rep s) (\<lambda>_ s.
        verdict H writer rep rows s))"

section \<open>The program\<close>

definition wanted :: "bench_flags \<Rightarrow> go_error + profile_set" where
  "wanted F =
     (case parseProfiles (f_profiles F) of
        Inl err \<Rightarrow> Inl err
      | Inr want \<Rightarrow>
          Inr (if ''all'' \<in> set want
               then filter (\<lambda>p. f_includeRelaxed F \<or> p \<noteq> ''sqlite_wal_normal'') knownProfiles
               else want))"

text \<open>
  The deferred removal of the temporary directory runs when \<^verbatim>\<open>main\<close> returns or panics, not in \<^verbatim>\<open>os.Exit\<close>.
\<close>

definition remove_tmp :: "('x, 'c, 'd, 'f) harness \<Rightarrow> bytes \<Rightarrow> ('x, 'c, 'd) app \<Rightarrow> ('x, 'c, 'd) app" where
  "remove_tmp H tmp s =
     s\<lparr>a_world := (a_world s)\<lparr>lsm := b_wipe (h_bench H) tmp (lsm (a_world s))\<rparr>,
       a_sql := q_removeAll (h_sql H) tmp (a_sql s)\<rparr>"

definition main_body ::
  "('x, 'c, 'd, 'f :: linordered_field) harness \<Rightarrow> bench_flags \<Rightarrow> profile_set \<Rightarrow> bytes \<Rightarrow> bytes \<Rightarrow> bytes \<Rightarrow>
   ('x, 'c, 'd) app \<Rightarrow> (bool, ('x, 'c, 'd) app) run" where
  "main_body H F want payload chunkPayload tmp s =
     and_then (open_writer H F s) (\<lambda>writer s.
     and_then (run_all (all_runs H F tmp want payload chunkPayload) s) (\<lambda>rows s.
     conclude H F writer rows s))"

text \<open>
  What \<^verbatim>\<open>main\<close> allocates before it does anything else: the two payloads, then the two lists of keys, whose
  elements are strings of 16 bytes. \<^const>\<open>None\<close> is the panic of \<^verbatim>\<open>make\<close>.
\<close>

definition main_payloads :: "('x, 'c, 'd, 'f) harness \<Rightarrow> bench_flags \<Rightarrow> (bytes \<times> bytes) option" where
  "main_payloads H F =
     do {
       payload \<leftarrow> samplePayloadSeeded (h_maxAlloc H) (h_rand_memoir H) (f_memoirBytes F) (f_seed F);
       chunkPayload \<leftarrow> samplePayloadSeeded (h_maxAlloc H) (h_rand_chunk H) (f_chunkBytes F) (f_seed F + 1);
       if makeslice_ok (h_maxAlloc H) 16 (f_memoirs F) \<and> makeslice_ok (h_maxAlloc H) 16 (f_chunks F)
       then Some (payload, chunkPayload) else None
     }"

text \<open>The harness with the slice size that the flags select.\<close>

definition sized :: "('x, 'c, 'd, 'f) harness \<Rightarrow> bench_flags \<Rightarrow> ('x, 'c, 'd, 'f) harness" where
  "sized H F = H\<lparr>h_bench := (h_bench H)\<lparr>b_size := (if f_fair F then 0 else f_batchPutSize F)\<rparr>\<rparr>"

definition bench_main ::
  "('x, 'c, 'd, 'f :: linordered_field) harness \<Rightarrow> bench_flags \<Rightarrow> ('x, 'c, 'd) app \<Rightarrow> (status \<times> ('x, 'c, 'd) app) option" where
  "bench_main H F s =
     (let H = sized H F in
      case wanted F of
        Inl err \<Rightarrow> Some (Exit_fatal err, s)
      | Inr want \<Rightarrow>
          case main_payloads H F of
            None \<Rightarrow> Some (Exit_panic makeslice_panic, s)
          | Some (payload, chunkPayload) \<Rightarrow>
          case h_tmp H of
            Inl err \<Rightarrow> Some (Exit_fatal err, s)
          | Inr tmp \<Rightarrow> do {
              (out, s1) \<leftarrow> main_body H F want payload chunkPayload tmp s;
              Some (case out of
                  Done failed \<Rightarrow> if failed then (Exit_integrity, s1) else (Exit_ok, remove_tmp H tmp s1)
                | Fatal err \<Rightarrow> (Exit_fatal err, s1)
                | Panic msg \<Rightarrow> (Exit_panic msg, remove_tmp H tmp s1))
            })"

section \<open>The program ends\<close>

text \<open>What a run of a profile leaves of the state around it.\<close>

definition app_keeps :: "('x, 'c, 'd) app \<Rightarrow> ('x, 'c, 'd) app \<Rightarrow> bool" where
  "app_keeps s s' \<longleftrightarrow> a_os s' = a_os s \<and> a_out s' = a_out s"

definition app_clean :: "('x, 'c, 'd) app \<Rightarrow> ('x, 'c, 'd) app \<Rightarrow> bool" where
  "app_clean s s' \<longleftrightarrow> heap (a_world s') = heap (a_world s) \<and> reg_inv (a_world s')"

definition app_run :: "bool \<Rightarrow> ('x, 'c, 'd) app \<Rightarrow> ('a, ('x, 'c, 'd) app) run \<Rightarrow> bool" where
  "app_run P s r \<longleftrightarrow> (\<exists>out s'. r = Some (out, s') \<and> ends P (\<lambda>_. True) (app_clean s s') out)"

lemma app_clean_trans: "app_clean s s1 \<Longrightarrow> app_clean s1 s2 \<Longrightarrow> app_clean s s2"
  by (simp add: app_clean_def)

lemma app_run_weak: "app_run False s r \<Longrightarrow> app_run P s r"
  by (auto simp: app_run_def elim!: ends_mono)

lemma app_world:
  assumes "safe_world P Q (a_world s) (f (a_world s))"
  shows "app_run P s (on_world f s)"
  using assms by (auto simp: app_run_def safe_world_def on_world_def app_clean_def elim!: ends_mono)

lemma app_sql:
  assumes "reg_inv (a_world s)" "sql_ends P Q (f (a_sql s))"
  shows "app_run P s (on_sql f s)"
  using assms by (auto simp: app_run_def sql_ends_def on_sql_def app_clean_def elim!: ends_mono)

interpretation clean: frame app_clean
  by unfold_locales (rule app_clean_trans)

lemma app_run_ends: "app_run P s r \<longleftrightarrow> run_ends app_clean P (\<lambda>_. True) s r"
  by (simp add: app_run_def run_ends_def)

lemma app_and_then:
  assumes "app_run P s r" "\<And>a s1. app_clean s s1 \<Longrightarrow> app_run P s1 (k a s1)"
  shows "app_run P s (and_then r k)"
  using assms unfolding app_run_ends by (blast intro: clean.run_and_then)

lemma run_all_runs:
  assumes "\<And>f s. f \<in> set fs \<Longrightarrow> reg_inv (a_world s) \<Longrightarrow> app_run P s (f s)" "reg_inv (a_world s)"
  shows "app_run P s (run_all fs s)"
  using assms
proof (induction fs arbitrary: s)
  case (Cons f fs)
  show ?case unfolding run_all.simps
  proof (intro app_and_then)
    show "app_run P s (f s)" using Cons.prems by simp
    show "app_run P s1 (run_all fs s1)" if "app_clean s s1" for s1
      using Cons that by (simp add: app_clean_def)
  qed (simp add: app_run_def app_clean_def)
qed (simp add: app_run_def app_clean_def)

lemma run_all_keeps:
  assumes "\<And>f s out s'. f \<in> set fs \<Longrightarrow> f s = Some (out, s') \<Longrightarrow> app_keeps s s'" "run_all fs s = Some (out, s')"
  shows "app_keeps s s'"
  using assms
proof (induction fs arbitrary: s out)
  case (Cons f fs)
  from Cons.prems(2) obtain out1 s1 where 1: "f s = Some (out1, s1)" by (auto simp: and_then_def split: option.splits)
  with Cons.prems(1) have k: "app_keeps s s1" by auto
  show ?case
  proof (cases out1)
    case (Done rows)
    with Cons.prems(2) 1 obtain out2 where "run_all fs s1 = Some (out2, s')"
      by (auto simp: and_then_def split: option.splits outcome.splits)
    from Cons.IH [OF Cons.prems(1) [OF list.set_intros(2)] this] have "app_keeps s1 s'" .
    with k show ?thesis by (simp add: app_keeps_def)
  qed (use Cons.prems(2) 1 k in \<open>auto simp: and_then_def\<close>)
qed (simp add: app_keeps_def)

lemma all_runs_keeps:
  assumes "f \<in> set (all_runs H F tmp want p cp)" "f s = Some (out, s')"
  shows "app_keeps s s'"
proof -
  have "app_keeps s s'" if "on_world h s = Some (out, s')" for h
    using that by (auto simp: on_world_def app_keeps_def split: Option.bind_splits)
  moreover have "app_keeps s s'" if "on_sql h s = Some (out, s')" for h
    using that by (auto simp: on_sql_def app_keeps_def split: Option.bind_splits)
  ultimately show ?thesis using assms by (auto simp: all_runs_def Let_def)
qed

definition bad_gets :: "bench_flags \<Rightarrow> bool" where
  "bad_gets F \<longleftrightarrow> 0 < f_randomGets F \<and> (f_memoirs F = 0 \<or> f_chunks F = 0)"

lemma keys_empty: "memoir_keys m = [] \<longleftrightarrow> m = 0" "chunk_keys n = [] \<longleftrightarrow> n = 0"
  using keys_length(1) [of m] keys_length(2) [of n] by (metis length_0_conv)+

lemma good_run_dirs:
  assumes "good_dir tmp"
  shows "(name, dir, dl, op) \<in> set f4kvs_runs \<Longrightarrow> good_dir (sub_dir tmp dir)"
    "(name, dir, op) \<in> set f4kvs_restarts \<Longrightarrow> good_dir (sub_dir tmp dir)"
  using assms by (auto simp: f4kvs_runs_def f4kvs_restarts_def intro!: good_sub_dir)

lemma all_runs_safe:
  assumes "bench_ok (h_bench H)" "good_dir tmp" "0 \<le> f_memoirs F" "0 \<le> f_chunks F"
    and "f \<in> set (all_runs H F tmp want p cp)" "reg_inv (a_world s)"
  shows "app_run (bad_gets F) s (f s)"
proof -
  let ?B = "h_bench H" and ?mk = "memoir_keys (nat (f_memoirs F))" and ?ck = "chunk_keys (nat (f_chunks F))"
  have P: "0 < f_randomGets F \<and> (?mk = [] \<or> ?ck = []) \<longleftrightarrow> bad_gets F"
    using assms(3,4) by (auto simp: bad_gets_def keys_empty)
  have 1: "app_run (bad_gets F) s (on_world (benchF4KVS ?B (sub_dir tmp dir) name dl op ?mk ?ck p cp (f_randomGets F) skip) s)"
    if "(name, dir, dl, op) \<in> set f4kvs_runs" for name dir dl op skip
    unfolding P [symmetric] by (rule app_world, rule benchF4KVS_safe [OF assms(1,6) good_run_dirs(1) [OF assms(2) that]])
  have 2: "app_run (bad_gets F) s (on_sql (benchSQLite Q dur path prof ?mk ?ck p cp (f_randomGets F)) s)" for Q dur path prof
    unfolding P [symmetric] by (rule app_sql [OF assms(6)], rule benchSQLite_ends)
  have 3: "app_run (bad_gets F) s (on_world (benchF4KVSPostRestart ?B (sub_dir tmp dir) name op ?mk ?ck p cp) s)"
    if "(name, dir, op) \<in> set f4kvs_restarts" for name dir op
    by (rule app_run_weak, rule app_world, rule PostRestart_safe [OF assms(1,6) good_run_dirs(2) [OF assms(2) that]])
  have 4: "app_run (bad_gets F) s (on_sql (benchSQLitePostRestart Q dur path prof ?mk ?ck p cp) s)" for Q dur path prof
    by (rule app_run_weak, rule app_sql [OF assms(6)], rule sqlite_restart_ends)
  from assms(5) show ?thesis unfolding all_runs_def Let_def set_append set_map set_filter
    using 1 2 3 4 by auto
qed

lemma open_writer_run:
  "reg_inv (a_world s) \<Longrightarrow> app_run P s (open_writer H F s)"
  by (auto simp: open_writer_def app_run_def app_clean_def split: prod.splits sum.splits)

lemma writeJSON_run: "reg_inv (a_world s) \<Longrightarrow> app_run P s (writeJSON H out rep s)"
  by (auto simp: writeJSON_def app_run_def app_clean_def split: option.splits prod.splits)

lemma verdict_run: "reg_inv (a_world s) \<Longrightarrow> app_run P s (verdict H writer rep rows s)"
  by (auto simp: verdict_def Let_def app_run_def app_clean_def split: option.splits prod.splits sum.splits)

lemma conclude_run:
  assumes "reg_inv (a_world s)"
  shows "app_run P s (conclude H F writer rows s)"
proof (cases "rows = []")
  case False
  let ?s = "s\<lparr>a_out := a_out s @ printTable (h_verbs H) (b_rng (h_bench H)) (h_sort H) rows\<rparr>"
  have "app_run P ?s (if f_out F = [] then Some (Done (), ?s) else writeJSON H (f_out F) (main_report H F rows) ?s)"
    using assms writeJSON_run [of ?s] by (auto simp: app_run_def app_clean_def)
  then have "app_run P ?s (conclude H F writer rows s)"
    unfolding conclude_def Let_def if_not_P [OF False]
    by (rule app_and_then) (simp add: verdict_run app_clean_def)
  then show ?thesis by (simp add: app_run_def app_clean_def)
qed (simp add: conclude_def app_run_def)

lemma main_body_run:
  assumes "bench_ok (h_bench H)" "good_dir tmp" "0 \<le> f_memoirs F" "0 \<le> f_chunks F" "reg_inv (a_world s)"
  shows "app_run (bad_gets F) s (main_body H F want p cp tmp s)"
  unfolding main_body_def
proof (intro app_and_then)
  show "app_run (bad_gets F) s (open_writer H F s)" by (rule open_writer_run [OF assms(5)])
  show "app_run (bad_gets F) s1 (run_all (all_runs H F tmp want p cp) s1)" if "app_clean s s1" for s1
    using that by (intro run_all_runs) (auto simp: app_clean_def intro: all_runs_safe [OF assms(1-4)])
  show "app_run (bad_gets F) s2 (conclude H F writer rows s2)" if "app_clean s1 s2" for s1 s2 writer rows
    by (rule conclude_run) (use that in \<open>simp add: app_clean_def\<close>)
qed

lemma sized_simps [simp]:
  "bench_ok (h_bench (sized H F)) \<longleftrightarrow> bench_ok (h_bench H)" "h_tmp (sized H F) = h_tmp H"
  "h_calls (sized H F) = h_calls H" "h_num (sized H F) = h_num H" "h_finished (sized H F) = h_finished H"
  "h_cwd (sized H F) = h_cwd H" "h_started (sized H F) = h_started H" "h_verbs (sized H F) = h_verbs H"
  "h_sort (sized H F) = h_sort H" "b_rng (h_bench (sized H F)) = b_rng (h_bench H)"
  "run_id (sized H F) F = run_id H F" "main_report (sized H F) F rows = main_report H F rows"
  "run_manifest (sized H F) F t = run_manifest H F t" "main_payloads (sized H F) F = main_payloads H F"
  by (simp_all add: sized_def bench_ok_def run_id_def main_report_def run_manifest_def main_payloads_def)

text \<open>When the first allocations fail.\<close>

definition too_large :: "nat \<Rightarrow> bench_flags \<Rightarrow> bool" where
  "too_large maxAlloc F \<longleftrightarrow>
     int maxAlloc < f_memoirBytes F \<or> int maxAlloc < f_chunkBytes F \<or>
     f_memoirs F < 0 \<or> f_chunks F < 0 \<or> int maxAlloc < 16 * f_memoirs F \<or> int maxAlloc < 16 * f_chunks F"

lemma main_payloads_panics: "main_payloads H F = None \<longleftrightarrow> too_large (h_maxAlloc H) F"
proof -
  have "makeslice_ok A 16 n \<longleftrightarrow> 0 \<le> n \<and> 16 * n \<le> int A" for A n
    by (auto simp: makeslice_ok_def)
  then show ?thesis
    by (auto simp: main_payloads_def too_large_def payload_panics split: Option.bind_splits)
      (metis not_None_eq payload_panics not_less)+
qed

lemma bench_main_ends:
  assumes "bench_ok (h_bench H)" "reg_inv (a_world s)" "\<forall>tmp. h_tmp H = Inr tmp \<longrightarrow> good_dir tmp"
  shows "\<exists>st s'. bench_main H F s = Some (st, s') \<and>
    (st = Exit_ok \<or> st = Exit_integrity \<longrightarrow> heap (a_world s') = heap (a_world s)) \<and>
    (\<forall>msg. st = Exit_panic msg \<longrightarrow> too_large (h_maxAlloc H) F \<or> bad_gets F) \<and>
    (\<not> isl (wanted F) \<and> too_large (h_maxAlloc H) F \<longrightarrow> st = Exit_panic makeslice_panic \<and> s' = s)"
proof (cases "wanted F")
  case (Inr want)
  show ?thesis
  proof (cases "too_large (h_maxAlloc H) F")
    case False
    then obtain p cp where pc: "main_payloads H F = Some (p, cp)" using main_payloads_panics [of H F] by auto
    show ?thesis
    proof (cases "h_tmp H")
      case Inr2: (Inr tmp)
      have "bench_ok (h_bench (sized H F))" "good_dir tmp" "0 \<le> f_memoirs F" "0 \<le> f_chunks F"
        using assms False Inr2 by (simp_all add: too_large_def)
      from main_body_run [OF this assms(2), of want p cp] obtain out s1 where
        m: "main_body (sized H F) F want p cp tmp s = Some (out, s1)" "ends (bad_gets F) (\<lambda>_. True) (app_clean s s1) out"
        by (auto simp: app_run_def)
      have "bench_main H F s =
          Some (case out of
              Done failed \<Rightarrow> if failed then (Exit_integrity, s1) else (Exit_ok, remove_tmp (sized H F) tmp s1)
            | Fatal err \<Rightarrow> (Exit_fatal err, s1)
            | Panic msg \<Rightarrow> (Exit_panic msg, remove_tmp (sized H F) tmp s1))"
        using m(1) Inr Inr2 pc by (simp add: bench_main_def Let_def)
      with m(2) False show ?thesis by (cases out) (auto simp: app_clean_def remove_tmp_def)
    qed (use Inr pc False in \<open>simp add: bench_main_def Let_def\<close>)
  qed (use Inr main_payloads_panics [of H F] in \<open>simp add: bench_main_def Let_def\<close>)
qed (simp add: bench_main_def)

section \<open>What the exit status says\<close>

abbreviation final_dir :: "('x, 'c, 'd, 'f) harness \<Rightarrow> bench_flags \<Rightarrow> path" where
  "final_dir H F \<equiv> run_id H F # abs_path (h_cwd H) (f_runsRoot F)"

abbreviation staging_dir :: "('x, 'c, 'd, 'f) harness \<Rightarrow> bench_flags \<Rightarrow> path" where
  "staging_dir H F \<equiv> (run_id H F @ ''.partial'') # abs_path (h_cwd H) (f_runsRoot F)"

lemma writeJSON_done:
  assumes "writeJSON H out rep s = Some (Done u, s')"
  shows "a_out s' = a_out s @ [[], ''Wrote '' @ out]"
    "\<exists>v. json_of_report (h_num H) rep = Some v \<and>
       os_tree (a_os s') = (os_tree (a_os s))(abs_path (h_cwd H) out \<mapsto> File (MarshalIndent v))"
  using assms by (auto simp: writeJSON_def split: option.splits prod.splits dest: files_ok(1))

lemma subtree_upd_outside: "\<not> suffix d q \<Longrightarrow> subtree d (t(q := x)) = subtree d t"
  by (auto simp: subtree_def fun_eq_iff suffix_def)

text \<open>The parts of a \<^verbatim>\<open>main\<close> that returns a verdict.\<close>

lemma and_then_Done:
  "and_then r k = Some (Done b, s') \<longleftrightarrow> (\<exists>a s1. r = Some (Done a, s1) \<and> k a s1 = Some (Done b, s'))"
  by (auto simp: and_then_def split: option.splits outcome.splits)

lemma main_body_done:
  assumes "main_body H F want p cp tmp s = Some (Done failed, s')"
  obtains writer s1 rows s2 s3 where
    "open_writer H F s = Some (Done writer, s1)"
    "run_all (all_runs H F tmp want p cp) s1 = Some (Done rows, s2)" "rows \<noteq> []"
    "(if f_out F = [] then Some (Done (), s2\<lparr>a_out := a_out s2 @ printTable (h_verbs H) (b_rng (h_bench H)) (h_sort H) rows\<rparr>)
      else writeJSON H (f_out F) (main_report H F rows)
        (s2\<lparr>a_out := a_out s2 @ printTable (h_verbs H) (b_rng (h_bench H)) (h_sort H) rows\<rparr>)) = Some (Done (), s3)"
    "verdict H writer (main_report H F rows) rows s3 = Some (Done failed, s')"
  using assms that by (auto simp: main_body_def Let_def conclude_def and_then_Done split: if_splits)

lemma open_writer_done:
  assumes "open_writer H F s = Some (Done writer, s1)" "plain_name (run_id H F)"
  shows "a_out s1 = a_out s" "f_runsRoot F = [] \<Longrightarrow> writer = None"
    "f_runsRoot F \<noteq> [] \<Longrightarrow> \<exists>w. writer = Some w \<and> rw_RunID w = run_id H F \<and> rw_PartialDir w = staging_dir H F \<and>
       rw_FinalDir w = final_dir H F \<and> rw_lines w = [] \<and> subtree (staging_dir H F) (os_tree (a_os s1)) = [[] \<mapsto> Dir]"
proof -
  show "a_out s1 = a_out s" "f_runsRoot F = [] \<Longrightarrow> writer = None"
    using assms(1) by (auto simp: open_writer_def split: if_splits prod.splits sum.splits)
  assume "f_runsRoot F \<noteq> []"
  with assms(1) obtain w where "writer = Some w"
    "NewRunWriter (h_calls H) (h_cwd H) (h_started H) (f_runsRoot F) (run_id H F) (run_manifest H F (os_tree (a_os s))) (a_os s) =
       (Inr w, a_os s1)"
    by (auto simp: open_writer_def split: prod.splits sum.splits)
  with NewRunWriter_spec [OF this(2) assms(2)] show "\<exists>w. writer = Some w \<and> rw_RunID w = run_id H F \<and>
       rw_PartialDir w = staging_dir H F \<and> rw_FinalDir w = final_dir H F \<and> rw_lines w = [] \<and>
       subtree (staging_dir H F) (os_tree (a_os s1)) = [[] \<mapsto> Dir]" by auto
qed

text \<open>The run directory holds the rows, and the verdict is about the same rows.\<close>

lemma verdict_published:
  assumes "verdict H (Some w) rep rows s = Some (Done failed, s')" "rw_lines w = []"
    and "rw_PartialDir w = a # base" "rw_FinalDir w = b # base" "a \<noteq> b" "subtree (a # base) (os_tree (a_os s)) = [[] \<mapsto> Dir]"
  shows "a_out s' = a_out s" "failed \<longleftrightarrow> hasIntegrityFail rows"
    "subtree (b # base) (os_tree (a_os s')) =
       run_files (h_num H) (Some rep) (final_manifest (h_finished H) (UniqueEngines rows) (AppendPhaseResults rows w))
         (concat (map (phaseResultToLong (rw_RunID w)) rows))"
proof -
  let ?w = "AppendPhaseResults rows w"
  from assms(1) obtain dir w1 s1 where
    f: "Finalize (h_calls H) (h_num H) (h_finished H) (Some rep) (UniqueEngines rows) ?w (a_os s) = (Inr dir, w1, s1)"
      "failed = HasIntegrityFailure w1" "s' = s\<lparr>a_os := s1\<rparr>"
    by (auto simp: verdict_def Let_def split: prod.splits sum.splits)
  show "a_out s' = a_out s" using f(3) by simp
  have "HasIntegrityFailure w1 = HasIntegrityFailure ?w"
    using Finalize_lines [OF f(1)] by (simp add: HasIntegrityFailure_def)
  then show "failed \<longleftrightarrow> hasIntegrityFail rows"
    using f(2) assms(2) integrity_export [of rows w] by (simp add: HasIntegrityFailure_def)
  have "rw_PartialDir ?w = a # base" "rw_FinalDir ?w = b # base" using assms(3,4) by simp_all
  from Finalize_whole(2) [OF f(1) this assms(5,6) refl] f(3) assms(2)
  show "subtree (b # base) (os_tree (a_os s')) =
       run_files (h_num H) (Some rep) (final_manifest (h_finished H) (UniqueEngines rows) ?w)
         (concat (map (phaseResultToLong (rw_RunID w)) rows))"
    by (auto simp: AppendPhaseResults_lines)
qed

lemma bench_main_verdict:
  assumes "bench_main H F s = Some (st, s')" "st = Exit_ok \<or> st = Exit_integrity" "plain_name (run_id H F)"
    and "f_out F = [] \<or> \<not> suffix (staging_dir H F) (abs_path (h_cwd H) (f_out F))"
  shows "\<exists>tmp want p cp s1 s2 rows man.
    run_all (all_runs (sized H F) F tmp want p cp) s1 = Some (Done rows, s2) \<and> wanted F = Inr want \<and> rows \<noteq> [] \<and>
    (st = Exit_integrity \<longleftrightarrow> hasIntegrityFail rows) \<and>
    a_out s' = a_out s @ printTable (h_verbs H) (b_rng (h_bench H)) (h_sort H) rows @
      (if f_out F = [] then [] else [[], ''Wrote '' @ f_out F]) \<and>
    (f_runsRoot F \<noteq> [] \<longrightarrow>
       subtree (final_dir H F) (os_tree (a_os s')) =
         run_files (h_num H) (Some (main_report H F rows)) man (concat (map (phaseResultToLong (run_id H F)) rows)))"
proof -
  let ?H = "sized H F"
  from assms(1,2) obtain want p cp tmp failed s0 where
    m: "wanted F = Inr want" "main_body ?H F want p cp tmp s = Some (Done failed, s0)" "failed \<longleftrightarrow> st = Exit_integrity"
      "a_out s' = a_out s0" "a_os s' = a_os s0"
    by (auto simp: bench_main_def Let_def remove_tmp_def split: sum.splits if_splits option.splits prod.splits
        Option.bind_splits outcome.splits)
  obtain writer s1 rows s2 s3 where
    r: "open_writer ?H F s = Some (Done writer, s1)" "run_all (all_runs ?H F tmp want p cp) s1 = Some (Done rows, s2)"
      "rows \<noteq> []"
    and j: "(if f_out F = [] then Some (Done (), s2\<lparr>a_out := a_out s2 @ printTable (h_verbs H) (b_rng (h_bench H)) (h_sort H) rows\<rparr>)
      else writeJSON ?H (f_out F) (main_report H F rows)
        (s2\<lparr>a_out := a_out s2 @ printTable (h_verbs H) (b_rng (h_bench H)) (h_sort H) rows\<rparr>)) = Some (Done (), s3)"
    and v: "verdict ?H writer (main_report H F rows) rows s3 = Some (Done failed, s0)"
    by (rule main_body_done [OF m(2), unfolded sized_simps])
  note w = open_writer_done [OF r(1), unfolded sized_simps, OF assms(3)]
  have "app_keeps s1 s2" using r(2) by (rule run_all_keeps [rotated]) (rule all_runs_keeps)
  then have k: "a_os s2 = a_os s1" "a_out s2 = a_out s1" by (simp_all add: app_keeps_def)
  have s3: "a_out s3 = a_out s @ printTable (h_verbs H) (b_rng (h_bench H)) (h_sort H) rows @
      (if f_out F = [] then [] else [[], ''Wrote '' @ f_out F])"
    using j k(2) w(1) by (auto split: if_splits dest: writeJSON_done(1))
  have st3: "subtree (staging_dir H F) (os_tree (a_os s3)) = subtree (staging_dir H F) (os_tree (a_os s1))"
    using j k(1) assms(4) by (auto split: if_splits dest!: writeJSON_done(2) simp: subtree_upd_outside)
  show ?thesis
  proof (cases "f_runsRoot F = []")
    case True
    with v w(2) have "failed = hasIntegrityFail rows" "s0 = s3" by (simp_all add: verdict_def)
    with m s3 have "(st = Exit_integrity) = hasIntegrityFail rows" "a_out s' = a_out s3" by simp_all
    with True r(2,3) m(1) s3 show ?thesis by metis
  next
    case False
    from w(3) [OF False] obtain wr where wr: "writer = Some wr" "rw_RunID wr = run_id H F"
      "rw_PartialDir wr = staging_dir H F" "rw_FinalDir wr = final_dir H F" "rw_lines wr = []"
      "subtree (staging_dir H F) (os_tree (a_os s3)) = [[] \<mapsto> Dir]" unfolding st3 by blast
    have "run_id H F @ ''.partial'' \<noteq> run_id H F" by simp
    from verdict_published [OF v [unfolded wr(1)] wr(5,3,4) this wr(6)] m r s3 wr(2) show ?thesis
      unfolding sized_simps by metis
  qed
qed

section \<open>A harness whose calls do not fail\<close>

lemma those_total: "\<forall>x\<in>set xs. x \<noteq> None \<Longrightarrow> those xs \<noteq> None"
  by (induction xs) (auto split: option.splits)

lemma json_total:
  assumes "\<And>x. num x \<noteq> None"
  shows "jsonl num lines \<noteq> None" "json_of_report num rep \<noteq> None"
proof -
  have "json_of_line num l \<noteq> None" for l using assms by (auto simp: json_of_line_def split: Option.bind_splits)
  then show "jsonl num lines \<noteq> None" unfolding jsonl_def by (intro those_total) auto
  have "json_of_phase num r \<noteq> None" for r
    using assms [of "pr_Ms r"] assms [of "pr_OpsPerS r"] assms [of "pr_Value r"] by (auto simp: json_of_phase_def)
  then have "those (map (json_of_phase num) (rep_Results rep)) \<noteq> None" by (intro those_total) auto
  then show "json_of_report num rep \<noteq> None" by (auto simp: json_of_report_def)
qed

text \<open>With such calls and a name that can be created, \<^verbatim>\<open>main\<close> reaches its verdict on the rows of the runs.\<close>

lemma main_body_succeeds:
  fixes rows :: "('f :: linordered_field) phaseResult list"
  assumes "healthy (h_calls H)" "\<And>x. h_num H x \<noteq> None" "f_out F = []" "f_runsRoot F \<noteq> []" "plain_name (run_id H F)"
    and "\<forall>q. suffix q (abs_path (h_cwd H) (f_runsRoot F)) \<longrightarrow> \<not> is_file (os_tree (a_os s) q)"
    and "\<And>s1. a_sql s1 = a_sql s \<Longrightarrow> a_world s1 = a_world s \<Longrightarrow>
      \<exists>s2. run_all (all_runs H F tmp want p cp) s1 = Some (Done rows, s2)" "rows \<noteq> []"
  shows "\<exists>failed s'. main_body H F want p cp tmp s = Some (Done failed, s')"
proof -
  from NewRunWriter_succeeds [OF assms(1,4,5,6)] obtain w :: "'f RunWriter" and o1 where
    n: "NewRunWriter (h_calls H) (h_cwd H) (h_started H) (f_runsRoot F) (run_id H F)
      (run_manifest H F (os_tree (a_os s))) (a_os s) = (Inr w, o1)" by blast
  let ?s1 = "s\<lparr>a_os := o1\<rparr>" and ?w = "AppendPhaseResults rows w"
  from assms(7) [of ?s1] obtain s2 where r: "run_all (all_runs H F tmp want p cp) ?s1 = Some (Done rows, s2)" by auto
  have "app_keeps ?s1 s2" using r by (rule run_all_keeps [rotated]) (rule all_runs_keeps)
  then have k: "a_os s2 = o1" by (simp add: app_keeps_def)
  note spec = NewRunWriter_spec [OF n assms(5)]
  have d: "rw_PartialDir ?w = staging_dir H F" "rw_FinalDir ?w = final_dir H F" "run_id H F @ ''.partial'' \<noteq> run_id H F"
    "subtree (staging_dir H F) (os_tree o1) = [[] \<mapsto> Dir]" using spec by simp_all
  obtain w' o2 where f: "Finalize (h_calls H) (h_num H) (h_finished H) (Some (main_report H F rows)) (UniqueEngines rows) ?w o1 =
      (Inr (final_dir H F), w', o2)"
    using Finalize_succeeds [OF assms(1) d NewRunWriter_base [OF n assms(5)] json_total(1) [of "h_num H", OF assms(2)],
        of "Some (main_report H F rows)"] json_total(2) [of "h_num H", OF assms(2)] by blast
  show ?thesis
    using n r k f assms(3,4,8)
    by (simp add: main_body_def open_writer_def and_then_def conclude_def verdict_def Let_def)
qed

end
