(* ===== verification/Read_Tax.thy ===== *)
theory Read_Tax
  imports Bench_Restart Bench_Payload Run_Writer
begin

text \<open>
  The read benchmark \<^verbatim>\<open>bench/ffi_read_tax/main.go\<close>: it loads chunks with one \<^verbatim>\<open>BatchPutBytes\<close>, reads them back
  through the binding and prints or writes a report. Its environment is the record \<open>tax\<close> and its state has
  the library, the file tree of the report and the lines of standard output. The batch probe
  \<^verbatim>\<open>f4kvs_batch_probe.go\<close>, which compares single puts with one batch, is here too.
\<close>

section \<open>Measurements\<close>

text \<open>The payload, with \<^const>\<open>None\<close> for the panic of \<^verbatim>\<open>make\<close>.\<close>

definition samplePayload_tax :: "nat \<Rightarrow> int \<Rightarrow> bytes option" where
  "samplePayload_tax maxAlloc n =
     (if \<not> makeslice_ok maxAlloc 1 n then None
      else Some (map (\<lambda>i. char_of ((97 + (i * 17) mod 26) :: nat)) [0..<nat n]))"

definition msSince :: "int \<Rightarrow> 'f :: linordered_field" where
  "msSince d = of_int (Microseconds d) / 1000"

definition opsPerS :: "int \<Rightarrow> 'f :: linordered_field \<Rightarrow> 'f" where
  "opsPerS n ms = (if ms \<le> 0 then 0 else of_int n / (ms / 1000))"

record 'f tax_report =
  tr_Host :: bytes
  tr_Dir :: bytes
  tr_Chunks :: int
  tr_ChunkBytes :: int
  tr_RandomGets :: int
  tr_BulkImport :: bool
  tr_IngestMs :: 'f
  tr_FFIReadMs :: 'f
  tr_FFIReadOpsS :: 'f

definition json_of_tax :: "('f \<Rightarrow> bytes option) \<Rightarrow> 'f tax_report \<Rightarrow> json option" where
  "json_of_tax num rep =
     do {
       ingest \<leftarrow> num (tr_IngestMs rep);
       ms \<leftarrow> num (tr_FFIReadMs rep);
       rate \<leftarrow> num (tr_FFIReadOpsS rep);
       Some (JObject
         [(''host'', JString (tr_Host rep)), (''dir'', JString (tr_Dir rep)), (''chunks'', JInt (tr_Chunks rep)),
          (''chunk_bytes'', JInt (tr_ChunkBytes rep)), (''random_gets'', JInt (tr_RandomGets rep)),
          (''bulk_import'', JBool (tr_BulkImport rep)), (''ingest_ms'', JNumber ingest),
          (''ffi_read_ms'', JNumber ms), (''ffi_read_ops_per_s'', JNumber rate)])
     }"

section \<open>Flags, environment and state\<close>

record tax_flags =
  x_dir :: bytes
  x_chunks :: int
  x_chunkBytes :: int
  x_randomGets :: int
  x_bulkImport :: bool
  x_prepareOnly :: bool
  x_readOnly :: bool
  x_out :: bytes

record ('x, 'c, 'f) tax =
  t_bench :: "('x, 'c) bench"
  t_maxAlloc :: nat
  t_calls :: calls
  t_cwd :: path
  t_tmp :: "go_error + bytes"
  t_host :: bytes
  t_num :: "'f \<Rightarrow> bytes option"
  t_1f :: "'f \<Rightarrow> bytes"
  t_0f :: "'f \<Rightarrow> bytes"
  t_ingest_time :: int
  t_read_time :: int

record ('x, 'c) tax_state =
  s_world :: "('x, 'c) world"
  s_os :: os_state
  s_out :: "bytes list"

definition show_bool :: "bool \<Rightarrow> bytes" where
  "show_bool b = (if b then ''true'' else ''false'')"

abbreviation open_default ::
  "('x, 'c) bench \<Rightarrow> bytes \<Rightarrow> ('x, 'c) world \<Rightarrow> ((go_error + F4KVS) \<times> ('x, 'c) world) option" where
  "open_default B dir \<equiv> NewPersistentEngine (b_env B) (b_tc B) (b_te B) dir"

section \<open>The program\<close>

definition store_dir :: "('x, 'c, 'f) tax \<Rightarrow> tax_flags \<Rightarrow> os_state \<Rightarrow> (go_error + bytes) \<times> os_state" where
  "store_dir T X s =
     (if x_dir X = [] then (t_tmp T, s)
      else case os_MkdirAll (t_calls T) (abs_path (t_cwd T) (x_dir X)) s of
             (Some err, s1) \<Rightarrow> (Inl err, s1)
           | (None, s1) \<Rightarrow> (Inr (x_dir X), s1))"

definition tax_ingest ::
  "('x, 'c) bench \<Rightarrow> bool \<Rightarrow> bytes \<Rightarrow> bytes list \<Rightarrow> bytes \<Rightarrow> ('x, 'c) world \<Rightarrow> (unit, ('x, 'c) world) run" where
  "tax_ingest B bulkImport dir chunkKeys payload w =
     do {
       (r, w1) \<leftarrow> open_default B dir w;
       case r of
         Inl err \<Rightarrow> Some (Fatal err, w1)
       | Inr eng \<Rightarrow> do {
           (out, g) \<leftarrow>
             must (when_ok bulkImport (SetBulkImport (b_env B) (b_tc B) (b_te B) True) \<lparr>g_engine = eng, g_world = w1\<rparr>) (\<lambda>g.
             must (BatchPutBytes (b_env B) (b_tc B) (b_te B) (slice_items (b_rng B) chunkKeys payload) g) (\<lambda>g.
             do { g \<leftarrow> Close (b_env B) (b_tc B) g; Some (Done (), g) }));
           Some (out, g_world g)
         }
     }"

definition tax_lines :: "('x, 'c, 'f) tax \<Rightarrow> tax_flags \<Rightarrow> bytes \<Rightarrow> 'f \<Rightarrow> bytes list" where
  "tax_lines T X dir ingestMs =
     [''dir='' @ dir, ''ingest_ms='' @ t_1f T ingestMs @ '' bulk_import='' @ show_bool (x_bulkImport X)]"

text \<open>The report after the reads, while the engine is still open.\<close>

definition tax_report_out ::
  "('x, 'c, 'f :: linordered_field) tax \<Rightarrow> tax_flags \<Rightarrow> bytes \<Rightarrow> 'f \<Rightarrow> ('x, 'c) tax_state \<Rightarrow>
   (unit, ('x, 'c) tax_state) run" where
  "tax_report_out T X dir ingestMs s =
     (let ffiMs = msSince (t_read_time T);
          rep = \<lparr>tr_Host = t_host T, tr_Dir = dir, tr_Chunks = x_chunks X, tr_ChunkBytes = x_chunkBytes X,
                 tr_RandomGets = x_randomGets X, tr_BulkImport = x_bulkImport X, tr_IngestMs = ingestMs,
                 tr_FFIReadMs = ffiMs, tr_FFIReadOpsS = opsPerS (x_randomGets X) ffiMs\<rparr>;
          s = s\<lparr>s_out := s_out s @ tax_lines T X dir ingestMs @
                [''ffi_read_ms='' @ t_1f T ffiMs @ '' ops/s='' @ t_0f T (tr_FFIReadOpsS rep)]\<rparr> in
      if x_out X = [] then Some (Done (), s)
      else case json_of_tax (t_num T) rep of
        None \<Rightarrow> Some (Fatal json_err, s)
      | Some v \<Rightarrow>
          (case os_WriteFile (t_calls T) (abs_path (t_cwd T) (x_out X)) (MarshalIndent v) (s_os s) of
             (Some err, s1) \<Rightarrow> Some (Fatal err, s\<lparr>s_os := s1\<rparr>)
           | (None, s1) \<Rightarrow> Some (Done (), s\<lparr>s_os := s1, s_out := s_out s @ [''wrote '' @ x_out X]\<rparr>)))"

definition tax_read ::
  "('x, 'c, 'f :: linordered_field) tax \<Rightarrow> tax_flags \<Rightarrow> bytes \<Rightarrow> bytes list \<Rightarrow> 'f \<Rightarrow> ('x, 'c) tax_state \<Rightarrow>
   (unit, ('x, 'c) tax_state) run" where
  "tax_read T X dir chunkKeys ingestMs s =
     (let B = t_bench T; close = (\<lambda>out g s. do { g \<leftarrow> Close (b_env B) (b_tc B) g; Some (out, s\<lparr>s_world := g_world g\<rparr>) }) in
      do {
        (r, w1) \<leftarrow> open_default B dir (s_world s);
        case r of
          Inl err \<Rightarrow> Some (Fatal err, s\<lparr>s_world := w1\<rparr>)
        | Inr eng \<Rightarrow> do {
            (out, g) \<leftarrow> random_gets B chunkKeys (nat (x_randomGets X)) 0 \<lparr>g_engine = eng, g_world = w1\<rparr>;
            (case out of
               Fatal err \<Rightarrow> Some (Fatal err, s\<lparr>s_world := g_world g\<rparr>)
             | Panic msg \<Rightarrow> close (Panic msg) g s
             | Done _ \<Rightarrow> do {
                 (out, s) \<leftarrow> tax_report_out T X dir ingestMs s;
                 (case out of
                    Fatal err \<Rightarrow> Some (Fatal err, s\<lparr>s_world := g_world g\<rparr>)
                  | _ \<Rightarrow> close out g s)
               })
          }
      })"

definition tax_main ::
  "('x, 'c, 'f :: linordered_field) tax \<Rightarrow> tax_flags \<Rightarrow> ('x, 'c) tax_state \<Rightarrow> (unit, ('x, 'c) tax_state) run" where
  "tax_main T X s =
     (case samplePayload_tax (t_maxAlloc T) (x_chunkBytes X) of
        None \<Rightarrow> Some (Panic makeslice_panic, s)
      | Some payload \<Rightarrow>
        if \<not> makeslice_ok (t_maxAlloc T) 16 (x_chunks X) then Some (Panic makeslice_panic, s)
        else
        let chunkKeys = chunk_keys (nat (x_chunks X)) in
        case store_dir T X (s_os s) of
          (Inl err, os) \<Rightarrow> Some (Fatal err, s\<lparr>s_os := os\<rparr>)
        | (Inr dir, os) \<Rightarrow>
            and_then
              (if x_readOnly X then Some (Done 0, s\<lparr>s_os := os\<rparr>)
               else do {
                 (out, w) \<leftarrow> tax_ingest (t_bench T) (x_bulkImport X) dir chunkKeys payload (s_world s);
                 and_then (Some (out, s\<lparr>s_os := os, s_world := w\<rparr>)) (\<lambda>_ s. Some (Done (msSince (t_ingest_time T)), s))
               }) (\<lambda>ingestMs s.
            if x_prepareOnly X then Some (Done (), s\<lparr>s_out := s_out s @ tax_lines T X dir ingestMs\<rparr>)
            else tax_read T X dir chunkKeys ingestMs s))"

section \<open>The batch probe\<close>

text \<open>
  \<open>engine\<close> and \<open>engine2\<close> are open at the same time and closed by the deferred calls, the last first. An
  error is a panic, which runs the deferred calls of what was opened; its message and the two printed lines
  are left out. Only the first directory is removed.
\<close>

definition or_panic :: "(go_error option \<times> 's) option \<Rightarrow> ('s \<Rightarrow> ('a, 's) run) \<Rightarrow> ('a, 's) run" where
  "or_panic r k =
     (case r of
        None \<Rightarrow> None
      | Some (Some err, s) \<Rightarrow> Some (Panic [], s)
      | Some (None, s) \<Rightarrow> k s)"

definition with_probe_engine ::
  "('x, 'c) bench \<Rightarrow> bytes \<Rightarrow> (('x, 'c) go_state \<Rightarrow> ('a, ('x, 'c) go_state) run) \<Rightarrow> ('x, 'c) world \<Rightarrow>
   ('a, ('x, 'c) world) run" where
  "with_probe_engine B dir body w =
     do {
       (r, w1) \<leftarrow> open_default B dir w;
       case r of
         Inl err \<Rightarrow> Some (Panic [], w1)
       | Inr eng \<Rightarrow> do {
           (out, g) \<leftarrow> body \<lparr>g_engine = eng, g_world = w1\<rparr>;
           g1 \<leftarrow> Close (b_env B) (b_tc B) g;
           Some (out, g_world g1)
         }
     }"

definition batch_probe :: "('x, 'c) bench \<Rightarrow> bytes \<Rightarrow> ('x, 'c) world \<Rightarrow> (unit, ('x, 'c) world) run" where
  "batch_probe B dir w =
     (let n = 2000; payload = replicate 4096 (CHR ''x''); keys = chunk_keys n in
      do {
        (out, w) \<leftarrow> with_probe_engine B dir
          (\<lambda>g. or_panic (put_each B keys payload g) (\<lambda>g.
               aside (with_probe_engine B (dir @ ''-batch'') (\<lambda>g.
                 or_panic (BatchPutBytes (b_env B) (b_tc B) (b_te B) (slice_items (b_rng B) keys payload) g)
                   (\<lambda>g. Some (Done (), g)))) g)) w;
        Some (out, w\<lparr>lsm := b_wipe B dir (lsm w)\<rparr>)
      })"

section \<open>Lemmas\<close>

lemma samplePayload_tax:
  assumes "samplePayload_tax A n = Some p"
  shows "length p = nat n" "list_all lower_case p"
proof -
  have "lower_case (char_of ((97 + (i * 17) mod 26) :: nat))" for i
  proof -
    have "(97 + (i * 17) mod 26) mod 256 = 97 + (i * 17) mod 26" "(i * 17) mod 26 < 26" by simp_all
    then show ?thesis by (simp add: lower_case_def)
  qed
  with assms show "length p = nat n" "list_all lower_case p"
    by (auto simp: samplePayload_tax_def list_all_iff split: if_splits)
qed

text \<open>The two programs report the same rate for the same duration.\<close>

lemma result_rate:
  "pr_Ms (result phase profile n d dl x) = msSince d"
  "pr_OpsPerS (result phase profile n d dl x) = opsPerS n (msSince d)"
  by (auto simp: result_def msSince_def opsPerS_def Let_def)

abbreviation unpadded :: "('x, 'c) bench \<Rightarrow> ('x, 'c) bench" where
  "unpadded B \<equiv> B\<lparr>b_pad := \<lambda>_. 0\<rparr>"

lemma tax_ingest_engine:
  "tax_ingest B bulk dir keys payload =
     with_engine (unpadded B) dir None
       (\<lambda>g. must (when_ok bulk (SetBulkImport (b_env B) (b_tc B) (b_te B) True) g) (\<lambda>g.
            must (BatchPutBytes (b_env B) (b_tc B) (b_te B) (slice_items (b_rng B) keys payload) g) (\<lambda>g.
            Some (Done (), g))))"
  by (auto simp: fun_eq_iff tax_ingest_def with_engine_def NewPersistentEngine_def must_def
      split: Option.bind_splits sum.splits option.splits outcome.splits)

lemma tax_ingest_safe:
  assumes "bench_ok B" "reg_inv w" "good_dir dir"
  shows "safe_world False (\<lambda>_. True) w (tax_ingest B bulk dir keys payload w)"
proof -
  have "bench_ok (unpadded B)" using assms(1) by (simp add: bench_ok_def)
  then show ?thesis
    unfolding tax_ingest_engine
    by (intro with_engine_safe [OF _ assms(2,3)] safe_must safe_done when_safe bulk_safe batch_safe [OF assms(1)]) simp_all
qed

text \<open>An engine opened with the defaults, as the drivers' rules need it.\<close>

lemma open_default_live:
  assumes "bench_ok B" "reg_inv w" "good_dir dir"
  obtains (failed) err w1 where "open_default B dir w = Some (Inl err, w1)"
  | (opened) h e w1 where "open_default B dir w = Some (Inr (new_F4KVS h), w1)"
      "idle e \<lparr>g_engine = new_F4KVS h, g_world = w1\<rparr>" "(heap w1)(h := None) = heap w"
      "\<exists>x. lsm_new (b_env B) (engine_config (b_env B) dir None) (lsm w) = (Inr e, x) \<and> lsm w1 = x"
proof -
  from assms(1) have al: "fresh_allocator (allocator (b_env B))" by (simp add: bench_ok_def)
  from open_total [OF al assms(2,3), of "\<lambda>_. 0" "b_tc B" "b_te B" None] obtain r w1 where
    o: "open_default B dir w = Some (r, w1)"
      "\<forall>eng. r = Inr eng \<longrightarrow> (\<exists>h e x' n. lsm_new (b_env B) (engine_config (b_env B) dir None) (lsm w) = (Inr e, x') \<and>
         eng = new_F4KVS h \<and> 1 < h \<and> heap w h = None \<and>
         w1 = w\<lparr>heap := (heap w)(h \<mapsto> EngineBox e), tick := n, arcs := (arcs w)(e := 1), lsm := x'\<rparr>)"
    by (fastforce simp: NewPersistentEngine_def)
  show ?thesis
  proof (cases r)
    case (Inl err)
    with o(1) failed show ?thesis by simp
  next
    case (Inr eng)
    with o(2) obtain h e x' n where
      h: "lsm_new (b_env B) (engine_config (b_env B) dir None) (lsm w) = (Inr e, x')" "eng = new_F4KVS h" "1 < h" "heap w h = None"
        "w1 = w\<lparr>heap := (heap w)(h \<mapsto> EngineBox e), tick := n, arcs := (arcs w)(e := 1), lsm := x'\<rparr>" by blast
    have "live \<lparr>g_engine = new_F4KVS h, g_world = w1\<rparr> e" unfolding h(5) by (rule opened_live [OF assms(2) h(4,3)])
    then have "idle e \<lparr>g_engine = new_F4KVS h, g_world = w1\<rparr>" by (simp add: idle_def new_F4KVS_def)
    with o(1) Inr h opened show ?thesis by (simp add: fun_upd_idem)
  qed
qed

lemma tax_report_out_keeps:
  "\<exists>out s'. tax_report_out T X dir ms s = Some (out, s') \<and> (out = Done () \<or> (\<exists>err. out = Fatal err))"
  by (auto simp: tax_report_out_def Let_def split: option.splits prod.splits)

lemma tax_read_ends:
  assumes "bench_ok (t_bench T)" "reg_inv (s_world s)" "good_dir dir"
  shows "\<exists>out s'. tax_read T X dir keys ms s = Some (out, s') \<and>
    ends (0 < x_randomGets X \<and> keys = []) (\<lambda>_. True) (heap (s_world s') = heap (s_world s)) out"
  using assms
proof (cases rule: open_default_live)
  case (failed err w1)
  then show ?thesis by (simp add: tax_read_def Let_def)
next
  case (opened h e w1)
  let ?B = "t_bench T" and ?g = "\<lparr>g_engine = new_F4KVS h, g_world = w1\<rparr>"
  from opened(2) have "live ?g e" by (simp add: idle_def)
  from safe_mono [OF random_gets_safe [OF assms(1) this, of "nat (x_randomGets X)" keys 0], of _ "\<lambda>_. True"] obtain out g where
    g: "random_gets ?B keys (nat (x_randomGets X)) 0 ?g = Some (out, g)"
      "ends (0 < nat (x_randomGets X) \<and> keys = []) (\<lambda>_. True) (calm e ?g g) out"
    unfolding safe_run_def by blast
  have close: "\<exists>g'. Close (b_env ?B) (b_tc ?B) g = Some g' \<and> heap (g_world g') = heap (s_world s)" if "calm e ?g g"
    using close_idle [OF calm_idle [OF opened(2) that], of "b_env ?B" "b_tc ?B"] that opened(3)
    by (auto simp: calm_def new_F4KVS_def)
  obtain out2 s2 where r: "tax_report_out T X dir ms s = Some (out2, s2)" "out2 = Done () \<or> (\<exists>err. out2 = Fatal err)"
    using tax_report_out_keeps by blast
  show ?thesis
    using opened(1) g r close by (cases out) (auto simp: tax_read_def Let_def)
qed

lemma tax_main_ends:
  assumes "bench_ok (t_bench T)" "reg_inv (s_world s)" "\<And>dir os. store_dir T X (s_os s) = (Inr dir, os) \<Longrightarrow> good_dir dir"
  shows "\<exists>out s'. tax_main T X s = Some (out, s') \<and>
    ends (\<not> makeslice_ok (t_maxAlloc T) 1 (x_chunkBytes X) \<or> \<not> makeslice_ok (t_maxAlloc T) 16 (x_chunks X) \<or>
        0 < x_randomGets X \<and> x_chunks X = 0 \<and> \<not> x_prepareOnly X)
      (\<lambda>_. True) (heap (s_world s') = heap (s_world s)) out" (is "\<exists>out s'. _ \<and> ends ?P _ _ out")
proof (cases "\<not> makeslice_ok (t_maxAlloc T) 1 (x_chunkBytes X) \<or> \<not> makeslice_ok (t_maxAlloc T) 16 (x_chunks X)")
  case False
  then obtain p where p: "samplePayload_tax (t_maxAlloc T) (x_chunkBytes X) = Some p" by (simp add: samplePayload_tax_def)
  obtain r os where st: "store_dir T X (s_os s) = (r, os)" by force
  show ?thesis
  proof (cases r)
    case (Inr dir)
    let ?keys = "chunk_keys (nat (x_chunks X))"
    note dir = assms(3) [OF st [unfolded Inr]]
    have keys: "?keys = [] \<Longrightarrow> x_chunks X = 0"
      using False keys_length(2) [of "nat (x_chunks X)"] by (auto simp: makeslice_ok_def)
    have rest: "\<exists>out s'. (if x_prepareOnly X then Some (Done (), s1\<lparr>s_out := s_out s1 @ tax_lines T X dir ms\<rparr>)
          else tax_read T X dir ?keys ms s1) = Some (out, s') \<and>
        ends ?P (\<lambda>_. True) (heap (s_world s') = heap (s_world s)) out"
      if "reg_inv (s_world s1)" "heap (s_world s1) = heap (s_world s)" for s1 ms
      using tax_read_ends [OF assms(1) that(1) dir, of X ?keys ms] that keys by (auto elim!: ends_mono)
    obtain out w where i: "tax_ingest (t_bench T) (x_bulkImport X) dir ?keys p (s_world s) =
        Some (out, w)" "ends False (\<lambda>_. True) (heap w = heap (s_world s) \<and> reg_inv w) out"
      using tax_ingest_safe [OF assms(1,2) dir] unfolding safe_world_def by blast
    show ?thesis
      using False p st Inr i assms(2) rest by (cases out) (auto simp: tax_main_def Let_def and_then_def)
  qed (use False p st in \<open>simp add: tax_main_def\<close>)
qed (auto simp: tax_main_def samplePayload_tax_def)

text \<open>
  The load is one batch on an engine with the default options, so more chunks than the default limit end
  the program in the load.
\<close>

lemma tax_over_limit:
  assumes "limit_law (b_env B)" "cfg_max_batch_size (default_config (b_env B)) = 10000"
    and "bench_ok B" "visits (b_rng B)" "reg_inv w" "good_dir dir" "10000 < n"
  shows "\<exists>err w'. tax_ingest B False dir (chunk_keys n) payload w = Some (Fatal err, w')"
  using assms(3,5,6)
proof (cases rule: open_default_live)
  case (failed err w1)
  then show ?thesis by (auto simp: tax_ingest_def)
next
  case (opened h e w1)
  let ?E = "b_env B" and ?g = "\<lparr>g_engine = new_F4KVS h, g_world = w1\<rparr>"
  let ?its = "slice_items (b_rng B) (chunk_keys n) payload"
  from assms(3) have al: "fresh_allocator (allocator ?E)" by (simp add: bench_ok_def)
  have "lsm_max_batch_size ?E e (lsm (g_world ?g)) = 10000"
    using assms(1,2) opened(4) by (auto simp: limit_law_def engine_config_def apply_open_options_def Let_def)
  moreover have "length ?its = n" using slice_items_length [OF assms(4)] by simp
  ultimately have "lsm_max_batch_size ?E e (lsm (g_world ?g)) < length ?its" using assms(7) by simp
  moreover have "live ?g e" using opened(2) by (simp add: idle_def)
  ultimately obtain err g' where "BatchPutBytes ?E (b_tc B) (b_te B) ?its ?g = Some (Some err, g')"
    using BatchPutBytes_over_limit [OF _ al, of ?g e ?its "b_tc B" "b_te B"] by blast
  with opened(1) show ?thesis by (simp add: tax_ingest_def when_ok_def must_def)
qed

text \<open>The probe returns, closes both engines and leaves no C memory behind, panicking or not.\<close>

lemma probe_safe_panic:
  assumes "safe_op e g r" "\<And>g'. live g' e \<Longrightarrow> safe_run True Q e g' (k g')"
  shows "safe_run True Q e g (or_panic r k)"
proof -
  from assms(1) obtain a g1 where r: "r = Some (a, g1)" "calm e g g1" by (auto simp: safe_op_def)
  from safe_after [OF r(2) assms(2) [OF calm_live [OF r(2)]]] r show ?thesis
    by (cases a) (simp_all add: or_panic_def safe_run_def)
qed

lemma with_probe_safe:
  assumes "bench_ok B" "reg_inv w" "good_dir dir" "\<And>g e. live g e \<Longrightarrow> safe_run True Q e g (body g)"
    and nofatal: "\<And>g err g'. body g \<noteq> Some (Fatal err, g')"
  shows "safe_world True Q w (with_probe_engine B dir body w)"
  using assms(1-3)
proof (cases rule: open_default_live)
  case (failed err w1)
  have "fresh_allocator (allocator (b_env B))" using assms(1) by (simp add: bench_ok_def)
  from open_refused [OF this assms(2,3) failed [unfolded NewPersistentEngine_def]] failed show ?thesis
    by (simp add: with_probe_engine_def safe_world_def)
next
  case (opened h e w1)
  let ?g = "\<lparr>g_engine = new_F4KVS h, g_world = w1\<rparr>"
  from opened(2) have "live ?g e" by (simp add: idle_def)
  from assms(4) [OF this] obtain out g where b: "body ?g = Some (out, g)" "ends True Q (calm e ?g g) out"
    by (auto simp: safe_run_def)
  have c: "calm e ?g g" using b nofatal by (cases out) auto
  from close_idle [OF calm_idle [OF opened(2) c], of "b_env B" "b_tc B"] obtain g' where
    "Close (b_env B) (b_tc B) g = Some g'" "heap (g_world g') = heap w" "reg_inv (g_world g')"
    using c opened(3) by (auto simp: calm_def new_F4KVS_def)
  with opened(1) b show ?thesis by (cases out) (auto simp: with_probe_engine_def safe_world_def)
qed

lemma or_panic_not_fatal: "(\<And>s. k s \<noteq> Some (Fatal err, s')) \<Longrightarrow> or_panic r k \<noteq> Some (Fatal err, s')"
  by (auto simp: or_panic_def split: option.splits)

lemma with_probe_not_fatal:
  "(\<And>g g'. body g \<noteq> Some (Fatal err, g')) \<Longrightarrow> with_probe_engine B dir body w \<noteq> Some (Fatal err, w')"
  by (auto simp: with_probe_engine_def split: Option.bind_splits sum.splits)

lemma batch_probe_ends:
  assumes "bench_ok B" "reg_inv w" "good_dir dir"
  shows "\<exists>out w'. batch_probe B dir w = Some (out, w') \<and> (\<forall>err. out \<noteq> Fatal err) \<and> heap w' = heap w"
proof -
  let ?p = "replicate 4096 (CHR ''x'')" and ?ks = "chunk_keys 2000"
  let ?batch = "with_probe_engine B (dir @ ''-batch'') (\<lambda>g.
      or_panic (BatchPutBytes (b_env B) (b_tc B) (b_te B) (slice_items (b_rng B) ?ks ?p) g) (\<lambda>g. Some (Done (), g)))"
  let ?body = "\<lambda>g. or_panic (put_each B ?ks ?p g) (aside ?batch)"
  have "valid_utf8 (dir @ ''-batch'')"
    using valid_utf8_append [of dir "''-batch''"] valid_utf8_ascii [of "''-batch''"] assms(3) by (simp add: good_dir_def)
  then have dir2: "good_dir (dir @ ''-batch'')" using assms(3) by (auto simp: good_dir_def c_key_def)
  have batch: "safe_world True (\<lambda>_. True) w1 (?batch w1)" if "reg_inv w1" for w1
    by (intro with_probe_safe [OF assms(1) that dir2] probe_safe_panic batch_safe [OF assms(1)] safe_done or_panic_not_fatal) simp_all
  have nf: "?batch w1 \<noteq> Some (Fatal err, w2)" for w1 err w2
    by (intro with_probe_not_fatal or_panic_not_fatal) simp
  have nfb: "?body g \<noteq> Some (Fatal err, g')" for g err g'
    using nf by (intro or_panic_not_fatal) (auto simp: aside_def split: Option.bind_splits)
  have "safe_world True (\<lambda>_. True) w (with_probe_engine B dir ?body w)"
    by (intro with_probe_safe [OF assms] probe_safe_panic put_each_safe [OF assms(1)] aside_safe batch live_reg_inv nfb)
  then obtain out w1 where o: "with_probe_engine B dir ?body w = Some (out, w1)"
    "ends True (\<lambda>_. True) (heap w1 = heap w \<and> reg_inv w1) out" by (auto simp: safe_world_def)
  moreover have "\<forall>err. out \<noteq> Fatal err" using with_probe_not_fatal [of ?body, OF nfb] o(1) by blast
  ultimately show ?thesis by (cases out) (auto simp: batch_probe_def Let_def)
qed

end
