(* ===== verification/Bench_Reference.thy ===== *)
theory Bench_Reference
  imports Bench_Main Read_Tax "HOL-Library.Product_Lexorder"
begin

text \<open>
  Concrete environments for the harness, which satisfy the hypotheses of its theorems: a library that
  forgets a given list of keys when it is closed, a SQLite driver that keeps its tables as association
  lists, and a harness on both.
\<close>

section \<open>A library with bounded replies\<close>

definition small_env :: "(ref_lsm, 'c) env" where
  "small_env = ref_env
     \<lparr>lsm_get := (\<lambda>e k x. case map_of (ref_store x e) k of
          None \<Rightarrow> (Inr None, x)
        | Some v \<Rightarrow> (if length (value_to_bytes v) < 2 ^ 31 then Inr (Some v) else Inl ''value too large'', x)),
      lsm_scan_prefix := (\<lambda>e p x.
        let ks = remdups (filter (prefix p) (map fst (ref_store x e))) in
        (if length ks \<le> 2 ^ 30 then Inr ks else Inl ''too many keys'', x))\<rparr>"

definition lossy_env :: "bytes list \<Rightarrow> (ref_lsm, 'c) env" where
  "lossy_env lost = small_env
     \<lparr>lsm_shutdown := (\<lambda>e x. (Inr (), ref_write e (filter (\<lambda>(k, v). k \<notin> set lost) (ref_store x e)) x))\<rparr>"

definition ref_on_disk :: "ref_lsm \<Rightarrow> bytes \<Rightarrow> bytes \<rightharpoonup> lsm_value" where
  "ref_on_disk x d = map_of (ref_disk x d)"

definition ref_wipe :: "bytes \<Rightarrow> ref_lsm \<Rightarrow> ref_lsm" where
  "ref_wipe d x = x\<lparr>ref_disk := (ref_disk x)(d := [])\<rparr>"

lemma lossy_fields:
  fixes L R :: "(ref_lsm, 'c) env"
  assumes "L = lossy_env lost" "R = ref_env"
  shows "allocator L = ref_allocator" "default_config L = ref_config"
    "lsm_put L = lsm_put R" "lsm_batch_put L = lsm_batch_put R" "lsm_delete L = lsm_delete R"
    "lsm_batch_delete L = lsm_batch_delete R" "lsm_try_get_sync L = lsm_try_get_sync R" "lsm_exists L = lsm_exists R"
    "lsm_scan_prefix_with_values L = lsm_scan_prefix_with_values R" "lsm_flush L = lsm_flush R" "lsm_flush_wal L = lsm_flush_wal R"
    "lsm_compact L = lsm_compact R" "lsm_set_bulk_import L = lsm_set_bulk_import R" "lsm_new L = lsm_new R"
    "lsm_max_batch_size L = lsm_max_batch_size R" "lsm_drop L = lsm_drop R"
  by (simp_all add: assms lossy_env_def small_env_def ref_env_def)

lemmas lossy_as_ref = lossy_fields [OF refl refl]

lemma lossy_get:
  "lsm_get (lossy_env lost) e k x = (r, x') \<Longrightarrow> x' = x \<and> (\<forall>v. r = Inr v \<longrightarrow> v = map_of (ref_store x e) k) \<and>
     (\<forall>v. r = Inr (Some v) \<longrightarrow> length (value_to_bytes v) < 2 ^ 31)"
  by (auto simp: lossy_env_def small_env_def split: option.splits if_splits)

lemma lossy_scan:
  "lsm_scan_prefix (lossy_env lost) e p x = (r, x') \<Longrightarrow> x' = x \<and>
     (r = Inr (remdups (filter (prefix p) (map fst (ref_store x e)))) \<and>
        length (remdups (filter (prefix p) (map fst (ref_store x e)))) \<le> 2 ^ 30 \<or>
      r = Inl ''too many keys'' \<and> 2 ^ 30 < length (remdups (filter (prefix p) (map fst (ref_store x e)))))"
  by (auto simp: lossy_env_def small_env_def Let_def split: if_splits)

lemma lossy_laws: "lsm_laws (lossy_env lost :: (ref_lsm, 'c) env) ref_kv"
proof -
  let ?L = "lossy_env lost :: (ref_lsm, 'c) env"
  have ref: "lsm_laws (ref_env :: (ref_lsm, 'c) env) ref_kv" by (rule ref_laws)
  have "lsm_write_laws ?L ref_kv" "lsm_keep_laws ?L ref_kv" "lsm_frame_laws ?L ref_kv"
    using ref by (simp_all add: lsm_laws_def lsm_write_laws_def lsm_keep_laws_def lsm_frame_laws_def lossy_as_ref)
  moreover have "lsm_read_laws ?L ref_kv"
    unfolding lsm_read_laws_def
  proof (intro conjI)
    show "\<forall>e p x r x'. lsm_scan_prefix ?L e p x = (r, x') \<longrightarrow> ref_kv x' e = ref_kv x e \<and>
        (\<forall>ks. r = Inr ks \<longrightarrow> distinct ks \<and> set ks = {k \<in> dom (ref_kv x e). prefix p k})"
      using lossy_scan by (fastforce simp: ref_kv_def ref_scan_keys simp del: set_remdups set_filter)
    show "\<forall>e k x r x'. lsm_get ?L e k x = (r, x') \<longrightarrow> ref_kv x' e = ref_kv x e \<and> (\<forall>v. r = Inr v \<longrightarrow> v = ref_kv x e k)"
      using lossy_get by (fastforce simp: ref_kv_def)
  qed (use ref in \<open>simp_all add: lsm_laws_def lsm_read_laws_def lossy_as_ref\<close>)
  ultimately show ?thesis by (simp add: lsm_laws_def)
qed

lemma lossy_bounded: "bounded_replies (lossy_env lost)"
  unfolding bounded_replies_def using lossy_get lossy_scan by (metis Inl_Inr_False Inr_inject)

lemma lossy_restart: "restart_laws (lossy_env lost) ref_kv ref_dir ref_on_disk ref_wipe (- set lost)"
  unfolding restart_laws_def
  by (auto simp: lossy_as_ref ref_env_def ref_kv_def ref_on_disk_def ref_wipe_def ref_store_def ref_write_def
      lossy_env_def small_env_def map_of_filter_notin)

text \<open>A library that loses nothing but whose scans fail.\<close>

definition scanless_env :: "(ref_lsm, unit) env" where
  "scanless_env = (lossy_env [])\<lparr>lsm_scan_prefix := \<lambda>e p x. (Inl ''I/O error'', x)\<rparr>"

lemma scanless_laws: "lsm_laws scanless_env ref_kv"
proof -
  have "lsm_laws (lossy_env [] :: (ref_lsm, unit) env) ref_kv" by (rule lossy_laws)
  then show ?thesis
    by (simp add: scanless_env_def lsm_laws_def lsm_write_laws_def lsm_read_laws_def lsm_keep_laws_def lsm_frame_laws_def)
qed

lemma scanless_bounded: "bounded_replies scanless_env"
proof -
  have "bounded_replies (lossy_env [] :: (ref_lsm, unit) env)" by (rule lossy_bounded)
  then show ?thesis by (auto simp: scanless_env_def bounded_replies_def)
qed

lemma scanless_restart: "restart_laws scanless_env ref_kv ref_dir ref_on_disk ref_wipe UNIV"
proof -
  have "restart_laws (lossy_env [] :: (ref_lsm, unit) env) ref_kv ref_dir ref_on_disk ref_wipe (- set [])"
    by (rule lossy_restart)
  then show ?thesis by (simp add: scanless_env_def restart_laws_def)
qed

lemma lossy_limit: "limit_law (lossy_env lost)"
  by (auto simp: limit_law_def lossy_as_ref ref_env_def)

definition ref_bench :: "bytes list \<Rightarrow> int \<Rightarrow> (ref_lsm, unit) bench" where
  "ref_bench lost n =
     \<lparr>b_env = lossy_env lost, b_pad = \<lambda>_. 0, b_tc = 0, b_te = 0, b_rng = id, b_wipe = ref_wipe, b_size = n,
      b_dur = \<lambda>_ _. 2000000\<rparr>"

lemma ref_bench_ok: "bench_ok (ref_bench lost n)"
  by (simp add: bench_ok_def ref_bench_def lossy_as_ref ref_allocator_fresh lossy_bounded)

lemma ref_bench_simps [simp]:
  "b_env (ref_bench lost n) = lossy_env lost" "b_wipe (ref_bench lost n) = ref_wipe"
  "b_rng (ref_bench lost n) = id" "b_size (ref_bench lost n) = n"
  by (simp_all add: ref_bench_def)

lemma scanless_bench: "bench_ok ((ref_bench lost n)\<lparr>b_env := scanless_env\<rparr>)"
  using ref_bench_ok [of lost n] scanless_bounded
  by (simp add: bench_ok_def scanless_env_def lossy_as_ref)

lemma visits_id [simp]: "visits id"
  by (simp add: visits_def)

lemma ref_good_dir: "good_dir ''/tmp/b''"
  by (simp add: good_dir_def c_key_def valid_utf8_ascii)

section \<open>A SQLite driver\<close>

type_synonym ref_db = "bytes \<Rightarrow> (bytes \<times> bytes) list"

definition ref_sql_error :: go_error where
  "ref_sql_error = Errorf ''UNIQUE constraint failed: kv.key'' []"

definition ref_sql :: "ref_db sql_driver" where
  "ref_sql =
     \<lparr>q_open = \<lambda>_. None,
      q_exec = (\<lambda>dsn sql args d.
        if sql = insert_sql then
          (case args of
             [k, v] \<Rightarrow> if map_of (d dsn) k = None then (None, d(dsn := (k, v) # d dsn)) else (Some ref_sql_error, d)
           | _ \<Rightarrow> (Some ref_sql_error, d))
        else (None, d(dsn := []))),
      q_begin = \<lambda>_ d. (None, d), q_prepare = \<lambda>_ _ d. (None, d), q_commit = \<lambda>_ d. (None, d),
      q_query = (\<lambda>dsn sql args d.
        (Inr (map Inr (if sql = select_sql then (case map_of (d dsn) (hd args) of None \<Rightarrow> [] | Some v \<Rightarrow> [v])
                       else map fst (d dsn))), d)),
      q_count = (\<lambda>dsn _ d. (Inr (length (remdups (map fst (d dsn)))), d)),
      q_close = \<lambda>_ d. (None, d), q_remove = \<lambda>_ d. d, q_removeAll = \<lambda>_ d. d\<rparr>"

definition ref_rows :: "bytes \<Rightarrow> ref_db \<Rightarrow> bytes \<rightharpoonup> bytes" where
  "ref_rows dsn d = map_of (d dsn)"

lemma ref_sql_laws: "sql_laws ref_sql ref_rows ref_rows" and ref_sql_healthy: "sql_healthy ref_sql ref_rows"
proof -
  have "create_sql \<noteq> insert_sql" by (simp add: create_sql_def insert_sql_def)
  moreover have "length (remdups (map fst xs)) = card (dom (map_of xs))" for xs :: "(bytes \<times> bytes) list"
    by (metis dom_map_of_conv_image_fst length_remdups_card_conv list.set_map)
  ultimately show "sql_laws ref_sql ref_rows ref_rows"
    by (auto simp: sql_laws_def ref_sql_def ref_rows_def split: if_splits)
  show "sql_healthy ref_sql ref_rows" by (auto simp: sql_healthy_def ref_sql_def ref_rows_def domIff)
qed

text \<open>A database that another process keeps locked: no transaction begins.\<close>

definition locked_sql :: "ref_db sql_driver" where
  "locked_sql = ref_sql\<lparr>q_begin := \<lambda>_ d. (Some (Errorf ''database is locked (5) (SQLITE_BUSY)'' []), d)\<rparr>"

lemma locked_sql_laws: "sql_laws locked_sql ref_rows ref_rows"
  using ref_sql_laws by (simp add: sql_laws_def locked_sql_def)

section \<open>A harness\<close>

definition row_sort :: "'f phaseResult list \<Rightarrow> 'f phaseResult list" where
  "row_sort = sort_key (\<lambda>r. (pr_Profile r, pr_MetricOnly r))"

lemma row_sort_slice: "slice_sort row_sort"
proof -
  have le: "\<not> row_less r' r" if "(pr_Profile r, pr_MetricOnly r) \<le> (pr_Profile r', pr_MetricOnly r')"
    for r r' :: "'a phaseResult"
    using that by (auto simp: row_less_def)
  have "sorted_wrt (\<lambda>r r'. \<not> row_less r' r) (row_sort rs)" for rs :: "'a phaseResult list"
    using sorted_sort_key [of "\<lambda>r. (pr_Profile r, pr_MetricOnly r)" rs] unfolding row_sort_def sorted_map
    by (rule sorted_wrt_mono_rel [rotated]) (rule le)
  then show ?thesis unfolding slice_sort_def by (simp add: row_sort_def)
qed

definition ref_machine :: machine where
  "ref_machine =
     \<lparr>m_run = \<lambda>_. None, m_getenv = \<lambda>_. [], m_tree = Map.empty, m_GOOS = ''linux'', m_GOARCH = ''amd64'',
      m_Hostname = ''host'', m_Version = ''go1.22'', m_NumCPU = 4\<rparr>"

definition quiet_calls :: calls where
  "quiet_calls = (\<lambda>_. \<lparr>call_err = None, call_junk = None, call_keep = \<lambda>_. False\<rparr>)"

definition ref_time :: utc_time where
  "ref_time = \<lparr>t_year = 2026, t_month = 7, t_day = 18, t_hour = 10, t_minute = 25, t_second = 30\<rparr>"

definition ref_harness :: "(ref_lsm, unit, ref_db, rat) harness" where
  "ref_harness =
     \<lparr>h_bench = ref_bench [] 500, h_sql = ref_sql, h_calls = quiet_calls, h_machine = ref_machine,
      h_verbs = \<lparr>fmt_1f = \<lambda>_. ''0.0'', fmt_0f = \<lambda>_. ''0'', fmt_g = \<lambda>_. ''0''\<rparr>, h_num = \<lambda>_. Some ''0'', h_sort = row_sort,
      h_rand_memoir = [], h_rand_chunk = [], h_maxAlloc = 2 ^ 48, h_tmp = Inr ''/tmp/b'', h_cwd = [], h_now = ref_time,
      h_started = ref_time, h_finished = ref_time\<rparr>"

definition ref_flags :: bench_flags where
  "ref_flags =
     \<lparr>f_memoirs = 1, f_chunks = 2, f_memoirBytes = 40, f_chunkBytes = 40, f_randomGets = 1, f_includeRelaxed = True,
      f_seed = 42, f_runsRoot = ''/runs'', f_tier = [], f_profiles = ''sqlite_wal_normal'', f_maxPerCommitChunks = 10000,
      f_batchPutSize = 500, f_fair = False, f_out = [], f_runID = []\<rparr>"

definition ref_app :: "(ref_lsm, unit, ref_db) app" where
  "ref_app =
     \<lparr>a_world = ref_world 5, a_sql = \<lambda>_. [], a_os = \<lparr>os_tree = [[] \<mapsto> Dir], os_count = 0, os_trace = []\<rparr>, a_out = []\<rparr>"

end
