(* ===== verification/Harness_Properties.thy ===== *)
theory Harness_Properties
  imports Bench_Reference
begin

text \<open>
  The properties of the benchmark harness that span its parts: the table, the published run, the exit
  status, the restart check, the measured phases, the two write modes of the SQLite peer, and that the
  program ends. The concrete instances are on the environments of \<^verbatim>\<open>Bench_Reference\<close>.
\<close>

section \<open>The report\<close>

text \<open>
  C33. The table shows every measured row once and in order: its lines are the head and one group per
  phase, the phases ascend, a group has the line of each of its rows and then the comparisons of the
  phase, and all rows together are a permutation of the measured rows, sorted by phase, profile and metric,
  whatever order the map iteration and the unstable sort choose.
\<close>

theorem table_complete:
  assumes "visits rng" "slice_sort srt"
  shows "\<exists>groups. printTable V rng srt results =
      table_head @ concat (map (\<lambda>(p, rs). map (row_line V) rs @
        map compare_line (phaseCompares (fmt_1f V)
          (\<lambda>q. if q \<le> p then srt (by_phase results q) else by_phase results q) rs p)) groups) \<and>
    map fst groups = sort (remdups (map pr_Phase results)) \<and>
    (\<forall>(p, rs)\<in>set groups. \<forall>r\<in>set rs. pr_Phase r = p) \<and>
    mset (concat (map snd groups)) = mset results \<and> sorted_wrt row_le (concat (map snd groups))"
proof -
  let ?groups = "map (\<lambda>p. (p, srt (by_phase results p))) (table_phases results)"
  have rows: "concat (map snd ?groups) = concat (map (\<lambda>p. srt (by_phase results p)) (table_phases results))"
    by (simp add: comp_def)
  have "\<forall>(p, rs)\<in>set ?groups. \<forall>r\<in>set rs. pr_Phase r = p"
    using slice_sort_set [OF assms(2)] by (auto simp: by_phase_filter)
  moreover have "map fst ?groups = sort (remdups (map pr_Phase results))" by (simp add: comp_def table_phases_def)
  ultimately show ?thesis
    using table_rows [OF assms(2), of results] printTable_groups [OF assms, of V results]
    by (intro exI [of _ ?groups]) (simp add: rows comp_def group_lines_def)
qed

theorem table_complete_witness:
  "\<exists>groups. printTable \<lparr>fmt_1f = \<lambda>_. ''1.0'', fmt_0f = \<lambda>_. ''1'', fmt_g = \<lambda>_. ''1''\<rparr> rev row_sort
      [result ''b'' ''y'' 1 0 [] [], result ''a'' ''z'' 1 0 [] [], result ''b'' ''x'' (1 :: int) 0 [] [] :: rat phaseResult] =
      table_head @ concat groups \<and> length groups = 2"
proof -
  let ?rs = "[result ''b'' ''y'' 1 0 [] [], result ''a'' ''z'' 1 0 [] [], result ''b'' ''x'' (1 :: int) 0 [] [] :: rat phaseResult]"
  have "visits rev" by (simp add: visits_def)
  from table_complete [OF this row_sort_slice, of "\<lparr>fmt_1f = \<lambda>_. ''1.0'', fmt_0f = \<lambda>_. ''1'', fmt_g = \<lambda>_. ''1''\<rparr>" ?rs]
  obtain groups where g: "printTable \<lparr>fmt_1f = \<lambda>_. ''1.0'', fmt_0f = \<lambda>_. ''1'', fmt_g = \<lambda>_. ''1''\<rparr> rev row_sort ?rs =
      table_head @ concat (map (\<lambda>(p, rs). map (row_line \<lparr>fmt_1f = \<lambda>_. ''1.0'', fmt_0f = \<lambda>_. ''1'', fmt_g = \<lambda>_. ''1''\<rparr>) rs @
        map compare_line (phaseCompares (\<lambda>_. ''1.0'')
          (\<lambda>q. if q \<le> p then row_sort (by_phase ?rs q) else by_phase ?rs q) rs p)) groups)"
    "map fst groups = sort (remdups (map pr_Phase ?rs))" by auto
  from g(2) have "length groups = length (remdups (map pr_Phase ?rs))" by (metis length_map length_sort)
  also have "\<dots> = 2" by (simp add: result_def Let_def)
  finally show ?thesis using g(1) by (metis (no_types, lifting) length_map)
qed

text \<open>
  C35. A run is published as a whole: after the writer is opened on a plain run identifier and the rows are
  appended, every tree that \<^verbatim>\<open>Finalize\<close> passes through, whichever calls fail, shows in the final directory
  nothing that was not there before or the complete run; when it succeeds the final directory is exactly
  the manifest, the result lines and the report, the staging directory is gone, no other path has changed,
  and the result file splits at its newlines into one line per exported row; and it succeeds when no call
  fails and the numbers can be encoded.
\<close>

theorem run_published_whole:
  assumes "NewRunWriter C cwd now runsRoot runID man s = (Inr w, s1)" "plain_name runID"
    and "Finalize C num fin legacy engines (AppendPhaseResults rows w) s1 = (r, w', s')"
    and "\<forall>x n. num x = Some n \<longrightarrow> LF \<notin> set n"
  shows "let base = abs_path cwd runsRoot; final = runID # base; staging = (runID @ ''.partial'') # base;
      lines = concat (map (phaseResultToLong runID) rows);
      run = run_files num legacy (final_manifest fin engines (AppendPhaseResults rows w)) lines in
    (\<exists>ts. os_trace s' = os_trace s1 @ ts \<and> (\<forall>t\<in>set (os_tree s' # ts). old_or_new final (os_tree s1) run t)) \<and>
    (\<forall>dir. r = Inr dir \<longrightarrow> dir = final \<and> subtree final (os_tree s') = run \<and> subtree staging (os_tree s') = Map.empty \<and>
       (\<forall>q. \<not> suffix staging q \<longrightarrow> \<not> suffix final q \<longrightarrow> os_tree s' q = os_tree s1 q) \<and>
       (\<exists>bs. os_tree s' (''results.jsonl'' # final) = Some (File (lines_text bs)) \<and>
          length bs = length lines \<and> Split (lines_text bs) LF = bs @ [[]])) \<and>
    (healthy C \<and> jsonl num lines \<noteq> None \<and> (\<forall>rep. legacy = Some rep \<longrightarrow> json_of_report num rep \<noteq> None) \<longrightarrow> r = Inr final)"
proof -
  let ?w = "AppendPhaseResults rows w" and ?base = "abs_path cwd runsRoot"
  let ?lines = "concat (map (phaseResultToLong runID) rows)"
  note w = NewRunWriter_spec [OF assms(1,2)]
  have d: "rw_PartialDir ?w = (runID @ ''.partial'') # ?base" "rw_FinalDir ?w = runID # ?base"
    "runID @ ''.partial'' \<noteq> runID" "subtree ((runID @ ''.partial'') # ?base) (os_tree s1) = [[] \<mapsto> Dir]"
    using w by simp_all
  have lines: "rw_lines ?w = ?lines" using w by (simp add: AppendPhaseResults_lines)
  note F = Finalize_whole [OF assms(3) d refl, unfolded lines]
  have split: "\<exists>bs. os_tree s' (''results.jsonl'' # runID # ?base) = Some (File (lines_text bs)) \<and>
      length bs = length ?lines \<and> Split (lines_text bs) LF = bs @ [[]]" if "r = Inr dir" for dir
  proof -
    from F(2) that obtain bs where bs: "jsonl num ?lines = Some bs"
      and t: "subtree (runID # ?base) (os_tree s') = run_files num legacy (final_manifest fin engines ?w) ?lines" by auto
    from fun_cong [OF t, of "[''results.jsonl'']"] bs have "os_tree s' (''results.jsonl'' # runID # ?base) = Some (File (lines_text bs))"
      by (auto simp: subtree_def run_files_def split: option.splits)
    moreover have "length bs = length ?lines" using those_length [OF bs [unfolded jsonl_def]] by simp
    ultimately show ?thesis using Split_lines [OF jsonl_LF [OF bs assms(4)]] by blast
  qed
  have ok: "r = Inr (runID # ?base)"
    if "healthy C" "jsonl num ?lines \<noteq> None" "\<forall>rep. legacy = Some rep \<longrightarrow> json_of_report num rep \<noteq> None"
    using Finalize_succeeds [OF that(1) d NewRunWriter_base [OF assms(1,2)], of num legacy fin engines] that lines assms(3) by simp
  show ?thesis
    unfolding Let_def
    by (intro conjI [OF F(1)] conjI allI impI) (use F(2) split ok in blast)+
qed

lemma quiet_healthy: "healthy quiet_calls"
  by (simp add: healthy_def quiet_calls_def)

lemma ref_paths: "abs_path [] ''/runs'' = [''runs'']" "plain_name ''r1''"
  by (simp_all add: abs_path_def plain_name_def)

theorem run_published_whole_witness:
  "\<exists>w s1 w' s' bs. NewRunWriter quiet_calls [] ref_time ''/runs'' ''r1'' (run_manifest ref_harness ref_flags Map.empty) (a_os ref_app) =
       (Inr w, s1) \<and>
     Finalize quiet_calls (\<lambda>_ :: rat. Some ''0'') ref_time None [] (AppendPhaseResults [result ''p'' ''x'' 1 5000 [] []] w) s1 =
       (Inr [''r1'', ''runs''], w', s') \<and>
     os_tree s' [''results.jsonl'', ''r1'', ''runs''] = Some (File (lines_text bs)) \<and> length bs = 2"
proof -
  let ?C = quiet_calls and ?num = "\<lambda>_ :: rat. Some ''0''" and ?rows = "[result ''p'' ''x'' 1 5000 [] []] :: rat phaseResult list"
  have "\<forall>q. suffix q (abs_path [] ''/runs'') \<longrightarrow> \<not> is_file (os_tree (a_os ref_app) q)"
    by (auto simp: ref_app_def is_file_def)
  from NewRunWriter_succeeds [OF quiet_healthy _ ref_paths(2) this] obtain w :: "rat RunWriter" and s1 where
    n: "NewRunWriter ?C [] ref_time ''/runs'' ''r1'' (run_manifest ref_harness ref_flags Map.empty) (a_os ref_app) = (Inr w, s1)" by blast
  obtain r w' s' where f: "Finalize ?C ?num ref_time None [] (AppendPhaseResults ?rows w) s1 = (r, w', s')" by (metis prod_cases3)
  have "\<forall>x n. ?num x = Some n \<longrightarrow> LF \<notin> set n" by auto
  note P = run_published_whole [OF n ref_paths(2) f this, unfolded Let_def ref_paths(1)]
  have "jsonl ?num (concat (map (phaseResultToLong ''r1'') ?rows)) \<noteq> None" by (rule json_total) simp
  with quiet_healthy have r: "r = Inr [''r1'', ''runs'']" by (intro conjunct2 [OF conjunct2 [OF P], rule_format]) simp_all
  note D = conjunct1 [OF conjunct2 [OF P], rule_format, OF r]
  have "length (concat (map (phaseResultToLong ''r1'') ?rows)) = 2"
    by (simp add: phaseResultToLong_def result_def Let_def)
  with D obtain bs where "os_tree s' [''results.jsonl'', ''r1'', ''runs''] = Some (File (lines_text bs))" "length bs = 2" by metis
  with n f r show ?thesis by blast
qed

text \<open>
  C36. The exit status means what it says: when \<^verbatim>\<open>main\<close> returns or stops in the integrity gate, it has run
  the selected profiles to rows of which there is at least one, the exit code is 0 exactly if no row is an
  integrity failure, standard output has the table of these rows, and with \<^verbatim>\<open>-runs-root\<close> the run directory
  holds exactly these rows, in both cases. The run identifier must be a plain name, and the flat report must
  not be written into the staging directory.
\<close>

theorem exit_status_meaning:
  assumes "bench_main H F s = Some (st, s')" "st = Exit_ok \<or> st = Exit_integrity" "plain_name (run_id H F)"
    and "f_out F = [] \<or> \<not> suffix (staging_dir H F) (abs_path (h_cwd H) (f_out F))"
  shows "\<exists>tmp want p cp s1 s2 rows man.
    wanted F = Inr want \<and> run_all (all_runs (sized H F) F tmp want p cp) s1 = Some (Done rows, s2) \<and> rows \<noteq> [] \<and>
    (exit_code st = 0 \<longleftrightarrow> \<not> hasIntegrityFail rows) \<and>
    a_out s' = a_out s @ printTable (h_verbs H) (b_rng (h_bench H)) (h_sort H) rows @
      (if f_out F = [] then [] else [[], ''Wrote '' @ f_out F]) \<and>
    (f_runsRoot F \<noteq> [] \<longrightarrow>
       subtree (final_dir H F) (os_tree (a_os s')) =
         run_files (h_num H) (Some (main_report H F rows)) man (concat (map (phaseResultToLong (run_id H F)) rows)))"
proof -
  have "exit_code st = 0 \<longleftrightarrow> st \<noteq> Exit_integrity" using assms(2) by auto
  with bench_main_verdict [OF assms] show ?thesis by metis
qed

lemma ref_run_wanted: "wanted ref_flags = Inr [''sqlite_wal_normal'']"
  by code_simp

text \<open>The reference harness on one SQLite profile, evaluated to its rows.\<close>

lemma show_zero: "show_nat 0 = ''0''"
  by code_simp

lemma ref_all_runs:
  "all_runs ref_harness ref_flags ''/tmp/b'' [''sqlite_wal_normal''] p cp =
     [on_sql (benchSQLite ref_sql (\<lambda>_ _. 2000000) ''/tmp/b/sqlite_0.db'' normal_profile (memoir_keys 1) (chunk_keys 2) p cp 1),
      on_sql (benchSQLitePostRestart ref_sql (\<lambda>_ _. 2000000) ''/tmp/b/restart_sqlite_normal.db'' normal_profile
        (memoir_keys 1) (chunk_keys 2) p cp)]"
  by (simp add: all_runs_def Let_def f4kvs_runs_def f4kvs_restarts_def sqlite_restarts_def sqlite_profiles_def
      wantProfile_def skip_per_commit_def ref_flags_def ref_harness_def ref_bench_def sub_dir_def full_profile_def normal_profile_def
      show_zero)

lemma ref_sql_fields:
  "q_open ref_sql dsn = None"
  "q_exec ref_sql dsn insert_sql [k, v] d =
     (if map_of (d dsn) k = None then (None, d(dsn := (k, v) # d dsn)) else (Some ref_sql_error, d))"
  "q_exec ref_sql dsn create_sql [] d = (None, d(dsn := []))"
  "q_begin ref_sql dsn d = (None, d)" "q_prepare ref_sql dsn sql d = (None, d)" "q_commit ref_sql dsn d = (None, d)"
  "q_query ref_sql dsn select_sql [k] d = (Inr (map Inr (case map_of (d dsn) k of None \<Rightarrow> [] | Some v \<Rightarrow> [v])), d)"
  "q_query ref_sql dsn like_sql [k] d = (Inr (map (\<lambda>kv. Inr (fst kv)) (d dsn)), d)"
  "q_count ref_sql dsn sql d = (Inr (length (remdups (map fst (d dsn)))), d)"
  "q_close ref_sql dsn d = (None, d)" "q_remove ref_sql f d = d"
  by (simp_all add: ref_sql_def create_sql_def insert_sql_def select_sql_def like_sql_def comp_def)

lemma key_lists: "memoir_keys 1 = [memoirKey 0]" "chunk_keys 2 = [chunkKey 0, chunkKey 1]"
  by (simp_all add: memoir_keys_def chunk_keys_def upt_rec)

lemma ref_sqlite_rows:
  "\<exists>rows d'. benchSQLite ref_sql (\<lambda>_ _. 2000000) path prof (memoir_keys 1) (chunk_keys 2) p cp 1 d =
     Some (Done (rows :: rat phaseResult list), d')"
  unfolding key_lists
  by (simp add: benchSQLite_def benchSQLiteChunkBatched_def with_db_def Let_def db_Exec_def must_def and_then_def
      sqliteBatchPut_def insert_each_stmt_each db_QueryRow_def sql_scan_def ref_sql_fields)

lemma ref_sqlite_restart:
  "\<exists>rows d'. benchSQLitePostRestart ref_sql (\<lambda>_ _. 2000000) path prof (memoir_keys 1) (chunk_keys 2) p cp d =
     Some (Done (rows :: rat phaseResult list), d') \<and> rows \<noteq> []"
  unfolding key_lists
  by (simp add: benchSQLitePostRestart_def sql_count_again_def must_close_db_def Let_def db_Exec_def and_then_def
      sqliteBatchPut_def ref_sql_fields restart_rows_def)

lemma ref_main_runs:
  "\<exists>st s'. bench_main ref_harness ref_flags ref_app = Some (st, s') \<and> (st = Exit_ok \<or> st = Exit_integrity)"
proof -
  let ?H = ref_harness and ?F = ref_flags and ?W = "[''sqlite_wal_normal'']"
  have "\<not> too_large (h_maxAlloc ?H) ?F" by (simp add: too_large_def ref_harness_def ref_flags_def)
  then obtain p cp where pc: "main_payloads ?H ?F = Some (p, cp)" using main_payloads_panics [of ?H ?F] by auto
  have sz: "sized ?H ?F = ?H" by (simp add: sized_def ref_harness_def ref_flags_def ref_bench_def)
  obtain r1 d1 where 1: "benchSQLite ref_sql (\<lambda>_ _. 2000000) ''/tmp/b/sqlite_0.db'' normal_profile (memoir_keys 1) (chunk_keys 2)
      p cp 1 (a_sql ref_app) = Some (Done (r1 :: rat phaseResult list), d1)" using ref_sqlite_rows by blast
  obtain r2 d2 where 2: "benchSQLitePostRestart ref_sql (\<lambda>_ _. 2000000) ''/tmp/b/restart_sqlite_normal.db'' normal_profile
      (memoir_keys 1) (chunk_keys 2) p cp d1 = Some (Done (r2 :: rat phaseResult list), d2)" "r2 \<noteq> []"
    using ref_sqlite_restart by blast
  have run: "\<exists>s2. run_all (all_runs ?H ?F ''/tmp/b'' ?W p cp) s1 = Some (Done (r1 @ r2), s2)"
    if "a_sql s1 = a_sql ref_app" for s1
    using that 1 2 by (simp add: ref_all_runs on_sql_def and_then_def)
  have "healthy (h_calls ?H)" "\<And>x. h_num ?H x \<noteq> None" "f_out ?F = []" "f_runsRoot ?F \<noteq> []" "plain_name (run_id ?H ?F)"
    "\<forall>q. suffix q (abs_path (h_cwd ?H) (f_runsRoot ?F)) \<longrightarrow> \<not> is_file (os_tree (a_os ref_app) q)"
    by (auto simp: ref_harness_def ref_flags_def quiet_healthy run_id_def plain_NewRunID ref_app_def is_file_def)
  from main_body_succeeds [where tmp = "''/tmp/b''" and want = ?W and rows = "r1 @ r2" and p = p and cp = cp, OF this] run 2(2)
  obtain failed s' where
    "main_body ?H ?F ?W p cp ''/tmp/b'' ref_app = Some (Done failed, s')" by auto
  moreover have "h_tmp ?H = Inr ''/tmp/b''" by (simp add: ref_harness_def)
  ultimately show ?thesis by (simp add: bench_main_def sz ref_run_wanted pc)
qed

theorem exit_status_meaning_witness:
  "\<exists>st s' rows man. bench_main ref_harness ref_flags ref_app = Some (st, s') \<and> rows \<noteq> [] \<and>
     (exit_code st = 0 \<longleftrightarrow> \<not> hasIntegrityFail rows) \<and>
     subtree (final_dir ref_harness ref_flags) (os_tree (a_os s')) =
       run_files (h_num ref_harness) (Some (main_report ref_harness ref_flags rows)) man
         (concat (map (phaseResultToLong (run_id ref_harness ref_flags)) rows))"
proof -
  obtain st s' where m: "bench_main ref_harness ref_flags ref_app = Some (st, s')" "st = Exit_ok \<or> st = Exit_integrity"
    using ref_main_runs by blast
  have "plain_name (run_id ref_harness ref_flags)" "f_out ref_flags = []" "f_runsRoot ref_flags \<noteq> []"
    by (simp_all add: run_id_def ref_flags_def plain_NewRunID)
  with exit_status_meaning [OF m this(1) disjI1] m(1) show ?thesis by metis
qed

section \<open>The drivers\<close>



text \<open>
  C38. A measurement of the engine is complete: \<^verbatim>\<open>benchF4KVS\<close> returns, ends in \<^verbatim>\<open>fatal\<close>, or panics, the last
  only if point reads are asked for and a key list is empty; when it returns, its rows are the phases of
  the selected path, in order, every engine it opened is closed and the C heap is as before.
\<close>

theorem driver_measures_all_phases:
  assumes "bench_ok B" "reg_inv w" "good_dir dir"
  shows "\<exists>out w'. (benchF4KVS B dir profile durability opts mk ck mp cp gets skip w
      :: (('f :: linordered_field) phaseResult list, _) run) = Some (out, w') \<and>
    (\<forall>msg. out = Panic msg \<longrightarrow> 0 < gets \<and> (mk = [] \<or> ck = []) \<and> heap w' = heap w) \<and>
    (\<forall>rows. out = Done rows \<longrightarrow>
       map pr_Phase rows =
         [''memoir_batch_put'', ''memoir_random_get''] @
         (if \<not> skip then
            [''chunk_batch_put''] @
            (if usesGroupCommit (openOptsForProfile (b_size B) opts (int (length ck)))
             then [''chunk_batch_put_flush'', ''chunk_batch_put_durable''] else []) @
            [''chunk_batch_put_batched'', ''chunk_batch_put_bulk_import'']
          else if usesGroupCommit (openOptsForProfile (b_size B) opts (int (length ck)))
          then [''chunk_put_group_commit'', ''chunk_batch_put_batched'']
          else [''chunk_batch_put_batched''] @ (if 0 < b_size B then [''chunk_batch_put_bulk_import''] else [])) @
         [''chunk_prefix_scan'', ''chunk_random_get''] \<and>
       (0 < gets \<longrightarrow> mk \<noteq> [] \<and> ck \<noteq> []) \<and> heap w' = heap w \<and> reg_inv w')"
proof -
  obtain out w' where r: "(benchF4KVS B dir profile durability opts mk ck mp cp gets skip w :: ('f phaseResult list, _) run) = Some (out, w')"
    "ends (0 < gets \<and> (mk = [] \<or> ck = []))
      (\<lambda>rows. phases_of rows = driver_phases skip (usesGroupCommit (openOptsForProfile (b_size B) opts (int (length ck)))) (0 < b_size B) \<and>
         (0 < gets \<longrightarrow> mk \<noteq> [] \<and> ck \<noteq> [])) (heap w' = heap w \<and> reg_inv w') out"
    using benchF4KVS_safe [OF assms] unfolding safe_world_def by blast
  show ?thesis
    by (intro exI conjI, rule r(1)) (use r(2) in \<open>cases out; simp add: phases_of_def driver_phases_def\<close>)+
qed

theorem driver_measures_all_phases_witness:
  "\<exists>out w'. (benchF4KVS (ref_bench [] 500) ''/tmp/b'' ''p'' ''d'' None [''a''] [] ''m'' ''c'' 3 False (ref_world 5)
      :: (rat phaseResult list, _) run) = Some (out, w') \<and> (\<forall>rows. out \<noteq> Done rows)"
proof -
  from driver_measures_all_phases [where profile = "''p''" and durability = "''d''" and opts = None and mk = "[''a'']" and ck = "[]"
      and mp = "''m''" and cp = "''c''" and gets = 3 and skip = False, OF ref_bench_ok [of "[]" 500] ref_world_inv [of 5] ref_good_dir]
  obtain out w' where "(benchF4KVS (ref_bench [] 500) ''/tmp/b'' ''p'' ''d'' None [''a''] [] ''m'' ''c'' 3 False (ref_world 5)
      :: (rat phaseResult list, _) run) = Some (out, w')" "\<forall>rows. out \<noteq> Done rows"
    by (elim exE conjE) auto
  then show ?thesis by blast
qed

section \<open>The SQLite peer\<close>

text \<open>
  C39. The two write modes of the SQLite peer, one statement per commit and one transaction, on an idle pool
  over a database each of whose calls may fail. Both return. One that succeeds had distinct and new keys and
  leaves the table with all of them, the same table in both modes, and an idle pool; the transaction has
  also saved it. Where nothing fails but the insert of a key that is there, both succeed on distinct and
  new keys. They differ in an error: the statements leave the pool idle; the transaction leaves it taken
  exactly if it began and its \<^verbatim>\<open>Prepare\<close> or one of its inserts failed, and then every further use waits for
  ever. After an error of \<^verbatim>\<open>Begin\<close> or \<^verbatim>\<open>Commit\<close> the pool is idle.
\<close>

theorem sqlite_modes_agree:
  assumes "sql_laws Q rows saved" "\<not> db_busy db"
  shows "\<exists>r1 d1 r2 db2 d2.
    sqliteBatchPut Q True keys payload (db, d) = Some (r1, (db, d1)) \<and>
    sqliteBatchPut Q False keys payload (db, d) = Some (r2, (db2, d2)) \<and>
    (r1 = None \<or> r2 = None \<longrightarrow> distinct keys \<and> set keys \<inter> dom (rows (db_dsn db) d) = {}) \<and>
    (r1 = None \<longrightarrow> rows (db_dsn db) d1 = (\<lambda>k. if k \<in> set keys then Some payload else rows (db_dsn db) d k)) \<and>
    (r2 = None \<longrightarrow> rows (db_dsn db) d2 = (\<lambda>k. if k \<in> set keys then Some payload else rows (db_dsn db) d k) \<and>
       saved (db_dsn db) d2 = rows (db_dsn db) d2 \<and> db2 = db) \<and>
    (sql_healthy Q rows \<and> distinct keys \<and> set keys \<inter> dom (rows (db_dsn db) d) = {} \<longrightarrow> r1 = None \<and> r2 = None) \<and>
    (db_busy db2 \<longleftrightarrow>
       (let (begun, d3) = q_begin Q (db_dsn db) d; (prepared, d4) = q_prepare Q (db_dsn db) insert_sql d3 in
        begun = None \<and> (prepared \<noteq> None \<or> fst (stmt_each Q (db_dsn db) keys payload d4) \<noteq> None))) \<and>
    (if db_busy db2 then r2 \<noteq> None \<and> (\<forall>sql args. db_Exec Q sql args (db2, d2) = None) else db2 = db)"
proof -
  let ?dsn = "db_dsn db"
  obtain r1 d1 where 1: "stmt_each Q ?dsn keys payload d = (r1, d1)" by force
  note single = sqliteBatchPut_single [OF assms(2) 1]
  obtain r2 d2 where tx: "sqliteBatchPut Q False keys payload (db, d) =
      Some (r2, (if left_open Q ?dsn keys payload d then db\<lparr>db_busy := True\<rparr> else db, d2))" (is "_ = Some (r2, (?db2, d2))")
    and lo: "left_open Q ?dsn keys payload d \<longrightarrow> r2 \<noteq> None"
    using sqliteBatchPut_tx [OF assms(2), of Q keys payload d] by blast
  have rows1: "r1 = None \<longrightarrow> all_new keys (rows ?dsn d) \<and> rows ?dsn d1 = with_keys keys payload (rows ?dsn d)"
    using sqliteBatchPut_rows [OF assms] single by blast
  have rows2: "r2 = None \<longrightarrow> all_new keys (rows ?dsn d) \<and> ?db2 = db \<and>
      rows ?dsn d2 = with_keys keys payload (rows ?dsn d) \<and> saved ?dsn d2 = rows ?dsn d2"
    using sqliteBatchPut_rows [OF assms, of False keys payload d ?db2 d2] tx by simp
  have healthy: "sql_healthy Q rows \<and> all_new keys (rows ?dsn d) \<longrightarrow> r1 = None \<and> r2 = None"
    using sqliteBatchPut_healthy [OF assms(1) _ assms(2), of keys d True payload]
      sqliteBatchPut_healthy [OF assms(1) _ assms(2), of keys d False payload] single tx by auto
  have busy: "db_busy ?db2 \<longleftrightarrow> left_open Q ?dsn keys payload d" using assms(2) by simp
  show ?thesis
  proof (rule exI [of _ r1], rule exI [of _ d1], rule exI [of _ r2], rule exI [of _ ?db2], rule exI [of _ d2],
      intro conjI)
    show "sqliteBatchPut Q True keys payload (db, d) = Some (r1, (db, d1))" by (rule single)
    show "sqliteBatchPut Q False keys payload (db, d) = Some (r2, (?db2, d2))" by (rule tx)
    show "r1 = None \<or> r2 = None \<longrightarrow> distinct keys \<and> set keys \<inter> dom (rows ?dsn d) = {}"
      using rows1 rows2 unfolding all_new_def by blast
    show "r1 = None \<longrightarrow> rows ?dsn d1 = (\<lambda>k. if k \<in> set keys then Some payload else rows ?dsn d k)"
      using rows1 unfolding with_keys_def by blast
    show "r2 = None \<longrightarrow> rows ?dsn d2 = (\<lambda>k. if k \<in> set keys then Some payload else rows ?dsn d k) \<and>
        saved ?dsn d2 = rows ?dsn d2 \<and> ?db2 = db"
      using rows2 unfolding with_keys_def by blast
    show "sql_healthy Q rows \<and> distinct keys \<and> set keys \<inter> dom (rows ?dsn d) = {} \<longrightarrow> r1 = None \<and> r2 = None"
      using healthy unfolding all_new_def by blast
    show "if db_busy ?db2 then r2 \<noteq> None \<and> (\<forall>sql args. db_Exec Q sql args (?db2, d2) = None) else ?db2 = db"
      using lo by (simp add: busy_blocks(1) assms(2))
    show "db_busy ?db2 \<longleftrightarrow>
        (let (begun, d3) = q_begin Q ?dsn d; (prepared, d4) = q_prepare Q ?dsn insert_sql d3 in
         begun = None \<and> (prepared \<noteq> None \<or> fst (stmt_each Q ?dsn keys payload d4) \<noteq> None))"
      by (rule trans [OF busy left_open_def])
  qed
qed

theorem sqlite_modes_agree_witness:
  "(\<exists>s1 db2 d2. sqliteBatchPut ref_sql True [''a'', ''b''] ''v'' (\<lparr>db_dsn = ''f'', db_busy = False\<rparr>, \<lambda>_. []) = Some (None, s1) \<and>
      sqliteBatchPut ref_sql False [''a'', ''b''] ''v'' (\<lparr>db_dsn = ''f'', db_busy = False\<rparr>, \<lambda>_. []) = Some (None, (db2, d2)) \<and>
      ref_rows ''f'' d2 = [''a'' \<mapsto> ''v'', ''b'' \<mapsto> ''v'']) \<and>
   (\<exists>r1 s1 r2 s2. sqliteBatchPut ref_sql True [''a'', ''a''] ''v'' (\<lparr>db_dsn = ''f'', db_busy = False\<rparr>, \<lambda>_. []) = Some (r1, s1) \<and>
      sqliteBatchPut ref_sql False [''a'', ''a''] ''v'' (\<lparr>db_dsn = ''f'', db_busy = False\<rparr>, \<lambda>_. []) = Some (r2, s2) \<and>
      r1 \<noteq> None \<and> r2 \<noteq> None \<and> db_Exec ref_sql insert_sql [''b'', ''v''] s2 = None) \<and>
   (\<exists>r2 db2 d2. sqliteBatchPut locked_sql False [''a''] ''v'' (\<lparr>db_dsn = ''f'', db_busy = False\<rparr>, \<lambda>_. []) = Some (r2, (db2, d2)) \<and>
      \<not> db_busy db2)"
proof -
  let ?db = "\<lparr>db_dsn = ''f'', db_busy = False\<rparr>"
  have idle: "\<not> db_busy ?db" by simp
  have new: "distinct [''a'', ''b''] \<and> set [''a'', ''b''] \<inter> dom (ref_rows (db_dsn ?db) (\<lambda>_. [])) = {}"
    by (simp add: ref_rows_def)
  obtain r1 d1 r2 db2 d2 where ok:
    "sqliteBatchPut ref_sql True [''a'', ''b''] ''v'' (?db, \<lambda>_. []) = Some (r1, (?db, d1))"
    "sqliteBatchPut ref_sql False [''a'', ''b''] ''v'' (?db, \<lambda>_. []) = Some (r2, (db2, d2))"
    "r2 = None \<longrightarrow> ref_rows (db_dsn ?db) d2 =
       (\<lambda>k. if k \<in> set [''a'', ''b''] then Some ''v'' else ref_rows (db_dsn ?db) (\<lambda>_. []) k) \<and>
       ref_rows (db_dsn ?db) d2 = ref_rows (db_dsn ?db) d2 \<and> db2 = ?db"
    "sql_healthy ref_sql ref_rows \<and> distinct [''a'', ''b''] \<and> set [''a'', ''b''] \<inter> dom (ref_rows (db_dsn ?db) (\<lambda>_. [])) = {} \<longrightarrow>
       r1 = None \<and> r2 = None"
    using sqlite_modes_agree [OF ref_sql_laws idle, of "[''a'', ''b'']" "''v''" "\<lambda>_. []"] by (elim exE conjE) (rule that; assumption)
  with ref_sql_healthy new have r: "r1 = None" "r2 = None" by blast+
  obtain r3 d3 r4 db4 d4 where twice:
    "sqliteBatchPut ref_sql True [''a'', ''a''] ''v'' (?db, \<lambda>_. []) = Some (r3, (?db, d3))"
    "sqliteBatchPut ref_sql False [''a'', ''a''] ''v'' (?db, \<lambda>_. []) = Some (r4, (db4, d4))"
    "r3 = None \<or> r4 = None \<longrightarrow>
       distinct [''a'', ''a''] \<and> set [''a'', ''a''] \<inter> dom (ref_rows (db_dsn ?db) (\<lambda>_. [])) = {}"
    "db_busy db4 \<longleftrightarrow> (let (begun, d3) = q_begin ref_sql (db_dsn ?db) (\<lambda>_. []);
         (prepared, d4) = q_prepare ref_sql (db_dsn ?db) insert_sql d3 in
       begun = None \<and> (prepared \<noteq> None \<or> fst (stmt_each ref_sql (db_dsn ?db) [''a'', ''a''] ''v'' d4) \<noteq> None))"
    "if db_busy db4 then r4 \<noteq> None \<and> (\<forall>sql args. db_Exec ref_sql sql args (db4, d4) = None) else db4 = ?db"
    using sqlite_modes_agree [OF ref_sql_laws idle, of "[''a'', ''a'']" "''v''" "\<lambda>_. []"]
    by (elim exE conjE) (rule that; assumption)
  have "fst (stmt_each ref_sql ''f'' [''a'', ''a''] ''v'' (\<lambda>_. [])) \<noteq> None" by (simp add: ref_sql_def)
  then have "db_busy db4" using twice(4) by (simp add: ref_sql_def)
  obtain r6 db6 d6 where locked:
    "sqliteBatchPut locked_sql False [''a''] ''v'' (?db, \<lambda>_. []) = Some (r6, (db6, d6))"
    "db_busy db6 \<longleftrightarrow> (let (begun, d3) = q_begin locked_sql (db_dsn ?db) (\<lambda>_. []);
         (prepared, d4) = q_prepare locked_sql (db_dsn ?db) insert_sql d3 in
       begun = None \<and> (prepared \<noteq> None \<or> fst (stmt_each locked_sql (db_dsn ?db) [''a''] ''v'' d4) \<noteq> None))"
    using sqlite_modes_agree [OF locked_sql_laws idle, of "[''a'']" "''v''" "\<lambda>_. []"]
    by (elim exE conjE) (rule that; assumption)
  have "ref_rows ''f'' d2 = [''a'' \<mapsto> ''v'', ''b'' \<mapsto> ''v'']" using ok(3) r by (simp add: fun_eq_iff ref_rows_def)
  with ok(1,2) r have 1: "\<exists>s1 db2 d2. sqliteBatchPut ref_sql True [''a'', ''b''] ''v'' (?db, \<lambda>_. []) = Some (None, s1) \<and>
      sqliteBatchPut ref_sql False [''a'', ''b''] ''v'' (?db, \<lambda>_. []) = Some (None, (db2, d2)) \<and>
      ref_rows ''f'' d2 = [''a'' \<mapsto> ''v'', ''b'' \<mapsto> ''v'']" by blast
  have 2: "\<exists>r1 s1 r2 s2. sqliteBatchPut ref_sql True [''a'', ''a''] ''v'' (?db, \<lambda>_. []) = Some (r1, s1) \<and>
      sqliteBatchPut ref_sql False [''a'', ''a''] ''v'' (?db, \<lambda>_. []) = Some (r2, s2) \<and>
      r1 \<noteq> None \<and> r2 \<noteq> None \<and> db_Exec ref_sql insert_sql [''b'', ''v''] s2 = None"
    using twice(1-3,5) \<open>db_busy db4\<close> by auto
  have "\<not> db_busy db6" using locked(2) by (simp add: locked_sql_def split: prod.splits)
  with 1 2 locked(1) show ?thesis by blast
qed

section \<open>The program\<close>

text \<open>
  C40. The program ends: for all flags \<^verbatim>\<open>main\<close> returns a status, whatever the library, the database and the file
  system answer, provided these answer (a call that hangs in one of them is outside the model), memory within
  the limit of the runtime can be had, replies are bounded and the temporary directory has a usable name.
  It panics only if a payload or key list is larger than \<^verbatim>\<open>make\<close> accepts or has a negative length, or if
  point reads are asked for and there are no memoirs or no chunks; in the first case it does panic, before
  it has done anything. When it returns or stops in the integrity gate no C memory is left allocated.
\<close>

theorem harness_ends:
  assumes "bench_ok (h_bench H)" "reg_inv (a_world s)" "\<forall>tmp. h_tmp H = Inr tmp \<longrightarrow> good_dir tmp"
  shows "\<exists>st s'. bench_main H F s = Some (st, s') \<and>
    (\<forall>msg. st = Exit_panic msg \<longrightarrow> too_large (h_maxAlloc H) F \<or>
       0 < f_randomGets F \<and> (f_memoirs F = 0 \<or> f_chunks F = 0)) \<and>
    ((\<exists>want. wanted F = Inr want) \<and> too_large (h_maxAlloc H) F \<longrightarrow>
       st = Exit_panic ''runtime error: makeslice: len out of range'' \<and> s' = s) \<and>
    (st = Exit_ok \<or> st = Exit_integrity \<longrightarrow> heap (a_world s') = heap (a_world s))"
proof -
  from bench_main_ends [OF assms, of F] obtain st s' where
    r: "bench_main H F s = Some (st, s')" "st = Exit_ok \<or> st = Exit_integrity \<longrightarrow> heap (a_world s') = heap (a_world s)"
      "\<forall>msg. st = Exit_panic msg \<longrightarrow> too_large (h_maxAlloc H) F \<or> bad_gets F"
      "\<not> isl (wanted F) \<and> too_large (h_maxAlloc H) F \<longrightarrow> st = Exit_panic makeslice_panic \<and> s' = s" by blast
  from r(4) have "(\<exists>want. wanted F = Inr want) \<and> too_large (h_maxAlloc H) F \<longrightarrow>
      st = Exit_panic ''runtime error: makeslice: len out of range'' \<and> s' = s"
    by (auto simp: makeslice_panic_def)
  with r(1-3) show ?thesis unfolding bad_gets_def by blast
qed

theorem harness_ends_witness:
  "(\<exists>st s'. bench_main ref_harness (ref_flags\<lparr>f_profiles := ''all'', f_fair := True\<rparr>) ref_app = Some (st, s') \<and> exit_code st \<noteq> 2) \<and>
   bench_main ref_harness (ref_flags\<lparr>f_profiles := ''all'', f_memoirs := 2 ^ 62\<rparr>) ref_app =
     Some (Exit_panic ''runtime error: makeslice: len out of range'', ref_app)"
proof -
  have h: "bench_ok (h_bench ref_harness)" "reg_inv (a_world ref_app)" "\<forall>tmp. h_tmp ref_harness = Inr tmp \<longrightarrow> good_dir tmp"
    by (simp_all add: ref_harness_def ref_bench_ok ref_app_def ref_world_inv ref_good_dir)
  let ?F = "ref_flags\<lparr>f_profiles := ''all'', f_fair := True\<rparr>" and ?G = "ref_flags\<lparr>f_profiles := ''all'', f_memoirs := 2 ^ 62\<rparr>"
  from harness_ends [OF h, of ?F] obtain st s' where 1: "bench_main ref_harness ?F ref_app = Some (st, s')"
    "\<forall>msg. st = Exit_panic msg \<longrightarrow> too_large (h_maxAlloc ref_harness) ?F \<or> 0 < f_randomGets ?F \<and> (f_memoirs ?F = 0 \<or> f_chunks ?F = 0)"
    by (elim exE conjE) (rule that; assumption)
  have "\<not> too_large (h_maxAlloc ref_harness) ?F" "f_memoirs ?F \<noteq> 0 \<and> f_chunks ?F \<noteq> 0"
    by (simp_all add: too_large_def ref_harness_def ref_flags_def)
  with 1(2) have "exit_code st \<noteq> 2" by (cases st) auto
  moreover have "too_large (h_maxAlloc ref_harness) ?G" by (simp add: too_large_def ref_harness_def ref_flags_def)
  moreover have "\<exists>want. wanted ?G = Inr want"
    by (simp add: wanted_def ref_flags_def parseProfiles_def TrimSpace_id graphic_def)
  moreover note harness_ends [OF h, of ?G]
  ultimately show ?thesis using 1(1) by (elim exE conjE) blast
qed

end
