(* ===== verification/Ffi_Kv.thy ===== *)
theory Ffi_Kv
  imports Ffi_Scan
begin

text \<open>
  The length-prefixed functions of \<^verbatim>\<open>lib.rs\<close> (\<^verbatim>\<open>f4kvs_engine_get_kv\<close> and its siblings): keys are a pointer and
  a length, so they may contain NUL bytes. Arrays of the caller are passed by content, \<^const>\<open>None\<close> for NULL,
  as in \<^verbatim>\<open>Ffi_Engine\<close>.
\<close>

record F4KvsScanResultKv =
  skv_pairs :: addr
  skv_count :: nat

section \<open>Keys\<close>

definition key_from_bytes ::
  "tid \<Rightarrow> bytes \<Rightarrow> bytes \<Rightarrow> ('x, 'c) world \<Rightarrow> (F4KvsResult + bytes) \<times> ('x, 'c) world" where
  "key_from_bytes t bs field w =
     (if MAX_KEY_LENGTH < length bs then
        (Inl ErrorInvalidArgument,
         set_last_error t
           (''Invalid argument: '' @ field @ '' exceeds maximum length of '' @
            show_nat MAX_KEY_LENGTH @ '' bytes'') w)
      else case from_utf8 bs of
        Inr s \<Rightarrow> (Inr s, w)
      | Inl e \<Rightarrow>
          (Inl ErrorInvalidArgument,
           set_last_error t (''Invalid UTF-8 in '' @ field @ '': '' @ show_utf8_error e) w))"

definition key_from_raw ::
  "tid \<Rightarrow> addr \<Rightarrow> nat \<Rightarrow> bytes \<Rightarrow> ('x, 'c) world \<Rightarrow> ((F4KvsResult + bytes) \<times> ('x, 'c) world) option" where
  "key_from_raw t p len field w =
     (if len = 0 then Some (Inr [], w)
      else if p = null then
        Some (Inl ErrorInvalidArgument, set_last_error t (''Invalid argument: '' @ field @ '' is null'') w)
      else do { bs \<leftarrow> slice_from_raw w p len; Some (key_from_bytes t bs field w) })"

section \<open>Single keys\<close>

text \<open>The synchronous read of the library, and the asynchronous one where it has none.\<close>

definition get_now ::
  "('x, 'c) env \<Rightarrow> eid \<Rightarrow> bytes \<Rightarrow> 'x \<Rightarrow> lsm_value option reply \<times> 'x" where
  "get_now E e k x =
     (case lsm_try_get_sync E e k x of
        (Some r, x1) \<Rightarrow> (r, x1)
      | (None, x1) \<Rightarrow> lsm_get E e k x1)"

definition f4kvs_engine_get_kv ::
  "('x, 'c) env \<Rightarrow> tid \<Rightarrow> addr \<Rightarrow> addr \<Rightarrow> nat \<Rightarrow> addr \<Rightarrow> addr \<Rightarrow> ('x, 'c) world \<Rightarrow>
   ((F4KvsResult \<times> (addr \<times> nat) option) \<times> ('x, 'c) world) option" where
  "f4kvs_engine_get_kv E t engine key key_len value_out value_len_out w =
     (if value_out = null \<or> value_len_out = null then
        Some ((ErrorInvalidArgument, None),
              set_last_error t ''Invalid argument: output pointer is null'' w)
      else do {
        (r, w1) \<leftarrow> validate_engine t engine w;
        case r of
          Inl c \<Rightarrow> Some ((c, None), w1)
        | Inr e \<Rightarrow> do {
            (rk, w2) \<leftarrow> key_from_raw t key key_len ''key'' w1;
            case rk of
              Inl c \<Rightarrow> Some ((c, None), w2)
            | Inr k \<Rightarrow>
                (case lsm_call (get_now E e k) w2 of
                   (Inr (Some v), w3) \<Rightarrow>
                     (let (p, w4) = allocate_bytes (allocator E) (value_to_bytes v) w3 in
                      Some ((Success, Some p), w4))
                 | (Inr None, w3) \<Rightarrow> Some ((ErrorNotFound, Some (null, 0)), w3)
                 | (Inl m, w3) \<Rightarrow>
                     Some ((ErrorStorage, None), set_last_error t (''Get kv failed: '' @ m) w3))
          }
      })"

definition f4kvs_engine_put_kv ::
  "('x, 'c) env \<Rightarrow> tid \<Rightarrow> addr \<Rightarrow> addr \<Rightarrow> nat \<Rightarrow> addr \<Rightarrow> nat \<Rightarrow> ('x, 'c) world \<Rightarrow>
   (F4KvsResult \<times> ('x, 'c) world) option" where
  "f4kvs_engine_put_kv E t engine key key_len val value_len w =
     do {
       (r, w1) \<leftarrow> validate_engine t engine w;
       case r of
         Inl c \<Rightarrow> Some (c, w1)
       | Inr e \<Rightarrow> do {
           (rk, w2) \<leftarrow> key_from_raw t key key_len ''key'' w1;
           case rk of
             Inl c \<Rightarrow> Some (c, w2)
           | Inr k \<Rightarrow>
               if MAX_VALUE_LENGTH < value_len then
                 Some (ErrorInvalidArgument,
                   set_last_error t
                     (''Invalid argument: value exceeds maximum length of '' @
                      show_nat MAX_VALUE_LENGTH @ '' bytes'') w2)
               else if 0 < value_len \<and> val = null then
                 Some (ErrorInvalidArgument, set_last_error t ''Invalid argument: value is null'' w2)
               else do {
                 bs \<leftarrow> (if value_len = 0 then Some [] else slice_from_raw w2 val value_len);
                 Some (unit_result t ''Put kv failed: '' (lsm_call (lsm_put E e k (VBytes bs)) w2))
               }
         }
     }"

definition f4kvs_engine_delete_kv ::
  "('x, 'c) env \<Rightarrow> tid \<Rightarrow> addr \<Rightarrow> addr \<Rightarrow> nat \<Rightarrow> ('x, 'c) world \<Rightarrow> (F4KvsResult \<times> ('x, 'c) world) option" where
  "f4kvs_engine_delete_kv E t engine key key_len w =
     do {
       (r, w1) \<leftarrow> validate_engine t engine w;
       case r of
         Inl c \<Rightarrow> Some (c, w1)
       | Inr e \<Rightarrow> do {
           (rk, w2) \<leftarrow> key_from_raw t key key_len ''key'' w1;
           case rk of
             Inl c \<Rightarrow> Some (c, w2)
           | Inr k \<Rightarrow> Some (unit_result t ''Delete kv failed: '' (lsm_call (lsm_delete E e k) w2))
         }
     }"

section \<open>Batches\<close>

text \<open>The loop over the four arrays; reading past one of them is stuck.\<close>

fun batch_put_kv_items ::
  "tid \<Rightarrow> nat \<Rightarrow> addr list \<Rightarrow> nat list \<Rightarrow> addr list \<Rightarrow> nat list \<Rightarrow> ('x, 'c) world \<Rightarrow>
   ((F4KvsResult + (bytes \<times> lsm_value) list) \<times> ('x, 'c) world) option" where
  "batch_put_kv_items t 0 ks kls vs vls w = Some (Inr [], w)"
| "batch_put_kv_items t (Suc n) (k # ks) (kl # kls) (v # vs) (vl # vls) w =
     do {
       (rk, w1) \<leftarrow> key_from_raw t k kl ''key'' w;
       case rk of
         Inl c \<Rightarrow> Some (Inl c, w1)
       | Inr key \<Rightarrow>
           if MAX_VALUE_LENGTH < vl then
             Some (Inl ErrorInvalidArgument,
               set_last_error t ''Invalid argument: value exceeds maximum length'' w1)
           else if 0 < vl \<and> v = null then
             Some (Inl ErrorInvalidArgument, set_last_error t ''Invalid argument: value is null'' w1)
           else do {
             bs \<leftarrow> (if vl = 0 then Some [] else slice_from_raw w1 v vl);
             (rest, w2) \<leftarrow> batch_put_kv_items t n ks kls vs vls w1;
             Some (case rest of Inl c \<Rightarrow> (Inl c, w2) | Inr items \<Rightarrow> (Inr ((key, VBytes bs) # items), w2))
           }
     }"
| "batch_put_kv_items t (Suc n) _ _ _ _ w = None"

definition f4kvs_engine_batch_put_kv ::
  "('x, 'c) env \<Rightarrow> tid \<Rightarrow> addr \<Rightarrow> addr list option \<Rightarrow> nat list option \<Rightarrow> addr list option \<Rightarrow> nat list option \<Rightarrow>
   nat \<Rightarrow> ('x, 'c) world \<Rightarrow> (F4KvsResult \<times> ('x, 'c) world) option" where
  "f4kvs_engine_batch_put_kv E t engine keys key_lens vals value_lens count w =
     do {
       (r, w1) \<leftarrow> validate_engine t engine w;
       case r of
         Inl c \<Rightarrow> Some (c, w1)
       | Inr e \<Rightarrow>
           (case reject_batch_count E t e count w1 of
              (Some c, w2) \<Rightarrow> Some (c, w2)
            | (None, w2) \<Rightarrow>
                if 0 < count \<and> (keys = None \<or> key_lens = None \<or> vals = None \<or> value_lens = None) then
                  Some (ErrorInvalidArgument,
                    set_last_error t ''Invalid argument: batch_put_kv pointer is null'' w2)
                else do {
                  (ri, w3) \<leftarrow> batch_put_kv_items t count (case_option [] id keys) (case_option [] id key_lens)
                    (case_option [] id vals) (case_option [] id value_lens) w2;
                  case ri of
                    Inl c \<Rightarrow> Some (c, w3)
                  | Inr items \<Rightarrow>
                      Some (unit_result t ''Batch put kv failed: '' (lsm_call (lsm_batch_put E e items) w3))
                })
     }"

fun batch_delete_kv_keys ::
  "tid \<Rightarrow> nat \<Rightarrow> addr list \<Rightarrow> nat list \<Rightarrow> ('x, 'c) world \<Rightarrow>
   ((F4KvsResult + bytes list) \<times> ('x, 'c) world) option" where
  "batch_delete_kv_keys t 0 ks kls w = Some (Inr [], w)"
| "batch_delete_kv_keys t (Suc n) (k # ks) (kl # kls) w =
     do {
       (rk, w1) \<leftarrow> key_from_raw t k kl ''key'' w;
       case rk of
         Inl c \<Rightarrow> Some (Inl c, w1)
       | Inr key \<Rightarrow> do {
           (rest, w2) \<leftarrow> batch_delete_kv_keys t n ks kls w1;
           Some (case rest of Inl c \<Rightarrow> (Inl c, w2) | Inr keys \<Rightarrow> (Inr (key # keys), w2))
         }
     }"
| "batch_delete_kv_keys t (Suc n) _ _ w = None"

definition f4kvs_engine_batch_delete_kv ::
  "('x, 'c) env \<Rightarrow> tid \<Rightarrow> addr \<Rightarrow> addr list option \<Rightarrow> nat list option \<Rightarrow> nat \<Rightarrow> ('x, 'c) world \<Rightarrow>
   (F4KvsResult \<times> ('x, 'c) world) option" where
  "f4kvs_engine_batch_delete_kv E t engine keys key_lens count w =
     do {
       (r, w1) \<leftarrow> validate_engine t engine w;
       case r of
         Inl c \<Rightarrow> Some (c, w1)
       | Inr e \<Rightarrow>
           (case reject_batch_count E t e count w1 of
              (Some c, w2) \<Rightarrow> Some (c, w2)
            | (None, w2) \<Rightarrow>
                if 0 < count \<and> (keys = None \<or> key_lens = None) then
                  Some (ErrorInvalidArgument,
                    set_last_error t ''Invalid argument: batch_delete_kv pointer is null'' w2)
                else do {
                  (rk, w3) \<leftarrow> batch_delete_kv_keys t count (case_option [] id keys) (case_option [] id key_lens) w2;
                  case rk of
                    Inl c \<Rightarrow> Some (c, w3)
                  | Inr ks \<Rightarrow>
                      Some (unit_result t ''Batch delete kv failed: '' (lsm_call (lsm_batch_delete E e ks) w3))
                })
     }"

section \<open>Scans\<close>

definition f4kvs_engine_scan_prefix_kv ::
  "('x, 'c) env \<Rightarrow> tid \<Rightarrow> addr \<Rightarrow> addr \<Rightarrow> nat \<Rightarrow> addr \<Rightarrow> ('x, 'c) world \<Rightarrow>
   ((F4KvsResult \<times> F4KvsScanResult option) \<times> ('x, 'c) world) option" where
  "f4kvs_engine_scan_prefix_kv E t engine pfx prefix_len result_out w =
     (if result_out = null then
        Some ((ErrorInvalidArgument, None), set_last_error t ''Invalid argument: result_out is null'' w)
      else do {
        (r, w1) \<leftarrow> validate_engine t engine w;
        case r of
          Inl c \<Rightarrow> Some ((c, None), w1)
        | Inr e \<Rightarrow> do {
            (rp, w2) \<leftarrow> key_from_raw t pfx prefix_len ''prefix'' w1;
            case rp of
              Inl c \<Rightarrow> Some ((c, None), w2)
            | Inr p \<Rightarrow>
                (case lsm_call (lsm_scan_prefix_with_values E e p) w2 of
                   (Inr items, w3) \<Rightarrow> fill_scan_result (allocator E) t items w3
                 | (Inl m, w3) \<Rightarrow>
                     Some ((ErrorStorage, None), set_last_error t (''Scan prefix kv failed: '' @ m) w3))
          }
      })"

definition f4kvs_engine_scan_prefix_keys_kv ::
  "('x, 'c) env \<Rightarrow> tid \<Rightarrow> addr \<Rightarrow> addr \<Rightarrow> nat \<Rightarrow> addr \<Rightarrow> ('x, 'c) world \<Rightarrow>
   ((F4KvsResult \<times> F4KvsKeyScanResult option) \<times> ('x, 'c) world) option" where
  "f4kvs_engine_scan_prefix_keys_kv E t engine pfx prefix_len result_out w =
     (if result_out = null then
        Some ((ErrorInvalidArgument, None), set_last_error t ''Invalid argument: result_out is null'' w)
      else do {
        (r, w1) \<leftarrow> validate_engine t engine w;
        case r of
          Inl c \<Rightarrow> Some ((c, None), w1)
        | Inr e \<Rightarrow> do {
            (rp, w2) \<leftarrow> key_from_raw t pfx prefix_len ''prefix'' w1;
            case rp of
              Inl c \<Rightarrow> Some ((c, None), w2)
            | Inr p \<Rightarrow>
                (case lsm_call (lsm_scan_prefix E e p) w2 of
                   (Inr keys, w3) \<Rightarrow> fill_key_scan (allocator E) t keys w3
                 | (Inl m, w3) \<Rightarrow>
                     Some ((ErrorStorage, None), set_last_error t (''Scan prefix keys kv failed: '' @ m) w3))
          }
      })"

text \<open>
  Pages with length-prefixed keys. \<^verbatim>\<open>allocate_bytes\<close> has no error, so the clean-up branches of the source
  are not reached.
\<close>

fun alloc_pairs_kv ::
  "'c allocator \<Rightarrow> (bytes \<times> lsm_value) list \<Rightarrow> ('x, 'c) world \<Rightarrow> F4KvsKVPairKv list \<times> ('x, 'c) world" where
  "alloc_pairs_kv al [] w = ([], w)"
| "alloc_pairs_kv al ((k, v) # kvs) w =
     (let ((kp, _), w1) = allocate_bytes al k w;
          ((vp, _), w2) = allocate_bytes al (value_to_bytes v) w1;
          (qs, w3) = alloc_pairs_kv al kvs w2 in
      (\<lparr>kv_key = kp, kv_key_len = length k, kv_value = vp, kv_value_len = length (value_to_bytes v)\<rparr> # qs, w3))"

definition fill_scan_result_kv ::
  "'c allocator \<Rightarrow> (bytes \<times> lsm_value) list \<Rightarrow> ('x, 'c) world \<Rightarrow>
   (F4KvsResult \<times> F4KvsScanResultKv) \<times> ('x, 'c) world" where
  "fill_scan_result_kv al items w =
     (if items = [] then ((Success, \<lparr>skv_pairs = null, skv_count = 0\<rparr>), w)
      else
        let (pairs, w1) = alloc_pairs_kv al items w;
            (p, w2) = alloc_block al (KVPairsKv pairs) w1 in
        ((Success, \<lparr>skv_pairs = p, skv_count = length items\<rparr>), w2))"

fun free_pairs_kv :: "F4KvsKVPairKv list \<Rightarrow> ('x, 'c) world \<Rightarrow> ('x, 'c) world option" where
  "free_pairs_kv [] w = Some w"
| "free_pairs_kv (q # qs) w =
     do {
       w1 \<leftarrow> f4kvs_bytes_free (kv_key q) w;
       w2 \<leftarrow> f4kvs_bytes_free (kv_value q) w1;
       free_pairs_kv qs w2
     }"

definition f4kvs_scan_result_kv_free ::
  "F4KvsScanResultKv option \<Rightarrow> ('x, 'c) world \<Rightarrow> (F4KvsScanResultKv option \<times> ('x, 'c) world) option" where
  "f4kvs_scan_result_kv_free result w =
     (case result of
        None \<Rightarrow> Some (None, w)
      | Some scan \<Rightarrow>
          if skv_pairs scan \<noteq> null \<and> 0 < skv_count scan then
            (case heap w (skv_pairs scan) of
               Some (KVPairsKv pairs) \<Rightarrow>
                 if length pairs = skv_count scan then do {
                   w1 \<leftarrow> free_pairs_kv pairs w;
                   Some (Some \<lparr>skv_pairs = null, skv_count = 0\<rparr>, drop_block (skv_pairs scan) w1)
                 }
                 else None
             | _ \<Rightarrow> None)
          else Some (Some \<lparr>skv_pairs = null, skv_count = 0\<rparr>, w))"

end
