(* ===== verification/Ownership.thy ===== *)
theory Ownership
  imports Ffi_Contract Ffi_Kv
begin

text \<open>
  Who owns what after a call: \<open>handed S B w w'\<close> says that \<open>w'\<close> is the world \<open>w\<close> with strings at \<open>S\<close> and byte
  buffers at \<open>B\<close> handed out on top, and everything else of the memory as before. Allocation adds to the
  sets, the two free functions take from them, whatever pointer they are given, so a caller that frees
  every pointer of a result gets back the memory it had. The pages of scans are instances.
\<close>

definition handed :: "addr set \<Rightarrow> addr set \<Rightarrow> ('x, 'c) world \<Rightarrow> ('x, 'c) world \<Rightarrow> bool" where
  "handed S B w w' \<longleftrightarrow>
     reg_inv w \<and> reg_inv w' \<and> (S \<union> B) \<inter> dom (heap w) = {} \<and>
     (\<forall>a. a \<notin> S \<union> B \<longrightarrow> heap w' a = heap w a) \<and>
     (\<forall>a\<in>S. is_str (heap w' a)) \<and> (\<forall>a\<in>B. \<exists>s. heap w' a = Some (RBytes s)) \<and>
     lsm w' = lsm w \<and> arcs w' = arcs w \<and> engine_counter w' = engine_counter w"

lemma handed_refl: "reg_inv w \<Longrightarrow> handed {} {} w w"
  by (simp add: handed_def)

lemma handedD:
  assumes "handed S B w w'"
  shows "reg_inv w" "reg_inv w'" "a \<notin> S \<union> B \<Longrightarrow> heap w' a = heap w a" "lsm w' = lsm w" "arcs w' = arcs w"
    "engine_counter w' = engine_counter w" "heap w a \<noteq> None \<Longrightarrow> heap w' a = heap w a" "heap w' a = None \<Longrightarrow> heap w a = None"
proof -
  note d = assms [unfolded handed_def]
  show "reg_inv w" "reg_inv w'" "a \<notin> S \<union> B \<Longrightarrow> heap w' a = heap w a" "lsm w' = lsm w" "arcs w' = arcs w"
    "engine_counter w' = engine_counter w" using d by blast+
  show old: "heap w' a = heap w a" if "heap w a \<noteq> None"
  proof -
    have "a \<notin> S \<union> B" using d that by blast
    then show ?thesis using d by blast
  qed
  show "heap w a = None" if "heap w' a = None" using old that by (cases "heap w a") auto
qed

text \<open>When nothing is handed out any more, the memory is what it was.\<close>

lemma handed_none: "handed {} {} w w' \<Longrightarrow> heap w' = heap w"
  unfolding handed_def by (intro ext) simp

lemma handed_errors [simp]:
  "handed S B w (set_last_error t m w') = handed S B w w'"
  "handed S B (set_last_error t m w) w' = handed S B w w'"
  by (simp_all add: handed_def)

lemma handed_trans_none: "handed {} {} w w1 \<Longrightarrow> handed S B w1 w2 \<Longrightarrow> handed S B w w2"
  using handed_none [of w w1] unfolding handed_def by simp

lemma handed_string:
  assumes "fresh_allocator al" "handed S B w w1" "allocate_c_string al t s w1 = (Inr p, w2)"
  shows "handed (insert p S) B w w2" "heap w1 \<subseteq>\<^sub>m heap w2" "heap w2 p = Some (RStr (s @ [NUL]))" "p \<notin> dom (heap w)"
    "NUL \<notin> set s"
proof -
  note d = handedD [OF assms(2)]
  from assms(3) show n: "NUL \<notin> set s" by (auto simp: allocate_c_string_def cstring_new_def split: if_splits)
  obtain a where a: "alloc_block al (RStr (s @ [NUL])) w1 = (a, w1\<lparr>heap := (heap w1)(a \<mapsto> RStr (s @ [NUL])), tick := Suc (tick w1)\<rparr>)"
    "heap w1 a = None" "1 < a" using alloc_blockE [OF assms(1) d(2)] by metis
  with assms(3) n have w2: "p = a" "w2 = w1\<lparr>heap := (heap w1)(a \<mapsto> RStr (s @ [NUL])), tick := Suc (tick w1),
      str_allocs := snd (str_register a (str_allocs w1))\<rparr>"
    by (auto simp: allocate_c_string_def cstring_new_def)
  have h: "heap w2 = (heap w1)(p \<mapsto> RStr (s @ [NUL]))" using w2 by simp
  show "p \<notin> dom (heap w)" using d(8) [of p] a(2) w2(1) by (simp add: domIff)
  then show "handed (insert p S) B w w2"
    using assms(2) allocate_c_string_inv [OF assms(1) d(2) assms(3)] a(2) w2 unfolding handed_def by auto
  show "heap w1 \<subseteq>\<^sub>m heap w2" using a(2) h w2(1) by (auto simp: map_le_def)
  show "heap w2 p = Some (RStr (s @ [NUL]))" by (simp add: h)
qed

lemma handed_bytes:
  assumes "fresh_allocator al" "handed S B w w1" "allocate_bytes al s w1 = ((p, n), w2)"
  shows "handed S (if s = [] then B else insert p B) w w2" "heap w1 \<subseteq>\<^sub>m heap w2"
    "s \<noteq> [] \<Longrightarrow> heap w2 p = Some (RBytes s)" "p \<notin> dom (heap w)" "p \<noteq> null" "n = length s" "s = [] \<Longrightarrow> p = 1"
proof -
  note d = handedD [OF assms(2)]
  note inv = allocate_bytes_inv [OF assms(1) d(2) assms(3)]
  obtain a where a: "alloc_block al (RBytes s) w1 = (a, w1\<lparr>heap := (heap w1)(a \<mapsto> RBytes s), tick := Suc (tick w1)\<rparr>)"
    "heap w1 a = None" "1 < a" using alloc_blockE [OF assms(1) d(2)] by metis
  have w2: "if s = [] then p = 1 \<and> heap w2 = heap w1 else p = a \<and> heap w2 = (heap w1)(a \<mapsto> RBytes s)" "n = length s"
    "lsm w2 = lsm w1" "arcs w2 = arcs w1" "engine_counter w2 = engine_counter w1"
    using assms(3) a by (auto simp: allocate_bytes_def split: if_splits)
  show "n = length s" by (rule w2(2))
  show nd: "p \<notin> dom (heap w)" using d(8) [of a] reg_invD(3) [OF d(1)] a(2) w2(1) by (auto simp: domIff split: if_splits)
  show "p \<noteq> null" using a(3) w2(1) by (auto split: if_splits)
  show "handed S (if s = [] then B else insert p B) w w2"
    using assms(2) inv a(2) w2 nd unfolding handed_def by (auto split: if_splits)
  show "heap w1 \<subseteq>\<^sub>m heap w2" using a(2) w2(1) by (auto simp: map_le_def split: if_splits)
  show "heap w2 p = Some (RBytes s)" if "s \<noteq> []" using w2(1) that by simp
  show "p = 1" if "s = []" using w2(1) that by simp
qed

lemma string_free_effect:
  assumes "f4kvs_string_free p w = Some w'" "reg_inv w"
  shows "heap w' = (if is_str (heap w p) then (heap w)(p := None) else heap w)"
    "lsm w' = lsm w" "arcs w' = arcs w" "engine_counter w' = engine_counter w"
proof -
  from reg_invD(2,4) [OF assms(2)] have "is_str (heap w p) \<longleftrightarrow> p \<noteq> null \<and> p \<in> str_allocs w"
    by (cases "p = null") simp_all
  with assms(1) show "heap w' = (if is_str (heap w p) then (heap w)(p := None) else heap w)"
    "lsm w' = lsm w" "arcs w' = arcs w" "engine_counter w' = engine_counter w"
    by (auto simp: f4kvs_string_free_def str_is_allocated_def Let_def drop_block_def split: if_splits option.splits block.splits)
qed

lemma bytes_free_effect:
  assumes "f4kvs_bytes_free p w = Some w'" "reg_inv w"
  shows "heap w' = (if buf_len (heap w p) \<noteq> None then (heap w)(p := None) else heap w)"
    "lsm w' = lsm w" "arcs w' = arcs w" "engine_counter w' = engine_counter w"
proof -
  have 1: "p = 1 \<or> bytes_allocs w p = buf_len (heap w p)" using reg_invD(5) [OF assms(2)] by blast
  have 2: "p = 1 \<Longrightarrow> buf_len (heap w p) = None \<and> (bytes_allocs w p = None \<or> bytes_allocs w p = Some 0)"
    using reg_invD(3,6) [OF assms(2)] by simp
  have 3: "p = 0 \<Longrightarrow> buf_len (heap w p) = None" using reg_invD(2) [OF assms(2)] by simp
  have 4: "buf_len (heap w p) \<noteq> Some 0" using reg_invD(7) [OF assms(2), of p] by (auto simp: buf_len_eq)
  show "heap w' = (if buf_len (heap w p) \<noteq> None then (heap w)(p := None) else heap w)"
    "lsm w' = lsm w" "arcs w' = arcs w" "engine_counter w' = engine_counter w"
    using assms(1) 1 2 3 4
    by (auto simp: f4kvs_bytes_free_def bytes_unregister_def Let_def drop_block_def split: if_splits option.splits block.splits)
qed

text \<open>Freeing a pointer that was not in use before takes it from the sets; any other pointer of a page is ignored.\<close>

lemma handed_string_free:
  assumes "handed S B w w1" "p \<notin> dom (heap w)"
  shows "\<exists>w2. f4kvs_string_free p w1 = Some w2 \<and> handed (S - {p}) B w w2"
proof -
  obtain w2 where w2: "f4kvs_string_free p w1 = Some w2" "reg_inv w2"
    using f4kvs_string_free_total [OF handedD(2) [OF assms(1)]] by metis
  note e = string_free_effect [OF w2(1) handedD(2) [OF assms(1)]]
  have "is_str (heap w1 p) \<longleftrightarrow> p \<in> S" using assms unfolding handed_def by (force simp: is_str_iff domIff)
  with assms w2 e have "handed (S - {p}) B w w2" unfolding handed_def by (auto simp: domIff is_str_iff)
  with w2(1) show ?thesis by blast
qed

lemma handed_bytes_free:
  assumes "handed S B w w1" "p \<notin> dom (heap w)"
  shows "\<exists>w2. f4kvs_bytes_free p w1 = Some w2 \<and> handed S (B - {p}) w w2"
proof -
  obtain w2 where w2: "f4kvs_bytes_free p w1 = Some w2" "reg_inv w2"
    using f4kvs_bytes_free_total [OF handedD(2) [OF assms(1)]] by metis
  note e = bytes_free_effect [OF w2(1) handedD(2) [OF assms(1)]]
  have "buf_len (heap w1 p) \<noteq> None \<longleftrightarrow> p \<in> B" using assms unfolding handed_def by (force simp: buf_len_eq is_str_iff domIff)
  with assms w2 e have "handed S (B - {p}) w w2" unfolding handed_def by (auto simp: domIff is_str_iff)
  with w2(1) show ?thesis by blast
qed

text \<open>The array of a result is a block of its own, below what is handed out.\<close>

lemma handed_block:
  assumes "handed S B w w1" "heap w1 p = None" "1 < p" "plain_block b"
  shows "handed S B (w\<lparr>heap := (heap w)(p \<mapsto> b)\<rparr>) (w1\<lparr>heap := (heap w1)(p \<mapsto> b), tick := n\<rparr>)"
proof -
  have "heap w p = None" by (rule handedD(8) [OF assms(1,2)])
  with assms reg_inv_insert_plain [OF handedD(1) [OF assms(1)] this assms(3,4), of "tick w"]
    reg_inv_insert_plain [OF handedD(2) [OF assms(1)] assms(2-4), of n]
  show ?thesis unfolding handed_def by (auto simp: is_str_iff)
qed

lemma handed_drop:
  assumes "handed {} {} (w\<lparr>heap := (heap w)(p \<mapsto> b)\<rparr>) w1" "reg_inv w" "heap w p = None" "plain_block b"
  shows "handed {} {} w (drop_block p w1)"
proof -
  have "heap w1 = (heap w)(p \<mapsto> b)" using handed_none [OF assms(1)] by simp
  with assms reg_inv_drop_plain [OF handedD(2) [OF assms(1)], of p b] show ?thesis
    unfolding handed_def by (auto simp: drop_block_def)
qed

section \<open>Length-prefixed pages\<close>

definition buf_at :: "('x, 'c) world \<Rightarrow> addr \<Rightarrow> nat \<Rightarrow> bytes option" where
  "buf_at w p n = (if n = 0 then Some [] else if p = null then None else slice_from_raw w p n)"

definition pair_text :: "bytes \<times> lsm_value \<Rightarrow> bytes \<times> bytes" where
  "pair_text kv = (fst kv, value_to_bytes (snd kv))"

text \<open>What a caller reads of a page.\<close>

definition read_pair_kv :: "('x, 'c) world \<Rightarrow> F4KvsKVPairKv \<Rightarrow> (bytes \<times> bytes) option" where
  "read_pair_kv w q =
     do { k \<leftarrow> buf_at w (kv_key q) (kv_key_len q); v \<leftarrow> buf_at w (kv_value q) (kv_value_len q); Some (k, v) }"

definition read_page_kv :: "('x, 'c) world \<Rightarrow> F4KvsScanResultKv \<Rightarrow> (bytes \<times> bytes) list option" where
  "read_page_kv w res =
     (if skv_count res = 0 then Some []
      else case heap w (skv_pairs res) of
        Some (KVPairsKv qs) \<Rightarrow> if length qs = skv_count res then those (map (read_pair_kv w) qs) else None
      | _ \<Rightarrow> None)"

lemma buf_at_mono: "heap w \<subseteq>\<^sub>m heap w' \<Longrightarrow> buf_at w p n = Some s \<Longrightarrow> buf_at w' p n = Some s"
  by (auto simp: buf_at_def slice_from_raw_def mem_at_def bind_eq_Some_conv map_le_def domIff
      split: if_splits option.splits block.splits) (metis domI option.inject block.inject block.distinct)+

lemma read_pair_kv_mono: "heap w \<subseteq>\<^sub>m heap w' \<Longrightarrow> read_pair_kv w q = Some kv \<Longrightarrow> read_pair_kv w' q = Some kv"
  unfolding read_pair_kv_def bind_eq_Some_conv using buf_at_mono by blast

lemma buf_at_bytes: "(s \<noteq> [] \<Longrightarrow> heap w p = Some (RBytes s)) \<Longrightarrow> p \<noteq> null \<Longrightarrow> buf_at w p (length s) = Some s"
  by (auto simp: buf_at_def slice_from_raw_def mem_at_def)

definition kv_ptrs :: "F4KvsKVPairKv list \<Rightarrow> addr set" where
  "kv_ptrs qs = kv_key ` set qs \<union> kv_value ` set qs"

lemma kv_ptrs_simps [simp]:
  "kv_ptrs [] = {}" "kv_ptrs (q # qs) = insert (kv_key q) (insert (kv_value q) (kv_ptrs qs))"
  by (auto simp: kv_ptrs_def)

lemma alloc_pairs_kv_ok:
  assumes "fresh_allocator al" "handed S B w w1" "alloc_pairs_kv al items w1 = (qs, w2)"
  shows "\<exists>B'. handed S (B \<union> B') w w2 \<and> B' \<subseteq> kv_ptrs qs \<and> kv_ptrs qs \<subseteq> insert 1 B' \<and> kv_ptrs qs \<inter> dom (heap w) = {} \<and> heap w1 \<subseteq>\<^sub>m heap w2 \<and>
     length qs = length items \<and> those (map (read_pair_kv w2) qs) = Some (map pair_text items)"
  using assms(2,3)
proof (induction items arbitrary: B w1 qs)
  case Nil
  then show ?case by (auto intro!: exI [of _ "{}"])
next
  case (Cons kv items)
  obtain k v where kv: "kv = (k, v)" by fastforce
  obtain kp kn wk where k: "allocate_bytes al k w1 = ((kp, kn), wk)" by (metis prod.exhaust)
  obtain vp vn wv where v: "allocate_bytes al (value_to_bytes v) wk = ((vp, vn), wv)" by (metis prod.exhaust)
  obtain qs' where qs': "alloc_pairs_kv al items wv = (qs', w2)"
    and qs: "qs = \<lparr>kv_key = kp, kv_key_len = length k, kv_value = vp, kv_value_len = length (value_to_bytes v)\<rparr> # qs'"
    using Cons.prems(2) k v unfolding kv by (auto split: prod.splits)
  note hk = handed_bytes [OF assms(1) Cons.prems(1) k]
  note hv = handed_bytes [OF assms(1) hk(1) v]
  let ?B = "if value_to_bytes v = [] then if k = [] then B else insert kp B else insert vp (if k = [] then B else insert kp B)"
  let ?N = "(if k = [] then {} else {kp}) \<union> (if value_to_bytes v = [] then {} else {vp})"
  from Cons.IH [OF hv(1) qs'] obtain B' where
    IH: "handed S (?B \<union> B') w w2" "B' \<subseteq> kv_ptrs qs'" "kv_ptrs qs' \<subseteq> insert 1 B'" "kv_ptrs qs' \<inter> dom (heap w) = {}" "heap wv \<subseteq>\<^sub>m heap w2"
      "length qs' = length items" "those (map (read_pair_kv w2) qs') = Some (map pair_text items)" by blast
  have m: "heap w1 \<subseteq>\<^sub>m heap w2" "heap wk \<subseteq>\<^sub>m heap w2" using hk(2) hv(2) IH(5) by (metis map_le_trans)+
  have "read_pair_kv wv (hd qs) = Some (pair_text kv)"
    using buf_at_bytes [of k wv kp] buf_at_bytes [of "value_to_bytes v" wv vp] hk hv
      buf_at_mono [OF hv(2) buf_at_bytes [of k wk kp]]
    unfolding qs kv read_pair_kv_def pair_text_def by simp
  then have "read_pair_kv w2 (hd qs) = Some (pair_text kv)" by (rule read_pair_kv_mono [OF IH(5)])
  moreover have "handed S (B \<union> (?N \<union> B')) w w2"
    using IH(1) by (rule back_subst [where P = "\<lambda>X. handed S X w w2"]) auto
  moreover have "?N \<union> B' \<subseteq> kv_ptrs qs" "kv_ptrs qs \<subseteq> insert 1 (?N \<union> B')"
    using IH(2,3) hk(7) hv(7) unfolding qs by auto
  moreover have "kv_ptrs qs \<inter> dom (heap w) = {}" using IH(4) hk(4) hv(4) unfolding qs by auto
  ultimately show ?case
    using m(1) IH(6,7) by (intro exI [of _ "?N \<union> B'"]) (simp add: qs)
qed

lemma free_pairs_kv_ok:
  assumes "handed S B w w1" "kv_ptrs qs \<inter> dom (heap w) = {}"
  shows "\<exists>w2. free_pairs_kv qs w1 = Some w2 \<and> handed S (B - kv_ptrs qs) w w2"
  using assms
proof (induction qs arbitrary: B w1)
  case Nil
  then show ?case by simp
next
  case (Cons q qs)
  then have "kv_key q \<notin> dom (heap w)" "kv_value q \<notin> dom (heap w)" by auto
  with Cons.prems(1) obtain wk wv where
    wk: "f4kvs_bytes_free (kv_key q) w1 = Some wk" "handed S (B - {kv_key q}) w wk" and
    wv: "f4kvs_bytes_free (kv_value q) wk = Some wv" "handed S (B - {kv_key q} - {kv_value q}) w wv"
    using handed_bytes_free by metis
  from Cons.IH [OF wv(2)] Cons.prems(2) obtain w2 where
    "free_pairs_kv qs wv = Some w2" "handed S (B - {kv_key q} - {kv_value q} - kv_ptrs qs) w w2" by auto
  moreover have "B - {kv_key q} - {kv_value q} - kv_ptrs qs = B - kv_ptrs (q # qs)" by auto
  ultimately show ?case using wk wv by simp
qed

text \<open>A length-prefixed page shows all its pairs, and freeing it gives all memory back.\<close>

lemma page_kv_ok:
  assumes "fresh_allocator al" "reg_inv w" "fill_scan_result_kv al items w = ((code, res), w1)"
  shows "code = Success" "skv_count res = length items" "read_page_kv w1 res = Some (map pair_text items)" "heap w \<subseteq>\<^sub>m heap w1"
    "reg_inv w1" "lsm w1 = lsm w" "arcs w1 = arcs w"
    "\<exists>w2. f4kvs_scan_result_kv_free (Some res) w1 = Some (Some \<lparr>skv_pairs = null, skv_count = 0\<rparr>, w2) \<and> handed {} {} w w2"
proof -
  have "code = Success \<and> skv_count res = length items \<and> read_page_kv w1 res = Some (map pair_text items) \<and> heap w \<subseteq>\<^sub>m heap w1 \<and>
    reg_inv w1 \<and> lsm w1 = lsm w \<and> arcs w1 = arcs w \<and>
    (\<exists>w2. f4kvs_scan_result_kv_free (Some res) w1 = Some (Some \<lparr>skv_pairs = null, skv_count = 0\<rparr>, w2) \<and> handed {} {} w w2)"
  proof (cases "items = []")
    case True
    with assms show ?thesis
      by (auto simp: fill_scan_result_kv_def read_page_kv_def f4kvs_scan_result_kv_free_def handed_refl)
  next
    case False
    obtain qs wp where qs: "alloc_pairs_kv al items w = (qs, wp)" by (metis prod.exhaust)
    from alloc_pairs_kv_ok [OF assms(1) handed_refl [OF assms(2)] qs] obtain B where
      B: "handed {} B w wp" "B \<subseteq> kv_ptrs qs" "kv_ptrs qs \<inter> dom (heap w) = {}" "heap w \<subseteq>\<^sub>m heap wp"
        "length qs = length items" "map (read_pair_kv wp) qs = map Some (map pair_text items)" "kv_ptrs qs \<subseteq> insert 1 B"
      by (auto simp: those_eq_Some)
    obtain p where p: "alloc_block al (KVPairsKv qs) wp = (p, wp\<lparr>heap := (heap wp)(p \<mapsto> KVPairsKv qs), tick := Suc (tick wp)\<rparr>)"
      "heap wp p = None" "1 < p" using alloc_blockE [OF assms(1) handedD(2) [OF B(1)]] by metis
    have r: "code = Success" "res = \<lparr>skv_pairs = p, skv_count = length items\<rparr>"
      "w1 = wp\<lparr>heap := (heap wp)(p \<mapsto> KVPairsKv qs), tick := Suc (tick wp)\<rparr>"
      using assms(3) False qs p(1) by (auto simp: fill_scan_result_kv_def)
    let ?base = "w\<lparr>heap := (heap w)(p \<mapsto> KVPairsKv qs)\<rparr>"
    have h1: "handed {} B ?base w1" unfolding r(3) by (rule handed_block [OF B(1) p(2,3)]) simp
    have le: "heap wp \<subseteq>\<^sub>m heap w1" using p(2) by (auto simp: r(3) map_le_def)
    have "p \<notin> B" using h1 unfolding handed_def by auto
    then have "kv_ptrs qs \<inter> dom (heap ?base) = {}" using B(3,7) p(3) by auto
    with free_pairs_kv_ok [OF h1] B(2) have free: "\<exists>w2. free_pairs_kv qs w1 = Some w2 \<and> handed {} {} ?base w2"
      by (metis Diff_eq_empty_iff)
    have "read_pair_kv w1 q = read_pair_kv wp q" if "q \<in> set qs" for q
    proof -
      have "read_pair_kv wp q \<in> set (map Some (map pair_text items))" using that B(6) by (metis image_eqI list.set_map)
      then have "read_pair_kv wp q \<noteq> None" by auto
      then obtain kv where "read_pair_kv wp q = Some kv" by blast
      with read_pair_kv_mono [OF le this] show ?thesis by simp
    qed
    then have "map (read_pair_kv w1) qs = map Some (map pair_text items)" using B(6) by (metis map_cong)
    with B(5) False have rd: "read_page_kv w1 res = Some (map pair_text items)"
      by (simp add: read_page_kv_def r(2,3) those_eq_Some)
    from free obtain w2 where w2: "free_pairs_kv qs w1 = Some w2" "handed {} {} ?base w2" by blast
    have "handed {} {} w (drop_block p w2)"
      by (rule handed_drop [OF w2(2) assms(2) handedD(8) [OF B(1) p(2)]]) simp
    moreover have "f4kvs_scan_result_kv_free (Some res) w1 = Some (Some \<lparr>skv_pairs = null, skv_count = 0\<rparr>, drop_block p w2)"
      using w2(1) False p(3) B(5) by (simp add: f4kvs_scan_result_kv_free_def r(2,3))
    ultimately show ?thesis
      using r rd B(1,4) le handedD(2) [OF h1] handedD(4,5) [OF h1] by (auto intro: map_le_trans)
  qed
  then show "code = Success" "skv_count res = length items" "read_page_kv w1 res = Some (map pair_text items)" "heap w \<subseteq>\<^sub>m heap w1"
    "reg_inv w1" "lsm w1 = lsm w" "arcs w1 = arcs w"
    "\<exists>w2. f4kvs_scan_result_kv_free (Some res) w1 = Some (Some \<lparr>skv_pairs = null, skv_count = 0\<rparr>, w2) \<and> handed {} {} w w2" by simp_all
qed

section \<open>Pages with C strings\<close>

definition read_pair :: "('x, 'c) world \<Rightarrow> F4KvsKVPair \<Rightarrow> (bytes \<times> bytes) option" where
  "read_pair w q = do { k \<leftarrow> cstr_from_ptr w (pair_key q); v \<leftarrow> buf_at w (pair_value q) (pair_value_len q); Some (k, v) }"

definition read_page :: "('x, 'c) world \<Rightarrow> F4KvsScanResult \<Rightarrow> (bytes \<times> bytes) list option" where
  "read_page w res =
     (if sr_count res = 0 then Some []
      else case heap w (sr_pairs res) of
        Some (KVPairs qs) \<Rightarrow> if length qs = sr_count res then those (map (read_pair w) qs) else None
      | _ \<Rightarrow> None)"

lemma cstr_mono: "heap w \<subseteq>\<^sub>m heap w' \<Longrightarrow> cstr_from_ptr w p = Some s \<Longrightarrow> cstr_from_ptr w' p = Some s"
  by (auto simp: cstr_from_ptr_def mem_at_def bind_eq_Some_conv map_le_def domIff
      split: if_splits option.splits block.splits) (metis domI option.inject block.inject block.distinct)+

lemma read_pair_mono: "heap w \<subseteq>\<^sub>m heap w' \<Longrightarrow> read_pair w q = Some kv \<Longrightarrow> read_pair w' q = Some kv"
  unfolding read_pair_def bind_eq_Some_conv using buf_at_mono cstr_mono by blast

lemma read_all_mono:
  assumes "heap w \<subseteq>\<^sub>m heap w'" "map (read_pair w) qs = map Some ts"
  shows "map (read_pair w') qs = map Some ts"
  using assms(2)
proof (induction qs arbitrary: ts)
  case (Cons q qs)
  then show ?case using read_pair_mono [OF assms(1)] by (cases ts) auto
qed simp

text \<open>\<open>page_of S B w qs\<close>: the pairs \<open>qs\<close> hold all that is handed out, and nothing that was there before.\<close>

definition page_of :: "addr set \<Rightarrow> addr set \<Rightarrow> ('x, 'c) world \<Rightarrow> F4KvsKVPair list \<Rightarrow> bool" where
  "page_of S B w qs \<longleftrightarrow>
     pair_key ` set qs = S \<and> pair_value ` set qs \<subseteq> insert 1 B \<and> B \<subseteq> pair_value ` set qs \<and>
     (S \<union> pair_value ` set qs) \<inter> dom (heap w) = {}"

lemma free_pairs_ok:
  assumes "handed S B w w1" "(pair_key ` set qs \<union> pair_value ` set qs) \<inter> dom (heap w) = {}"
  shows "\<exists>w2. free_pairs qs w1 = Some w2 \<and> handed (S - pair_key ` set qs) (B - pair_value ` set qs) w w2"
  using assms
proof (induction qs arbitrary: S B w1)
  case Nil
  then show ?case by simp
next
  case (Cons q qs)
  then have "pair_key q \<notin> dom (heap w)" "pair_value q \<notin> dom (heap w)" by auto
  with Cons.prems(1) obtain wk wv where
    wk: "f4kvs_string_free (pair_key q) w1 = Some wk" "handed (S - {pair_key q}) B w wk" and
    wv: "f4kvs_bytes_free (pair_value q) wk = Some wv" "handed (S - {pair_key q}) (B - {pair_value q}) w wv"
    using handed_bytes_free handed_string_free by metis
  from Cons.IH [OF wv(2)] Cons.prems(2) obtain w2 where
    "free_pairs qs wv = Some w2"
    "handed (S - {pair_key q} - pair_key ` set qs) (B - {pair_value q} - pair_value ` set qs) w w2" by auto
  moreover have "S - {pair_key q} - pair_key ` set qs = S - pair_key ` set (q # qs)"
    "B - {pair_value q} - pair_value ` set qs = B - pair_value ` set (q # qs)" by auto
  ultimately show ?case using wk(1) wv(1) by simp
qed

lemma page_of_free:
  assumes "handed S B w w1" "page_of S B w qs"
  shows "\<exists>w2. free_pairs qs w1 = Some w2 \<and> handed {} {} w w2"
proof -
  have "S - pair_key ` set qs = {}" "B - pair_value ` set qs = {}" "(pair_key ` set qs \<union> pair_value ` set qs) \<inter> dom (heap w) = {}"
    using assms(2) unfolding page_of_def by auto
  with free_pairs_ok [OF assms(1)] show ?thesis by metis
qed

text \<open>Copying pairs out fails at the first key with a NUL byte, and then nothing stays handed out.\<close>

lemma alloc_pairs_ok:
  assumes "fresh_allocator al" "handed S B w w1" "page_of S B w qs" "map (read_pair w1) qs = map Some ts"
  shows "if \<exists>kv\<in>set items. NUL \<in> set (fst kv)
    then \<exists>w2. alloc_pairs al t items qs w1 = Some (Inl ErrorStorage, w2) \<and> handed {} {} w w2
    else \<exists>qs' S' B' w2. alloc_pairs al t items qs w1 = Some (Inr qs', w2) \<and> handed S' B' w w2 \<and> page_of S' B' w qs' \<and>
      map (read_pair w2) qs' = map Some (ts @ map pair_text items) \<and> heap w1 \<subseteq>\<^sub>m heap w2"
  using assms(2-4)
proof (induction items arbitrary: qs ts S B w1)
  case Nil
  then show ?case by auto
next
  case (Cons kv items)
  obtain k v where kv: "kv = (k, v)" by fastforce
  show ?case
  proof (cases "NUL \<in> set k")
    case True
    then obtain m where m: "allocate_c_string al t k w1 = (Inl ErrorStorage, set_last_error t m w1)"
      by (auto simp: allocate_c_string_def cstring_new_def)
    have "handed S B w (set_last_error t m w1)" using Cons.prems(1) by simp
    from page_of_free [OF this Cons.prems(2)] True m show ?thesis by (auto simp: kv)
  next
    case False
    then obtain kp wk where k: "allocate_c_string al t k w1 = (Inr kp, wk)"
      by (cases "alloc_block al (RStr (k @ [NUL])) w1") (simp add: allocate_c_string_def cstring_new_def)
    obtain vp vn wv where v: "allocate_bytes al (value_to_bytes v) wk = ((vp, vn), wv)" by (metis prod.exhaust)
    note hk = handed_string [OF assms(1) Cons.prems(1) k]
    note hv = handed_bytes [OF assms(1) hk(1) v]
    let ?q = "\<lparr>pair_key = kp, pair_value = vp, pair_value_len = length (value_to_bytes v)\<rparr>"
    let ?B = "if value_to_bytes v = [] then B else insert vp B"
    have "page_of (insert kp S) ?B w (qs @ [?q])"
      using Cons.prems(2) hk(4) hv(4,7) unfolding page_of_def by auto
    moreover have "read_pair wv ?q = Some (pair_text kv)"
    proof -
      have "cstr_from_ptr wk kp = Some k"
        using hk(3) False by (simp add: cstr_from_ptr_def mem_at_def takeWhile_eq_self_iff)
          (metis takeWhile_eq_self_iff)
      then show ?thesis
        using cstr_mono [OF hv(2)] buf_at_bytes [of "value_to_bytes v" wv vp] hv(3,5)
        by (simp add: read_pair_def pair_text_def kv)
    qed
    moreover have "map (read_pair wv) qs = map Some ts"
      using read_all_mono [OF map_le_trans [OF hk(2) hv(2)] Cons.prems(3)] .
    ultimately have IH: "if \<exists>kv\<in>set items. NUL \<in> set (fst kv)
      then \<exists>w2. alloc_pairs al t items (qs @ [?q]) wv = Some (Inl ErrorStorage, w2) \<and> handed {} {} w w2
      else \<exists>qs' S' B' w2. alloc_pairs al t items (qs @ [?q]) wv = Some (Inr qs', w2) \<and> handed S' B' w w2 \<and> page_of S' B' w qs' \<and>
        map (read_pair w2) qs' = map Some ((ts @ [pair_text kv]) @ map pair_text items) \<and> heap wv \<subseteq>\<^sub>m heap w2"
      by (intro Cons.IH [OF hv(1)]) simp_all
    have step: "alloc_pairs al t (kv # items) qs w1 = alloc_pairs al t items (qs @ [?q]) wv"
      using k v by (simp add: kv)
    have ex: "(\<exists>kv\<in>set (kv # items). NUL \<in> set (fst kv)) \<longleftrightarrow> (\<exists>kv\<in>set items. NUL \<in> set (fst kv))"
      using False by (simp add: kv)
    have le: "heap wv \<subseteq>\<^sub>m h \<Longrightarrow> heap w1 \<subseteq>\<^sub>m h" for h using map_le_trans [OF hk(2) hv(2)] by (rule map_le_trans)
    have ts: "ts @ map pair_text (kv # items) = (ts @ [pair_text kv]) @ map pair_text items" by simp
    show ?thesis unfolding step ex ts using IH le by (cases "\<exists>kv\<in>set items. NUL \<in> set (fst kv)") (simp, meson)
  qed
qed

lemma page_ok:
  assumes "fresh_allocator al" "reg_inv w"
  shows "if \<exists>kv\<in>set items. NUL \<in> set (fst kv)
    then \<exists>w1. fill_scan_result al t items w = Some ((ErrorStorage, None), w1) \<and> handed {} {} w w1
    else \<exists>res w1 w2. fill_scan_result al t items w = Some ((Success, Some res), w1) \<and>
      read_page w1 res = Some (map pair_text items) \<and> heap w \<subseteq>\<^sub>m heap w1 \<and> lsm w1 = lsm w \<and>
      f4kvs_scan_result_free (Some res) w1 = Some (Some \<lparr>sr_pairs = null, sr_count = 0\<rparr>, w2) \<and> handed {} {} w w2"
proof (cases "items = []")
  case True
  with assms(2) show ?thesis
    by (auto simp: fill_scan_result_def read_page_def f4kvs_scan_result_free_def handed_refl)
next
  case False
  have p0: "page_of {} {} w []" by (simp add: page_of_def)
  note A = alloc_pairs_ok [OF assms(1) handed_refl [OF assms(2)] p0, of "[]" items t]
  show ?thesis
  proof (cases "\<exists>kv\<in>set items. NUL \<in> set (fst kv)")
    case True
    with A False show ?thesis by (auto simp: fill_scan_result_def)
  next
    case ok: False
    with A obtain qs S B wp where
      qs: "alloc_pairs al t items [] w = Some (Inr qs, wp)" "handed S B w wp" "page_of S B w qs"
        "map (read_pair wp) qs = map Some (map pair_text items)" "heap w \<subseteq>\<^sub>m heap wp" by auto
    obtain p where p: "alloc_block al (KVPairs qs) wp = (p, wp\<lparr>heap := (heap wp)(p \<mapsto> KVPairs qs), tick := Suc (tick wp)\<rparr>)"
      "heap wp p = None" "1 < p" using alloc_blockE [OF assms(1) handedD(2) [OF qs(2)]] by metis
    let ?w1 = "wp\<lparr>heap := (heap wp)(p \<mapsto> KVPairs qs), tick := Suc (tick wp)\<rparr>" and ?base = "w\<lparr>heap := (heap w)(p \<mapsto> KVPairs qs)\<rparr>"
    let ?res = "\<lparr>sr_pairs = p, sr_count = length items\<rparr>"
    have len: "length qs = length items" using arg_cong [OF qs(4), of length] by simp
    have h1: "handed S B ?base ?w1" by (rule handed_block [OF qs(2) p(2,3)]) simp
    then have "p \<notin> S \<union> B" unfolding handed_def by auto
    then have "page_of S B ?base qs" using qs(3) p(3) unfolding page_of_def by auto
    from page_of_free [OF h1 this] obtain w2 where w2: "free_pairs qs ?w1 = Some w2" "handed {} {} ?base w2" by blast
    have le: "heap wp \<subseteq>\<^sub>m heap ?w1" using p(2) by (auto simp: map_le_def)
    have "read_page ?w1 ?res = Some (map pair_text items)"
      using read_all_mono [OF le qs(4)] len by (simp add: read_page_def those_eq_Some)
    moreover have "fill_scan_result al t items w = Some ((Success, Some ?res), ?w1)"
      using False qs(1) p(1) by (simp add: fill_scan_result_def)
    moreover have "f4kvs_scan_result_free (Some ?res) ?w1 = Some (Some \<lparr>sr_pairs = null, sr_count = 0\<rparr>, drop_block p w2)"
      using w2(1) False p(3) len by (simp add: f4kvs_scan_result_free_def)
    moreover have "handed {} {} w (drop_block p w2)"
      by (rule handed_drop [OF w2(2) assms(2) handedD(8) [OF qs(2) p(2)]]) simp
    ultimately show ?thesis
      using map_le_trans [OF qs(5) le] handedD(4) [OF qs(2)] unfolding if_not_P [OF ok]
      by (intro exI [of _ ?res] exI [of _ ?w1] exI [of _ "drop_block p w2"] conjI) simp_all
  qed
qed

end
