(* ===== verification/Kv_Contract.thy ===== *)
theory Kv_Contract
  imports Ownership
begin

text \<open>
  What the length-prefixed functions promise: the specification of a call on a key is \<open>text_call\<close>, the
  check of the key followed by one operation of the library. They differ from the C-string functions in
  the keys they reach: every valid UTF-8 key, NUL bytes included, is an entry of its own.
\<close>

section \<open>Specification\<close>

definition text_call :: "bytes \<Rightarrow> (bytes \<Rightarrow> 'x \<Rightarrow> 'a reply \<times> 'x) \<Rightarrow> bytes \<Rightarrow> bytes \<Rightarrow> 'x \<Rightarrow> 'a answer \<times> 'x" where
  "text_call label f field k x =
     (case check_text MAX_KEY_LENGTH field k of
        Inl err \<Rightarrow> (Inl err, x)
      | Inr key \<Rightarrow> storage label (f key x))"

definition api_put_kv :: "('x, 'c) env \<Rightarrow> eid \<Rightarrow> bytes \<Rightarrow> bytes \<Rightarrow> 'x \<Rightarrow> unit answer \<times> 'x" where
  "api_put_kv E e k v x =
     (case check_text MAX_KEY_LENGTH ''key'' k of
        Inl err \<Rightarrow> (Inl err, x)
      | Inr key \<Rightarrow>
          if MAX_VALUE_LENGTH < length v then
            (Inl (ErrorInvalidArgument,
                  ''Invalid argument: value exceeds maximum length of '' @
                  show_nat MAX_VALUE_LENGTH @ '' bytes''), x)
          else storage ''Put kv failed: '' (lsm_put E e key (VBytes v) x))"

text \<open>A pointer and a length of the caller that hold the bytes \<open>s\<close>; for no bytes the pointer may be anything.\<close>

definition holds :: "('x, 'c) world \<Rightarrow> addr \<Rightarrow> bytes \<Rightarrow> bool" where
  "holds w p s \<longleftrightarrow> (s \<noteq> [] \<longrightarrow> p \<noteq> null \<and> slice_from_raw w p (length s) = Some s)"

section \<open>The functions\<close>

lemma check_text_Nil: "check_text n f [] = Inr []"
  by (simp add: check_text_Inr)

lemma key_from_raw_text:
  "holds w p k \<Longrightarrow>
   key_from_raw t p (length k) f w =
     Some (case check_text MAX_KEY_LENGTH f k of
             Inr u \<Rightarrow> (Inr u, w)
           | Inl (c, m) \<Rightarrow> (Inl c, set_last_error t m w))"
  by (cases "k = []")
    (auto simp: key_from_raw_def holds_def check_text_Nil key_from_bytes_def check_text_def split: sum.splits)

lemma put_kv_refines:
  assumes "engine \<noteq> null" "heap w engine = Some (EngineBox e)" "holds w kp k" "holds w vp v"
  shows "f4kvs_engine_put_kv E t engine kp (length k) vp (length v) w =
     Some (code_of (fst (api_put_kv E e k v (lsm w))), publish t (api_put_kv E e k v (lsm w)) w)"
  using assms(4) unfolding f4kvs_engine_put_kv_def api_put_kv_def validate_engine_live [OF assms(1,2)]
  by (cases rule: check_text_cases [of MAX_KEY_LENGTH "''key''" k])
    (auto simp: key_from_raw_text [OF assms(3)] holds_def unit_result_storage code_of_def publish_def)

lemma delete_kv_refines:
  assumes "engine \<noteq> null" "heap w engine = Some (EngineBox e)" "holds w kp k"
  shows "f4kvs_engine_delete_kv E t engine kp (length k) w =
     (let rx = text_call ''Delete kv failed: '' (lsm_delete E e) ''key'' k (lsm w) in
      Some (code_of (fst rx), publish t rx w))"
  unfolding f4kvs_engine_delete_kv_def text_call_def validate_engine_live [OF assms(1,2)]
  by (cases rule: check_text_cases [of MAX_KEY_LENGTH "''key''" k])
    (auto simp: key_from_raw_text [OF assms(3)] unit_result_storage code_of_def publish_def Let_def)

lemma get_kv_refines:
  assumes "engine \<noteq> null" "heap w engine = Some (EngineBox e)" "holds w kp k" "vo \<noteq> null" "vl \<noteq> null"
  shows "f4kvs_engine_get_kv E t engine kp (length k) vo vl w =
     (let rx = text_call ''Get kv failed: '' (get_now E e) ''key'' k (lsm w); w1 = publish t rx w in
      case fst rx of
        Inr (Some v) \<Rightarrow>
          (let (p, w2) = allocate_bytes (allocator E) (value_to_bytes v) w1 in Some ((Success, Some p), w2))
      | Inr None \<Rightarrow> Some ((ErrorNotFound, Some (null, 0)), w1)
      | Inl (c, _) \<Rightarrow> Some ((c, None), w1))"
  using assms(4,5) unfolding f4kvs_engine_get_kv_def text_call_def validate_engine_live [OF assms(1,2)]
  by (cases rule: check_text_cases [of MAX_KEY_LENGTH "''key''" k])
    (auto simp: key_from_raw_text [OF assms(3)] storage_def lsm_call_def publish_def
      split: prod.splits sum.splits option.splits)

lemma get_now_laws:
  assumes "lsm_laws E kv" "get_now E e k x = (r, x')"
  shows "kv x' e = kv x e" "r = Inr v \<Longrightarrow> v = kv x e k"
proof -
  have g: "\<And>x r x'. lsm_get E e k x = (r, x') \<Longrightarrow> kv x' e = kv x e \<and> (\<forall>v. r = Inr v \<longrightarrow> v = kv x e k)"
    and s: "\<And>x r x'. lsm_try_get_sync E e k x = (r, x') \<Longrightarrow> kv x' e = kv x e \<and> (\<forall>v. r = Some (Inr v) \<longrightarrow> v = kv x e k)"
    using assms(1) by (auto simp: lsm_laws_def lsm_read_laws_def)
  obtain r1 x1 where 1: "lsm_try_get_sync E e k x = (r1, x1)" by fastforce
  with assms(2) s [OF 1] g [of x1] show "kv x' e = kv x e" "r = Inr v \<Longrightarrow> v = kv x e k"
    by (auto simp: get_now_def split: option.splits)
qed

text \<open>A successful put changes the state of the library only, and there only the one key.\<close>

lemma put_kv_success:
  assumes "lsm_laws E kv" "engine \<noteq> null" "heap w engine = Some (EngineBox e)" "holds w kp k" "holds w vp v"
    and "f4kvs_engine_put_kv E t engine kp (length k) vp (length v) w = Some (Success, w1)"
  shows "check_text MAX_KEY_LENGTH ''key'' k = Inr k" "\<exists>x. w1 = w\<lparr>lsm := x\<rparr>" "kv (lsm w1) e = (kv (lsm w) e)(k \<mapsto> VBytes v)"
proof -
  from assms(6) have put: "code_of (fst (api_put_kv E e k v (lsm w))) = Success" "w1 = publish t (api_put_kv E e k v (lsm w)) w"
    unfolding put_kv_refines [OF assms(2-5)] by simp_all
  show ok: "check_text MAX_KEY_LENGTH ''key'' k = Inr k"
    using put(1) by (cases rule: check_text_cases [of MAX_KEY_LENGTH "''key''" k]) (auto simp: api_put_kv_def code_of_def check_text_Inr)
  have lv: "\<not> MAX_VALUE_LENGTH < length v" using put(1) by (auto simp: api_put_kv_def ok code_of_def)
  obtain r x1 where r: "lsm_put E e k (VBytes v) (lsm w) = (r, x1)" by fastforce
  with put(1) ok lv have ru: "r = Inr ()" by (cases r) (auto simp: api_put_kv_def storage_def code_of_def)
  with put(2) ok lv r have w1: "w1 = w\<lparr>lsm := x1\<rparr>" by (simp add: api_put_kv_def storage_def publish_def)
  then show "\<exists>x. w1 = w\<lparr>lsm := x\<rparr>" by blast
  show "kv (lsm w1) e = (kv (lsm w) e)(k \<mapsto> VBytes v)" using lsm_writeD(1) [OF assms(1)] r ru w1 by simp
qed

text \<open>A buffer from \<^verbatim>\<open>allocate_bytes\<close> is readable, and freeing it restores the heap.\<close>

lemma buffer_roundtrip:
  assumes "fresh_allocator al" "reg_inv w" "allocate_bytes al v w = ((p, n), w2)"
  shows "n = length v" "buf_at w2 p (length v) = Some v" "\<exists>w3. f4kvs_bytes_free p w2 = Some w3 \<and> heap w3 = heap w \<and> reg_inv w3"
proof -
  note hb = handed_bytes [OF assms(1) handed_refl [OF assms(2)] assms(3)]
  show "n = length v" "buf_at w2 p (length v) = Some v" using hb(3,5,6) by (simp_all add: buf_at_bytes)
  from handed_bytes_free [OF hb(1,4)] obtain w3 where
    w3: "f4kvs_bytes_free p w2 = Some w3" "handed {} ((if v = [] then {} else {p}) - {p}) w w3" by metis
  have "(if v = [] then {} else {p}) - {p} = {}" by simp
  with w3 handed_none handedD(2) show "\<exists>w3. f4kvs_bytes_free p w2 = Some w3 \<and> heap w3 = heap w \<and> reg_inv w3" by metis
qed

section \<open>Batches and scans\<close>

text \<open>The four arrays of a batch hold its items.\<close>

fun kv_arrays :: "('x, 'c) world \<Rightarrow> (bytes \<times> bytes) list \<Rightarrow> addr list \<Rightarrow> nat list \<Rightarrow> addr list \<Rightarrow> nat list \<Rightarrow> bool" where
  "kv_arrays w [] [] [] [] [] = True"
| "kv_arrays w ((k, v) # items) (a # ks) (kl # kls) (b # vs) (vl # vls) =
     (kl = length k \<and> vl = length v \<and> holds w a k \<and> holds w b v \<and> kv_arrays w items ks kls vs vls)"
| "kv_arrays w _ _ _ _ _ = False"

fun check_kv_items :: "(bytes \<times> bytes) list \<Rightarrow> (bytes \<times> lsm_value) list answer" where
  "check_kv_items [] = Inr []"
| "check_kv_items ((k, v) # items) =
     (case check_text MAX_KEY_LENGTH ''key'' k of
        Inl err \<Rightarrow> Inl err
      | Inr key \<Rightarrow>
          if MAX_VALUE_LENGTH < length v then
            Inl (ErrorInvalidArgument, ''Invalid argument: value exceeds maximum length'')
          else case check_kv_items items of
                 Inl err \<Rightarrow> Inl err
               | Inr kvs \<Rightarrow> Inr ((key, VBytes v) # kvs))"

definition api_batch_put_kv :: "('x, 'c) env \<Rightarrow> eid \<Rightarrow> (bytes \<times> bytes) list \<Rightarrow> 'x \<Rightarrow> unit answer \<times> 'x" where
  "api_batch_put_kv E e items x =
     (case check_count E e (length items) x of
        Inl err \<Rightarrow> (Inl err, x)
      | Inr _ \<Rightarrow>
          (case check_kv_items items of
             Inl err \<Rightarrow> (Inl err, x)
           | Inr kvs \<Rightarrow> storage ''Batch put kv failed: '' (lsm_batch_put E e kvs x)))"

definition api_batch_delete_kv :: "('x, 'c) env \<Rightarrow> eid \<Rightarrow> bytes list \<Rightarrow> 'x \<Rightarrow> unit answer \<times> 'x" where
  "api_batch_delete_kv E e ks x =
     (case check_count E e (length ks) x of
        Inl err \<Rightarrow> (Inl err, x)
      | Inr _ \<Rightarrow>
          (case check_keys ks of
             Inl err \<Rightarrow> (Inl err, x)
           | Inr keys \<Rightarrow> storage ''Batch delete kv failed: '' (lsm_batch_delete E e keys x)))"

lemma batch_put_kv_items_refines:
  "kv_arrays w items ks kls vs vls \<Longrightarrow>
   batch_put_kv_items t (length items) ks kls vs vls w =
     Some (case check_kv_items items of
             Inr kvs \<Rightarrow> (Inr kvs, w)
           | Inl (c, m) \<Rightarrow> (Inl c, set_last_error t m w))"
proof (induction w items ks kls vs vls rule: kv_arrays.induct)
  case (2 w k v items a ks kl kls b vs vl vls)
  then show ?case
    by (cases rule: check_text_cases [of MAX_KEY_LENGTH "''key''" k])
      (auto simp: key_from_raw_text holds_def split: sum.splits)
qed simp_all

lemma batch_put_kv_refines:
  assumes "engine \<noteq> null" "heap w engine = Some (EngineBox e)" "kv_arrays w items ks kls vs vls"
  shows "f4kvs_engine_batch_put_kv E t engine (Some ks) (Some kls) (Some vs) (Some vls) (length items) w =
     Some (code_of (fst (api_batch_put_kv E e items (lsm w))), publish t (api_batch_put_kv E e items (lsm w)) w)"
  using assms
  by (auto simp: f4kvs_engine_batch_put_kv_def api_batch_put_kv_def validate_engine_live check_count_reject
      batch_put_kv_items_refines unit_result_storage code_of_def publish_def split: sum.splits)

fun kv_key_arrays :: "('x, 'c) world \<Rightarrow> bytes list \<Rightarrow> addr list \<Rightarrow> nat list \<Rightarrow> bool" where
  "kv_key_arrays w [] [] [] = True"
| "kv_key_arrays w (k # keys) (a # ks) (kl # kls) = (kl = length k \<and> holds w a k \<and> kv_key_arrays w keys ks kls)"
| "kv_key_arrays w _ _ _ = False"

lemma batch_delete_kv_keys_refines:
  "kv_key_arrays w keys ks kls \<Longrightarrow>
   batch_delete_kv_keys t (length keys) ks kls w =
     Some (case check_keys keys of
             Inr kvs \<Rightarrow> (Inr kvs, w)
           | Inl (c, m) \<Rightarrow> (Inl c, set_last_error t m w))"
proof (induction w keys ks kls rule: kv_key_arrays.induct)
  case (2 w k keys a ks kl kls)
  then show ?case
    by (cases rule: check_text_cases [of MAX_KEY_LENGTH "''key''" k])
      (auto simp: key_from_raw_text split: sum.splits)
qed simp_all

lemma batch_delete_kv_refines:
  assumes "engine \<noteq> null" "heap w engine = Some (EngineBox e)" "kv_key_arrays w keys ks kls"
  shows "f4kvs_engine_batch_delete_kv E t engine (Some ks) (Some kls) (length keys) w =
     Some (code_of (fst (api_batch_delete_kv E e keys (lsm w))), publish t (api_batch_delete_kv E e keys (lsm w)) w)"
  using assms
  by (auto simp: f4kvs_engine_batch_delete_kv_def api_batch_delete_kv_def validate_engine_live check_count_reject
      batch_delete_kv_keys_refines unit_result_storage code_of_def publish_def split: sum.splits)

text \<open>
  The scans reach every prefix, but hand keys out as C strings: a matching key with a NUL byte makes the
  whole scan fail.
\<close>

lemma scan_prefix_kv_pairs:
  assumes "lsm_laws E kv" "fresh_allocator (allocator E)" "reg_inv w" "out \<noteq> null"
    and "engine \<noteq> null" "heap w engine = Some (EngineBox e)" "holds w pp p"
  shows "\<exists>code res w1. f4kvs_engine_scan_prefix_kv E t engine pp (length p) out w = Some ((code, res), w1) \<and>
    kv (lsm w1) e = kv (lsm w) e \<and>
    (case res of
       None \<Rightarrow> code \<noteq> Success \<and> heap w1 = heap w
     | Some scan \<Rightarrow> code = Success \<and> (\<exists>kvs w2. read_page w1 scan = Some (map pair_text kvs) \<and> distinct (map fst kvs) \<and>
         set kvs = {(k, v). kv (lsm w) e k = Some v \<and> prefix p k} \<and>
         f4kvs_scan_result_free (Some scan) w1 = Some (Some \<lparr>sr_pairs = null, sr_count = 0\<rparr>, w2) \<and> heap w2 = heap w))"
proof -
  note call = f4kvs_engine_scan_prefix_kv_def validate_engine_live [OF assms(5,6)] key_from_raw_text [OF assms(7)] assms(4)
  show ?thesis
  proof (cases rule: check_text_cases [of MAX_KEY_LENGTH "''prefix''" p])
    case (bad m)
    then show ?thesis by (simp add: call)
  next
    case (ok u)
    then have u: "u = p" by (simp add: check_text_Inr)
    obtain r x1 where r: "lsm_scan_prefix_with_values E e p (lsm w) = (r, x1)" by fastforce
    have l: "kv x1 e = kv (lsm w) e"
      "\<And>kvs. r = Inr kvs \<Longrightarrow> distinct (map fst kvs) \<and> set kvs = {(k, v). kv (lsm w) e k = Some v \<and> prefix p k}"
      using assms(1) r by (auto simp: lsm_laws_def lsm_read_laws_def)
    show ?thesis
    proof (cases r)
      case (Inl m)
      with ok u r l(1) show ?thesis by (simp add: call lsm_call_def)
    next
      case (Inr kvs)
      have "reg_inv (w\<lparr>lsm := x1\<rparr>)" using assms(3) by simp
      note page = page_ok [OF assms(2) this, of kvs t]
      have step: "f4kvs_engine_scan_prefix_kv E t engine pp (length p) out w = fill_scan_result (allocator E) t kvs (w\<lparr>lsm := x1\<rparr>)"
        using ok u r Inr by (simp add: call lsm_call_def)
      show ?thesis
      proof (cases "\<exists>kv\<in>set kvs. NUL \<in> set (fst kv)")
        case True
        with page obtain w1 where "fill_scan_result (allocator E) t kvs (w\<lparr>lsm := x1\<rparr>) = Some ((ErrorStorage, None), w1)"
          "handed {} {} (w\<lparr>lsm := x1\<rparr>) w1" by auto
        then show ?thesis using l(1) handed_none handedD(4) step by fastforce
      next
        case False
        with page obtain res w1 w2 where "fill_scan_result (allocator E) t kvs (w\<lparr>lsm := x1\<rparr>) = Some ((Success, Some res), w1)"
          "read_page w1 res = Some (map pair_text kvs)" "lsm w1 = x1" "handed {} {} (w\<lparr>lsm := x1\<rparr>) w2"
          "f4kvs_scan_result_free (Some res) w1 = Some (Some \<lparr>sr_pairs = null, sr_count = 0\<rparr>, w2)" by auto
        moreover from this(4) have "heap w2 = heap w" by (simp add: handed_none)
        ultimately show ?thesis using l(1) l(2) [OF Inr] step by auto
      qed
    qed
  qed
qed

section \<open>Put, then get\<close>

text \<open>
  C11. The length-prefixed functions reach every key: after a successful \<^verbatim>\<open>f4kvs_engine_put_kv\<close> the contents
  are the old ones with exactly this key changed, NUL bytes in it or not, and \<^verbatim>\<open>f4kvs_engine_get_kv\<close> of the key
  returns, never reports it missing, and a value it hands out is a buffer with the bytes that were put,
  which \<^verbatim>\<open>f4kvs_bytes_free\<close> gives back to the last byte.
\<close>

theorem kv_put_get_roundtrip:
  assumes "lsm_laws E kv" "fresh_allocator (allocator E)" "reg_inv w"
    and "engine \<noteq> null" "heap w engine = Some (EngineBox e)" "holds w kp k" "holds w vp v" "vo \<noteq> null" "vl \<noteq> null"
    and "f4kvs_engine_put_kv E t engine kp (length k) vp (length v) w = Some (Success, w1)"
  shows "kv (lsm w1) e = (kv (lsm w) e)(k \<mapsto> VBytes v) \<and>
    (\<exists>code out w2. f4kvs_engine_get_kv E t' engine kp (length k) vo vl w1 = Some ((code, out), w2) \<and>
       (code = ErrorStorage \<and> out = None \<and> heap w2 = heap w \<or>
        code = Success \<and> (\<exists>p w3. out = Some (p, length v) \<and> buf_at w2 p (length v) = Some v \<and>
           f4kvs_bytes_free p w2 = Some w3 \<and> heap w3 = heap w \<and> reg_inv w3)))"
proof -
  note put = put_kv_success [OF assms(1,4-7,10)]
  from put(2) obtain x1 where w1: "w1 = w\<lparr>lsm := x1\<rparr>" by blast
  have live1: "heap w1 engine = Some (EngineBox e)" "holds w1 kp k" "reg_inv w1" "heap w1 = heap w"
    using assms(3,5,6) w1 by (simp_all add: holds_def slice_from_raw_def mem_at_def)
  obtain g x2 where g: "get_now E e k (lsm w1) = (g, x2)" by fastforce
  note get = get_kv_refines [OF assms(4) live1(1,2) assms(8,9), of E t', unfolded text_call_def put(1) Let_def]
  show ?thesis
  proof (cases g)
    case (Inl m)
    with g live1(4) put(3) show ?thesis by (simp add: get storage_def publish_def)
  next
    case (Inr a)
    have a: "a = Some (VBytes v)" using get_now_laws(2) [OF assms(1) g Inr] put(3) by simp
    have inv: "reg_inv (w1\<lparr>lsm := x2\<rparr>)" using live1(3) by simp
    obtain p n w2 where p: "allocate_bytes (allocator E) v (w1\<lparr>lsm := x2\<rparr>) = ((p, n), w2)" by (metis prod.exhaust)
    from buffer_roundtrip [OF assms(2) inv p] show ?thesis
      using g Inr a p live1(4) put(3) by (simp add: get storage_def publish_def)
  qed
qed

text \<open>The concrete instance has a key with a NUL byte in the middle.\<close>

definition kv_world :: "(ref_lsm, unit) world" where
  "kv_world = (ref_world 5)\<lparr>heap := (heap (ref_world 5))(3 \<mapsto> CMem [CHR ''a'', NUL, CHR ''b''], 4 \<mapsto> CMem ''v''), tick := 5\<rparr>"

lemma kv_world_ok: "reg_inv kv_world" "heap kv_world 2 = Some (EngineBox 0)" "lsm kv_world = ref_init 5"
  using reg_inv_insert_plain [OF reg_inv_insert_plain [OF ref_world_inv [of 5], of 3 "CMem [CHR ''a'', NUL, CHR ''b'']" 1],
      of 4 "CMem ''v''" 5]
  by (simp_all add: kv_world_def ref_world_def)

lemma kv_world_holds: "holds kv_world 3 [CHR ''a'', NUL, CHR ''b'']" "holds kv_world 4 ''v''"
  by (simp_all add: holds_def kv_world_def slice_from_raw_def mem_at_def)

theorem kv_put_get_roundtrip_witness:
  "\<exists>w1 code out w2. f4kvs_engine_put_kv ref_env 0 2 3 (length [CHR ''a'', NUL, CHR ''b'']) 4 (length ''v'') kv_world = Some (Success, w1) \<and>
     ref_kv (lsm w1) 0 [CHR ''a'', NUL, CHR ''b''] = Some (VBytes ''v'') \<and>
     f4kvs_engine_get_kv ref_env 1 2 3 (length [CHR ''a'', NUL, CHR ''b'']) 8 9 w1 = Some ((code, out), w2) \<and> code \<noteq> ErrorNotFound"
proof -
  let ?k = "[CHR ''a'', NUL, CHR ''b'']"
  have u: "valid_utf8 ?k" by code_simp
  then have c: "check_text MAX_KEY_LENGTH ''key'' ?k = Inr ?k" by (simp add: check_text_Inr MAX_KEY_LENGTH_def)
  have al: "fresh_allocator (allocator ref_env)" by (simp add: ref_env_def ref_allocator_fresh)
  have put: "f4kvs_engine_put_kv ref_env 0 2 3 (length ?k) 4 (length ''v'') kv_world =
      Some (Success, publish 0 (api_put_kv ref_env 0 ?k ''v'' (lsm kv_world)) kv_world)"
    using put_kv_refines [OF _ kv_world_ok(2) kv_world_holds, of ref_env 0]
    by (simp add: api_put_kv_def c code_of_def storage_def ref_env_def MAX_VALUE_LENGTH_def)
  have n: "(2 :: addr) \<noteq> null" "(8 :: addr) \<noteq> null" "(9 :: addr) \<noteq> null" by simp_all
  note R = kv_put_get_roundtrip [OF ref_laws al kv_world_ok(1) n(1) kv_world_ok(2) kv_world_holds n(2,3) put, of 1]
  have "ref_kv (lsm (publish 0 (api_put_kv ref_env 0 ?k ''v'' (lsm kv_world)) kv_world)) 0 ?k = Some (VBytes ''v'')"
    unfolding conjunct1 [OF R] by simp
  moreover obtain code out w2 where
    "f4kvs_engine_get_kv ref_env 1 2 3 (length ?k) 8 9 (publish 0 (api_put_kv ref_env 0 ?k ''v'' (lsm kv_world)) kv_world) =
       Some ((code, out), w2)" "code = ErrorStorage \<or> code = Success" using conjunct2 [OF R] by blast
  ultimately show ?thesis using put by fastforce
qed

end
