(* ===== verification/Ffi_Cursor.thy ===== *)
theory Ffi_Cursor
  imports Ffi_Kv
begin

text \<open>
  The incremental scans of \<^verbatim>\<open>lib.rs\<close>: the cursor (\<^verbatim>\<open>f4kvs_engine_cursor_open\<close>, \<^verbatim>\<open>_next_n\<close>, \<^verbatim>\<open>_next_n_kv\<close>, \<^verbatim>\<open>_free\<close>) and
  the scan with a callback. The operations of the library they use are the record \<open>scan_lib\<close>: a scan has a
  state \<open>'c\<close>, each operation may change it, and the synchronous variants answer \<^const>\<open>None\<close> when they are not
  available. The callback works on a state \<open>'u\<close> of its own; it does not call the interface.
\<close>

type_synonym kv_pair = "bytes \<times> lsm_value"

type_synonym 'u visitor = "bytes \<Rightarrow> bytes \<Rightarrow> 'u \<Rightarrow> bool \<times> 'u"

record ('x, 'c, 'u) scan_lib =
  prefix_scan_start :: "eid \<Rightarrow> bytes \<Rightarrow> 'x \<Rightarrow> 'c reply \<times> 'x"
  try_prefix_scan_start_sync :: "eid \<Rightarrow> bytes \<Rightarrow> 'x \<Rightarrow> 'c reply option \<times> 'x"
  prefix_scan_next :: "eid \<Rightarrow> 'c \<Rightarrow> 'x \<Rightarrow> kv_pair option reply \<times> 'c \<times> 'x"
  try_prefix_scan_next_n_sync :: "eid \<Rightarrow> 'c \<Rightarrow> nat \<Rightarrow> 'x \<Rightarrow> (kv_pair list \<times> bool) reply option \<times> 'c \<times> 'x"
  try_prefix_scan_foreach_sync :: "eid \<Rightarrow> bytes \<Rightarrow> 'u visitor \<Rightarrow> 'x \<Rightarrow> 'u \<Rightarrow> unit reply option \<times> 'x \<times> 'u"

section \<open>Cursors\<close>

definition f4kvs_engine_cursor_open ::
  "('x, 'c) env \<Rightarrow> tid \<Rightarrow> addr \<Rightarrow> addr \<Rightarrow> nat \<Rightarrow> ('x, 'c) world \<Rightarrow> (addr \<times> ('x, 'c) world) option" where
  "f4kvs_engine_cursor_open E t engine pfx prefix_len w =
     do {
       (r, w1) \<leftarrow> validate_engine t engine w;
       case r of
         Inl _ \<Rightarrow> Some (null, w1)
       | Inr e \<Rightarrow> do {
           (rp, w2) \<leftarrow> key_from_raw t pfx prefix_len ''prefix'' w1;
           case rp of
             Inl _ \<Rightarrow> Some (null, w2)
           | Inr p \<Rightarrow>
               Some (alloc_block (allocator E)
                       (CursorBox \<lparr>cur_engine = e, cur_state = None, cur_prefix = p, cur_done = False\<rparr>)
                       (w2\<lparr>arcs := (arcs w2)(e := arcs w2 e + 1)\<rparr>))
         }
     }"

text \<open>The state of the scan is made at the first page.\<close>

definition start_scan :: "('x, 'c, 'u) scan_lib \<Rightarrow> eid \<Rightarrow> bytes \<Rightarrow> 'x \<Rightarrow> 'c reply \<times> 'x" where
  "start_scan L e p x =
     (case try_prefix_scan_start_sync L e p x of
        (Some r, x1) \<Rightarrow> (r, x1)
      | (None, x1) \<Rightarrow> prefix_scan_start L e p x1)"

definition cursor_ensure_state ::
  "('x, 'c, 'u) scan_lib \<Rightarrow> tid \<Rightarrow> 'c F4KvsCursor \<Rightarrow> ('x, 'c) world \<Rightarrow>
   ((F4KvsResult + 'c) \<times> 'c F4KvsCursor) \<times> ('x, 'c) world" where
  "cursor_ensure_state L t cur w =
     (case cur_state cur of
        Some c \<Rightarrow> ((Inr c, cur), w)
      | None \<Rightarrow>
          (case lsm_call (start_scan L (cur_engine cur) (cur_prefix cur)) w of
             (Inr c, w1) \<Rightarrow> ((Inr c, cur\<lparr>cur_state := Some c\<rparr>), w1)
           | (Inl m, w1) \<Rightarrow> ((Inl ErrorStorage, cur), set_last_error t (''Cursor start failed: '' @ m) w1)))"

text \<open>The asynchronous page: pairs one by one; an error drops the pairs of the page read before it.\<close>

fun pull_n ::
  "('x, 'c, 'u) scan_lib \<Rightarrow> eid \<Rightarrow> nat \<Rightarrow> 'c \<Rightarrow> 'x \<Rightarrow> (kv_pair list \<times> bool) reply \<times> 'c \<times> 'x" where
  "pull_n L e 0 c x = (Inr ([], False), c, x)"
| "pull_n L e (Suc n) c x =
     (case prefix_scan_next L e c x of
        (Inr (Some kv), c1, x1) \<Rightarrow>
          (case pull_n L e n c1 x1 of
             (Inr (items, eof), c2, x2) \<Rightarrow> (Inr (kv # items, eof), c2, x2)
           | (Inl m, c2, x2) \<Rightarrow> (Inl m, c2, x2))
      | (Inr None, c1, x1) \<Rightarrow> (Inr ([], True), c1, x1)
      | (Inl m, c1, x1) \<Rightarrow> (Inl m, c1, x1))"

definition next_page ::
  "('x, 'c, 'u) scan_lib \<Rightarrow> eid \<Rightarrow> nat \<Rightarrow> 'c \<Rightarrow> 'x \<Rightarrow> (kv_pair list \<times> bool) reply \<times> 'c \<times> 'x" where
  "next_page L e n c x =
     (case try_prefix_scan_next_n_sync L e c n x of
        (Some r, c1, x1) \<Rightarrow> (r, c1, x1)
      | (None, c1, x1) \<Rightarrow> pull_n L e n c1 x1)"

definition cursor_pull_page ::
  "('x, 'c, 'u) scan_lib \<Rightarrow> tid \<Rightarrow> 'c F4KvsCursor \<Rightarrow> nat \<Rightarrow> ('x, 'c) world \<Rightarrow>
   ((F4KvsResult + kv_pair list \<times> bool) \<times> 'c F4KvsCursor) \<times> ('x, 'c) world" where
  "cursor_pull_page L t cur n w =
     (case cursor_ensure_state L t cur w of
        ((Inl c, cur1), w1) \<Rightarrow> ((Inl c, cur1), w1)
      | ((Inr st, cur1), w1) \<Rightarrow>
          (case next_page L (cur_engine cur1) n st (lsm w1) of
             (Inr (items, eof), st1, x1) \<Rightarrow>
               ((Inr (items, eof), cur1\<lparr>cur_state := (if eof then None else Some st1)\<rparr>), w1\<lparr>lsm := x1\<rparr>)
           | (Inl m, st1, x1) \<Rightarrow>
               ((Inl ErrorStorage, cur1\<lparr>cur_state := Some st1\<rparr>),
                set_last_error t (''Cursor next failed: '' @ m) (w1\<lparr>lsm := x1\<rparr>))))"

text \<open>
  What both page functions do with the cursor itself: the arguments, the end, the page, and the cursor
  written back. The page is \<^const>\<open>None\<close> when the call is over with the code.
\<close>

definition cursor_advance ::
  "('x, 'c, 'u) scan_lib \<Rightarrow> tid \<Rightarrow> addr \<Rightarrow> nat \<Rightarrow> addr \<Rightarrow> ('x, 'c) world \<Rightarrow>
   ((F4KvsResult + kv_pair list) \<times> ('x, 'c) world) option" where
  "cursor_advance L t cur n result_out w =
     (if cur = null \<or> result_out = null then
        Some (Inl ErrorInvalidArgument, set_last_error t ''Invalid argument: cursor or result_out is null'' w)
      else case heap w cur of
        Some (CursorBox c) \<Rightarrow>
          if cur_done c \<or> n = 0 then Some (Inr [], w)
          else
            (case cursor_pull_page L t c n w of
               ((Inr (items, eof), c1), w1) \<Rightarrow>
                 Some (Inr items, w1\<lparr>heap := (heap w1)(cur \<mapsto> CursorBox (c1\<lparr>cur_done := eof\<rparr>))\<rparr>)
             | ((Inl code, c1), w1) \<Rightarrow> Some (Inl code, w1\<lparr>heap := (heap w1)(cur \<mapsto> CursorBox c1)\<rparr>))
      | _ \<Rightarrow> None)"

definition f4kvs_engine_cursor_next_n ::
  "('x, 'c) env \<Rightarrow> ('x, 'c, 'u) scan_lib \<Rightarrow> tid \<Rightarrow> addr \<Rightarrow> nat \<Rightarrow> addr \<Rightarrow> ('x, 'c) world \<Rightarrow>
   ((F4KvsResult \<times> F4KvsScanResult option) \<times> ('x, 'c) world) option" where
  "f4kvs_engine_cursor_next_n E L t cur n result_out w =
     do {
       (r, w1) \<leftarrow> cursor_advance L t cur n result_out w;
       case r of
         Inl code \<Rightarrow> Some ((code, None), w1)
       | Inr items \<Rightarrow> fill_scan_result (allocator E) t items w1
     }"

definition f4kvs_engine_cursor_next_n_kv ::
  "('x, 'c) env \<Rightarrow> ('x, 'c, 'u) scan_lib \<Rightarrow> tid \<Rightarrow> addr \<Rightarrow> nat \<Rightarrow> addr \<Rightarrow> ('x, 'c) world \<Rightarrow>
   ((F4KvsResult \<times> F4KvsScanResultKv option) \<times> ('x, 'c) world) option" where
  "f4kvs_engine_cursor_next_n_kv E L t cur n result_out w =
     do {
       (r, w1) \<leftarrow> cursor_advance L t cur n result_out w;
       case r of
         Inl code \<Rightarrow> Some ((code, None), w1)
       | Inr items \<Rightarrow>
           (let ((code, res), w2) = fill_scan_result_kv (allocator E) items w1 in Some ((code, Some res), w2))
     }"

definition f4kvs_engine_cursor_free ::
  "('x, 'c) env \<Rightarrow> addr \<Rightarrow> ('x, 'c) world \<Rightarrow> ('x, 'c) world option" where
  "f4kvs_engine_cursor_free E cur w =
     (if cur = null then Some w
      else case heap w cur of
             Some (CursorBox c) \<Rightarrow> Some (drop_arc E (cur_engine c) (drop_block cur w))
           | _ \<Rightarrow> None)"

section \<open>The scan with a callback\<close>

text \<open>The payload the asynchronous loop passes on; other values are skipped.\<close>

fun cb_payload :: "lsm_value \<Rightarrow> bytes option" where
  "cb_payload (VBytes b) = Some b"
| "cb_payload (VString s) = Some s"
| "cb_payload _ = None"

partial_function (option) cb_loop ::
  "('x, 'c, 'u) scan_lib \<Rightarrow> eid \<Rightarrow> 'u visitor \<Rightarrow> 'c \<Rightarrow> 'x \<Rightarrow> 'u \<Rightarrow> (unit reply \<times> 'x \<times> 'u) option" where
  "cb_loop L e visit c x u =
     (case prefix_scan_next L e c x of
        (Inr (Some (k, v)), c1, x1) \<Rightarrow>
          (case cb_payload v of
             None \<Rightarrow> cb_loop L e visit c1 x1 u
           | Some payload \<Rightarrow>
               (let (more, u1) = visit k payload u in
                if more then cb_loop L e visit c1 x1 u1 else Some (Inr (), x1, u1)))
      | (Inr None, c1, x1) \<Rightarrow> Some (Inr (), x1, u)
      | (Inl m, c1, x1) \<Rightarrow> Some (Inl m, x1, u))"

text \<open>A C callback: the handle of the caller, key, value, and an \<^verbatim>\<open>int\<close>, with 0 for going on.\<close>

type_synonym 'u c_callback = "64 word \<Rightarrow> bytes \<Rightarrow> bytes \<Rightarrow> 'u \<Rightarrow> 32 word \<times> 'u"

definition cb_visit :: "'u c_callback \<Rightarrow> 64 word \<Rightarrow> 'u visitor" where
  "cb_visit cb user k v u = (let (r, u1) = cb user k v u in (r = 0, u1))"

definition cb_result ::
  "tid \<Rightarrow> bytes \<Rightarrow> ('x, 'c) world \<Rightarrow> unit reply \<times> 'x \<times> 'u \<Rightarrow> F4KvsResult \<times> ('x, 'c) world \<times> 'u" where
  "cb_result t label w rxu =
     (case rxu of
        (Inr _, x, u) \<Rightarrow> (Success, w\<lparr>lsm := x\<rparr>, u)
      | (Inl m, x, u) \<Rightarrow> (ErrorStorage, set_last_error t (label @ m) (w\<lparr>lsm := x\<rparr>), u))"

definition f4kvs_engine_scan_prefix_cb ::
  "('x, 'c, 'u) scan_lib \<Rightarrow> tid \<Rightarrow> addr \<Rightarrow> addr \<Rightarrow> nat \<Rightarrow> 'u c_callback option \<Rightarrow> 64 word \<Rightarrow> ('x, 'c) world \<Rightarrow> 'u \<Rightarrow>
   (F4KvsResult \<times> ('x, 'c) world \<times> 'u) option" where
  "f4kvs_engine_scan_prefix_cb L t engine pfx prefix_len cb user w u =
     (case cb of
        None \<Rightarrow> Some (ErrorInvalidArgument, set_last_error t ''Invalid argument: cb is null'' w, u)
      | Some f \<Rightarrow> do {
          (r, w1) \<leftarrow> validate_engine t engine w;
          case r of
            Inl c \<Rightarrow> Some (c, w1, u)
          | Inr e \<Rightarrow> do {
              (rp, w2) \<leftarrow> key_from_raw t pfx prefix_len ''prefix'' w1;
              case rp of
                Inl c \<Rightarrow> Some (c, w2, u)
              | Inr p \<Rightarrow>
                  (case try_prefix_scan_foreach_sync L e p (cb_visit f user) (lsm w2) u of
                     (Some r, x1, u1) \<Rightarrow> Some (cb_result t ''Scan prefix cb failed: '' w2 (r, x1, u1))
                   | (None, x1, u1) \<Rightarrow>
                       (case prefix_scan_start L e p x1 of
                          (Inl m, x2) \<Rightarrow>
                            Some (cb_result t ''Scan prefix cb start failed: '' w2 (Inl m, x2, u1))
                        | (Inr st, x2) \<Rightarrow> do {
                            rxu \<leftarrow> cb_loop L e (cb_visit f user) st x2 u1;
                            Some (cb_result t ''Scan prefix cb failed: '' w2 rxu)
                          }))
            }
        })"

end
