(* ===== verification/Cursor_Contract.thy ===== *)
theory Cursor_Contract
  imports Kv_Contract Ffi_Cursor
begin

text \<open>
  Incremental scans: what the documentation of the interface says about the scan operations of the library
  (\<open>scan_laws\<close>), and what the cursor and the callback scan make of them. The laws name the pairs that a
  scan state still has to deliver as \<open>rest\<close>; they speak about a scan that is not interleaved with writes.
  A client that reads and frees page after page is \<open>fetch\<close>.
\<close>

section \<open>The scan operations of the library\<close>

text \<open>A list of the pairs under a prefix, each once, in some order.\<close>

definition enumerates :: "(bytes \<rightharpoonup> lsm_value) \<Rightarrow> bytes \<Rightarrow> kv_pair list \<Rightarrow> bool" where
  "enumerates m p ps \<longleftrightarrow> distinct (map fst ps) \<and> set ps = {(k, v). m k = Some v \<and> prefix p k}"

text \<open>Visiting pairs one after the other until the callback stops.\<close>

fun visit_until :: "'u visitor \<Rightarrow> (bytes \<times> bytes) list \<Rightarrow> 'u \<Rightarrow> bool \<times> 'u" where
  "visit_until visit [] u = (True, u)"
| "visit_until visit ((k, v) # kvs) u =
     (let (more, u1) = visit k v u in if more then visit_until visit kvs u1 else (False, u1))"

definition start_law :: "'x contents \<Rightarrow> ('x \<Rightarrow> eid \<Rightarrow> 'c \<Rightarrow> kv_pair list) \<Rightarrow> eid \<Rightarrow> bytes \<Rightarrow> 'x \<Rightarrow> 'c reply \<times> 'x \<Rightarrow> bool" where
  "start_law kv rest e p x rx \<longleftrightarrow>
     kv (snd rx) e = kv x e \<and> (\<forall>c. fst rx = Inr c \<longrightarrow> enumerates (kv x e) p (rest (snd rx) e c))"

definition next_law ::
  "'x contents \<Rightarrow> ('x \<Rightarrow> eid \<Rightarrow> 'c \<Rightarrow> kv_pair list) \<Rightarrow> eid \<Rightarrow> 'c \<Rightarrow> 'x \<Rightarrow> kv_pair option reply \<times> 'c \<times> 'x \<Rightarrow> bool" where
  "next_law kv rest e c x = (\<lambda>(r, c', x'). kv x' e = kv x e \<and>
     (case r of
        Inr (Some pair) \<Rightarrow> rest x e c = pair # rest x' e c'
      | Inr None \<Rightarrow> rest x e c = [] \<and> rest x' e c' = []
      | Inl _ \<Rightarrow> rest x' e c' = rest x e c))"

definition page_law ::
  "'x contents \<Rightarrow> ('x \<Rightarrow> eid \<Rightarrow> 'c \<Rightarrow> kv_pair list) \<Rightarrow> eid \<Rightarrow> 'c \<Rightarrow> nat \<Rightarrow> 'x \<Rightarrow> (kv_pair list \<times> bool) reply option \<times> 'c \<times> 'x \<Rightarrow> bool" where
  "page_law kv rest e c n x = (\<lambda>(r, c', x'). kv x' e = kv x e \<and>
     (case r of
        Some (Inr (items, eof)) \<Rightarrow>
          rest x e c = items @ rest x' e c' \<and> length items \<le> n \<and> (if eof then rest x' e c' = [] else length items = n)
      | _ \<Rightarrow> rest x' e c' = rest x e c))"

definition foreach_law ::
  "'x contents \<Rightarrow> eid \<Rightarrow> bytes \<Rightarrow> 'u visitor \<Rightarrow> 'x \<Rightarrow> 'u \<Rightarrow> unit reply option \<times> 'x \<times> 'u \<Rightarrow> bool" where
  "foreach_law kv e p visit x u = (\<lambda>(r, x', u'). kv x' e = kv x e \<and>
     (case r of
        None \<Rightarrow> u' = u
      | Some (Inr _) \<Rightarrow> (\<exists>ps. enumerates (kv x e) p ps \<and> u' = snd (visit_until visit (map pair_text ps) u))
      | Some (Inl _) \<Rightarrow> (\<exists>ps qs. enumerates (kv x e) p (ps @ qs) \<and> visit_until visit (map pair_text ps) u = (True, u'))))"

definition plain_values :: "(bytes \<rightharpoonup> lsm_value) \<Rightarrow> bytes \<Rightarrow> bool" where
  "plain_values m p \<longleftrightarrow> (\<forall>k v. m k = Some v \<longrightarrow> prefix p k \<longrightarrow> cb_payload v \<noteq> None)"

definition scan_laws :: "('x, 'c, 'u) scan_lib \<Rightarrow> 'x contents \<Rightarrow> ('x \<Rightarrow> eid \<Rightarrow> 'c \<Rightarrow> kv_pair list) \<Rightarrow> bool" where
  "scan_laws L kv rest \<longleftrightarrow>
     (\<forall>e p x. start_law kv rest e p x (prefix_scan_start L e p x)) \<and>
     (\<forall>e p x r x'. try_prefix_scan_start_sync L e p x = (r, x') \<longrightarrow>
        (case r of None \<Rightarrow> kv x' e = kv x e | Some a \<Rightarrow> start_law kv rest e p x (a, x'))) \<and>
     (\<forall>e c x. next_law kv rest e c x (prefix_scan_next L e c x)) \<and>
     (\<forall>e c n x. page_law kv rest e c n x (try_prefix_scan_next_n_sync L e c n x)) \<and>
     (\<forall>e p visit x u. plain_values (kv x e) p \<longrightarrow>
        foreach_law kv e p visit x u (try_prefix_scan_foreach_sync L e p visit x u))"

text \<open>A library none of whose scan operations fails.\<close>

definition scan_healthy :: "('x, 'c, 'u) scan_lib \<Rightarrow> bool" where
  "scan_healthy L \<longleftrightarrow>
     (\<forall>e p x m. fst (prefix_scan_start L e p x) \<noteq> Inl m) \<and>
     (\<forall>e p x m. fst (try_prefix_scan_start_sync L e p x) \<noteq> Some (Inl m)) \<and>
     (\<forall>e c x m. fst (prefix_scan_next L e c x) \<noteq> Inl m) \<and>
     (\<forall>e c n x m. fst (try_prefix_scan_next_n_sync L e c n x) \<noteq> Some (Inl m))"

lemma scan_lawsD:
  assumes "scan_laws L kv rest"
  shows "prefix_scan_start L e p x = rx \<Longrightarrow> start_law kv rest e p x rx"
    "try_prefix_scan_start_sync L e p x = (None, x') \<Longrightarrow> kv x' e = kv x e"
    "try_prefix_scan_start_sync L e p x = (Some a, x') \<Longrightarrow> start_law kv rest e p x (a, x')"
    "prefix_scan_next L e c x = rcx \<Longrightarrow> next_law kv rest e c x rcx"
    "try_prefix_scan_next_n_sync L e c n x = qcx \<Longrightarrow> page_law kv rest e c n x qcx"
    "try_prefix_scan_foreach_sync L e p visit x u = rxu \<Longrightarrow> plain_values (kv x e) p \<Longrightarrow> foreach_law kv e p visit x u rxu"
proof -
  note d = assms [unfolded scan_laws_def]
  note d1 = conjunct1 [OF d] and d2 = conjunct1 [OF conjunct2 [OF d], rule_format]
    and d3 = conjunct1 [OF conjunct2 [OF conjunct2 [OF d]]] and d4 = conjunct1 [OF conjunct2 [OF conjunct2 [OF conjunct2 [OF d]]]]
    and d5 = conjunct2 [OF conjunct2 [OF conjunct2 [OF conjunct2 [OF d]]]]
  show "prefix_scan_start L e p x = rx \<Longrightarrow> start_law kv rest e p x rx" using d1 by blast
  show "try_prefix_scan_start_sync L e p x = (None, x') \<Longrightarrow> kv x' e = kv x e" using d2 by fastforce
  show "try_prefix_scan_start_sync L e p x = (Some a, x') \<Longrightarrow> start_law kv rest e p x (a, x')" using d2 by fastforce
  show "prefix_scan_next L e c x = rcx \<Longrightarrow> next_law kv rest e c x rcx" using d3 by blast
  show "try_prefix_scan_next_n_sync L e c n x = qcx \<Longrightarrow> page_law kv rest e c n x qcx" using d4 by blast
  show "try_prefix_scan_foreach_sync L e p visit x u = rxu \<Longrightarrow> plain_values (kv x e) p \<Longrightarrow> foreach_law kv e p visit x u rxu"
    using d5 by blast
qed

section \<open>Pages\<close>

lemma start_scan_law:
  assumes "scan_laws L kv rest" "start_scan L e p x = (r, x')"
  shows "start_law kv rest e p x (r, x')"
proof (cases "try_prefix_scan_start_sync L e p x")
  case (Pair a x1)
  show ?thesis
  proof (cases a)
    case None
    with assms(2) Pair have "prefix_scan_start L e p x1 = (r, x')" by (simp add: start_scan_def)
    with scan_lawsD(1) [OF assms(1), of e p x1] scan_lawsD(2) [OF assms(1), of e p x x1] Pair None show ?thesis
      by (simp add: start_law_def)
  next
    case (Some b)
    with assms(2) Pair scan_lawsD(3) [OF assms(1), of e p x b x1] show ?thesis by (simp add: start_scan_def)
  qed
qed

lemma pull_n_law:
  assumes "scan_laws L kv rest" "pull_n L e n c x = (r, c', x')"
  shows "kv x' e = kv x e"
    "r = Inr (items, eof) \<Longrightarrow>
       rest x e c = items @ rest x' e c' \<and> length items \<le> n \<and> (if eof then rest x' e c' = [] else length items = n)"
proof -
  have "kv x' e = kv x e \<and> (\<forall>items eof. r = Inr (items, eof) \<longrightarrow>
       rest x e c = items @ rest x' e c' \<and> length items \<le> n \<and> (if eof then rest x' e c' = [] else length items = n))"
    using assms(2)
  proof (induction n arbitrary: c x r c' x')
    case 0
    then show ?case by auto
  next
    case (Suc n)
    obtain a c1 x1 where 1: "prefix_scan_next L e c x = (a, c1, x1)" by (metis prod_cases3)
    note law = scan_lawsD(4) [OF assms(1) 1, unfolded next_law_def prod.case]
    obtain b c2 x2 where 2: "pull_n L e n c1 x1 = (b, c2, x2)" by (metis prod_cases3)
    show ?case
      using Suc.prems 1 2 law Suc.IH [OF 2] by (auto split: sum.splits option.splits)
  qed
  then show "kv x' e = kv x e" "r = Inr (items, eof) \<Longrightarrow>
       rest x e c = items @ rest x' e c' \<and> length items \<le> n \<and> (if eof then rest x' e c' = [] else length items = n)" by blast+
qed

text \<open>A page is the next part of the scan, whole unless the scan ends in it.\<close>

lemma next_page_law:
  assumes "scan_laws L kv rest" "next_page L e n c x = (r, c', x')"
  shows "kv x' e = kv x e"
    "r = Inr (items, eof) \<Longrightarrow>
       items = take n (rest x e c) \<and> rest x' e c' = drop n (rest x e c) \<and> (eof \<longrightarrow> rest x' e c' = [])"
proof -
  have page: "items = take n ps \<and> qs = drop n ps \<and> (eof \<longrightarrow> qs = [])"
    if "ps = items @ qs" "length items \<le> n" "if eof then qs = [] else length items = n" for ps qs items :: "kv_pair list" and eof
    using that by (auto split: if_splits)
  obtain a c1 x1 where 1: "try_prefix_scan_next_n_sync L e c n x = (a, c1, x1)" by (metis prod_cases3)
  note law = scan_lawsD(5) [OF assms(1) 1, unfolded page_law_def prod.case]
  show "kv x' e = kv x e"
    using assms(2) 1 law pull_n_law(1) [OF assms(1), of e n c1 x1] by (auto simp: next_page_def split: option.splits)
  show "items = take n (rest x e c) \<and> rest x' e c' = drop n (rest x e c) \<and> (eof \<longrightarrow> rest x' e c' = [])"
    if "r = Inr (items, eof)"
  proof (cases a)
    case None
    with assms(2) 1 that have "pull_n L e n c1 x1 = (Inr (items, eof), c', x')" by (simp add: next_page_def)
    from pull_n_law(2) [OF assms(1) this refl] law None show ?thesis by (intro page) auto
  next
    case (Some b)
    with assms(2) 1 that law show ?thesis by (intro page) (auto simp: next_page_def)
  qed
qed

section \<open>The cursor\<close>

text \<open>The pairs a cursor still has to deliver; before its first page the order is open.\<close>

definition pending ::
  "'x contents \<Rightarrow> ('x \<Rightarrow> eid \<Rightarrow> 'c \<Rightarrow> kv_pair list) \<Rightarrow> ('x, 'c) world \<Rightarrow> 'c F4KvsCursor \<Rightarrow> kv_pair list \<Rightarrow> bool" where
  "pending kv rest w c ps \<longleftrightarrow>
     (if cur_done c then ps = []
      else case cur_state c of
        Some st \<Rightarrow> ps = rest (lsm w) (cur_engine c) st
      | None \<Rightarrow> enumerates (kv (lsm w) (cur_engine c)) (cur_prefix c) ps)"

lemma pull_page_law:
  assumes "scan_laws L kv rest" "cursor_pull_page L t c n w = ((r, c'), w')" "\<not> cur_done c"
  shows "heap w' = heap w" "reg_inv w' = reg_inv w" "arcs w' = arcs w" "engine_counter w' = engine_counter w"
    "kv (lsm w') (cur_engine c) = kv (lsm w) (cur_engine c)"
    "cur_engine c' = cur_engine c" "cur_prefix c' = cur_prefix c" "cur_done c' = cur_done c"
    "r = Inr (items, eof) \<Longrightarrow> \<exists>ps. pending kv rest w c ps \<and> items = take n ps \<and>
       pending kv rest w' (c'\<lparr>cur_done := eof\<rparr>) (drop n ps) \<and> (eof \<or> cur_state c' \<noteq> None)"
proof -
  obtain a c1 w1 where 1: "cursor_ensure_state L t c w = ((a, c1), w1)" by (metis prod.exhaust)
  have ens: "heap w1 = heap w" "reg_inv w1 = reg_inv w" "arcs w1 = arcs w" "engine_counter w1 = engine_counter w"
    "kv (lsm w1) (cur_engine c) = kv (lsm w) (cur_engine c)"
    "cur_engine c1 = cur_engine c" "cur_prefix c1 = cur_prefix c" "cur_done c1 = cur_done c"
    "\<And>st. a = Inr st \<Longrightarrow> pending kv rest w c (rest (lsm w1) (cur_engine c) st)"
    using 1 assms(3) start_scan_law [OF assms(1), of "cur_engine c" "cur_prefix c" "lsm w"]
    by (auto simp: cursor_ensure_state_def lsm_call_def start_law_def pending_def split: option.splits sum.splits prod.splits)
  show "heap w' = heap w" "reg_inv w' = reg_inv w" "arcs w' = arcs w" "engine_counter w' = engine_counter w"
    "cur_engine c' = cur_engine c" "cur_prefix c' = cur_prefix c" "cur_done c' = cur_done c"
    using assms(2) 1 ens by (auto simp: cursor_pull_page_def split: sum.splits prod.splits)
  show "kv (lsm w') (cur_engine c) = kv (lsm w) (cur_engine c)"
    using assms(2) 1 ens next_page_law(1) [OF assms(1)]
    by (auto simp: cursor_pull_page_def split: sum.splits prod.splits)
  show "\<exists>ps. pending kv rest w c ps \<and> items = take n ps \<and>
       pending kv rest w' (c'\<lparr>cur_done := eof\<rparr>) (drop n ps) \<and> (eof \<or> cur_state c' \<noteq> None)" if r: "r = Inr (items, eof)"
  proof -
    obtain st where a: "a = Inr st" using assms(2) 1 r by (cases a) (auto simp: cursor_pull_page_def)
    obtain b st1 x1 where 2: "next_page L (cur_engine c) n st (lsm w1) = (b, st1, x1)" by (metis prod_cases3)
    have b: "b = Inr (items, eof)" "c' = c1\<lparr>cur_state := (if eof then None else Some st1)\<rparr>" "w' = w1\<lparr>lsm := x1\<rparr>"
      using assms(2) 1 2 r a ens(6) by (auto simp: cursor_pull_page_def split: sum.splits prod.splits)
    from next_page_law(2) [OF assms(1) 2 b(1)] ens(6,9) a show ?thesis
      by (intro exI [of _ "rest (lsm w1) (cur_engine c) st"]) (auto simp: b pending_def)
  qed
qed

lemma pending_cong: "lsm w' = lsm w \<Longrightarrow> pending kv rest w' c ps = pending kv rest w c ps"
  by (simp add: pending_def cong: option.case_cong if_cong)

text \<open>One call on the cursor: what comes out is the next part, and the cursor has moved past it.\<close>

lemma cursor_advance_law:
  assumes "scan_laws L kv rest" "heap w cur = Some (CursorBox c)" "cur \<noteq> null" "out \<noteq> null"
    and "cursor_advance L t cur n out w = Some (r, w')"
  shows "\<exists>c'. heap w' = (heap w)(cur \<mapsto> CursorBox c') \<and> cur_engine c' = cur_engine c \<and> cur_prefix c' = cur_prefix c \<and>
      arcs w' = arcs w \<and> kv (lsm w') (cur_engine c) = kv (lsm w) (cur_engine c) \<and> (reg_inv w \<longrightarrow> reg_inv w') \<and>
      (\<forall>items. r = Inr items \<longrightarrow>
         c' = c \<and> w' = w \<and> items = [] \<and> (cur_done c \<or> n = 0) \<or>
         (\<exists>ps. pending kv rest w c ps \<and> items = take n ps \<and> pending kv rest w' c' (drop n ps) \<and>
            (cur_done c' \<or> cur_state c' \<noteq> None)))"
proof (cases "cur_done c \<or> n = 0")
  case True
  with assms have "r = Inr []" "w' = w" by (auto simp: cursor_advance_def)
  with True assms(2) show ?thesis by (intro exI [of _ c]) (auto simp: fun_upd_idem)
next
  case False
  obtain a c1 w1 where 1: "cursor_pull_page L t c n w = ((a, c1), w1)" by (metis prod.exhaust)
  have d: "\<not> cur_done c" using False by simp
  note law = pull_page_law [OF assms(1) 1 d]
  have inv: "reg_inv (w1\<lparr>heap := (heap w1)(cur \<mapsto> CursorBox b)\<rparr>)" if "reg_inv w" for b
  proof -
    have w1: "reg_inv w1" "heap w1 cur = Some (CursorBox c)" using that law(1,2) assms(2) by simp_all
    then show ?thesis
      using reg_inv_insert_plain [OF reg_inv_drop_plain [OF w1], of cur "CursorBox b" "tick w1"] reg_invD(2,3) [OF w1(1)] assms(3)
      by (cases "cur = 1") (auto simp: drop_block_def)
  qed
  show ?thesis
  proof (cases a)
    case (Inl code)
    with assms False 1 have "r = Inl code" "w' = w1\<lparr>heap := (heap w1)(cur \<mapsto> CursorBox c1)\<rparr>" by (auto simp: cursor_advance_def)
    with law(1,3,5,6,7) inv show ?thesis by (intro exI [of _ c1]) simp
  next
    case (Inr ie)
    obtain items eof where ie: "ie = (items, eof)" by fastforce
    let ?c = "c1\<lparr>cur_done := eof\<rparr>"
    from assms False 1 Inr ie have r: "r = Inr items" "w' = w1\<lparr>heap := (heap w1)(cur \<mapsto> CursorBox ?c)\<rparr>"
      by (auto simp: cursor_advance_def)
    from law(9) [of items eof] Inr ie obtain ps where
      "pending kv rest w c ps" "items = take n ps" "pending kv rest w1 ?c (drop n ps)" "eof \<or> cur_state c1 \<noteq> None" by blast
    moreover from this(3) have "pending kv rest w' ?c (drop n ps)"
      using pending_cong [of w' w1] r(2) by simp
    ultimately show ?thesis using law(1,3,5,6,7) inv r by (intro exI [of _ ?c]) auto
  qed
qed

text \<open>A client: one page after the other, each read and freed before the next; it stops at the first error.\<close>

fun fetch ::
  "('x, 'c) env \<Rightarrow> ('x, 'c, 'u) scan_lib \<Rightarrow> tid \<Rightarrow> addr \<Rightarrow> addr \<Rightarrow> nat list \<Rightarrow> ('x, 'c) world \<Rightarrow>
   ((bytes \<times> bytes) list \<times> ('x, 'c) world) option" where
  "fetch E L t cur out [] w = Some ([], w)"
| "fetch E L t cur out (n # ns) w =
     do {
       ((code, res), w1) \<leftarrow> f4kvs_engine_cursor_next_n_kv E L t cur n out w;
       scan \<leftarrow> (if code = Success then res else None);
       page \<leftarrow> read_page_kv w1 scan;
       (_, w2) \<leftarrow> f4kvs_scan_result_kv_free (Some scan) w1;
       (pages, w3) \<leftarrow> fetch E L t cur out ns w2;
       Some (page @ pages, w3)
     }"

lemma fetch_page:
  assumes "fresh_allocator (allocator E)" "reg_inv w1" "cursor_advance L t cur n out w = Some (Inr items, w1)"
  shows "\<exists>w2. handed {} {} w1 w2 \<and>
     fetch E L t cur out (n # ns) w =
       do { (pages, w3) \<leftarrow> fetch E L t cur out ns w2; Some (map pair_text items @ pages, w3) }"
proof -
  obtain code res wf where f: "fill_scan_result_kv (allocator E) items w1 = ((code, res), wf)" by (metis prod.exhaust)
  note page = page_kv_ok [OF assms(1,2) f]
  from page(8) obtain w2 where "f4kvs_scan_result_kv_free (Some res) wf = Some (Some \<lparr>skv_pairs = null, skv_count = 0\<rparr>, w2)"
    "handed {} {} w1 w2" by blast
  then show ?thesis
    using assms(3) f page(1,3) by (intro exI [of _ w2]) (simp add: f4kvs_engine_cursor_next_n_kv_def)
qed

lemma pending_unique: "pending kv rest w c ps \<Longrightarrow> pending kv rest w c qs \<Longrightarrow> cur_done c \<or> cur_state c \<noteq> None \<Longrightarrow> ps = qs"
  by (auto simp: pending_def split: if_splits)

lemma enumerates_exists:
  assumes "finite (dom m)"
  shows "\<exists>ps. enumerates m p ps"
proof -
  have "finite {k \<in> dom m. prefix p k}" using assms by simp
  then obtain ks where ks: "set ks = {k \<in> dom m. prefix p k}" "distinct ks" by (metis finite_distinct_list)
  let ?ps = "map (\<lambda>k. (k, the (m k))) ks"
  have "set ?ps = {(k, v). m k = Some v \<and> prefix p k}" unfolding set_map ks(1) by (auto simp: image_iff)
  with ks(2) have "enumerates m p ?ps" by (simp add: enumerates_def comp_def)
  then show ?thesis by blast
qed

lemma fetch_delivers:
  assumes "scan_laws L kv rest" "fresh_allocator (allocator E)" "cur \<noteq> null" "out \<noteq> null"
    and "reg_inv w" "heap w cur = Some (CursorBox c)" "finite (dom (kv (lsm w) (cur_engine c)))"
    and "fetch E L t cur out ns w = Some (pairs, w')"
  shows "\<exists>ps c'. pending kv rest w c ps \<and> pairs = take (sum_list ns) (map pair_text ps) \<and> heap w' = (heap w)(cur \<mapsto> CursorBox c') \<and>
     cur_engine c' = cur_engine c \<and> arcs w' = arcs w \<and> kv (lsm w') (cur_engine c) = kv (lsm w) (cur_engine c) \<and> reg_inv w'"
  using assms(5-8)
proof (induction ns arbitrary: w c pairs)
  case Nil
  have "\<exists>ps. pending kv rest w c ps"
    using enumerates_exists [OF Nil.prems(3), of "cur_prefix c"]
    by (cases "cur_done c"; cases "cur_state c") (simp_all add: pending_def)
  then obtain ps where "pending kv rest w c ps" by blast
  with Nil show ?case by (intro exI [of _ ps] exI [of _ c]) (simp add: fun_upd_idem)
next
  case (Cons n ns)
  obtain r w1 where 1: "cursor_advance L t cur n out w = Some (r, w1)"
    using Cons.prems(4) by (cases "cursor_advance L t cur n out w") (auto simp: f4kvs_engine_cursor_next_n_kv_def)
  obtain items where r: "r = Inr items"
    using Cons.prems(4) 1 by (cases r) (auto simp: f4kvs_engine_cursor_next_n_kv_def)
  from cursor_advance_law [OF assms(1) Cons.prems(2) assms(3,4) 1] obtain c1 where
    c1: "heap w1 = (heap w)(cur \<mapsto> CursorBox c1)" "cur_engine c1 = cur_engine c" "arcs w1 = arcs w"
      "kv (lsm w1) (cur_engine c) = kv (lsm w) (cur_engine c)" "reg_inv w1" and
    ps: "c1 = c \<and> w1 = w \<and> items = [] \<and> (cur_done c \<or> n = 0) \<or>
         (\<exists>ps. pending kv rest w c ps \<and> items = take n ps \<and> pending kv rest w1 c1 (drop n ps) \<and>
            (cur_done c1 \<or> cur_state c1 \<noteq> None))" using r Cons.prems(1) by blast
  from fetch_page [OF assms(2) c1(5) 1 [unfolded r], of ns] obtain w2 where
    w2: "handed {} {} w1 w2" "fetch E L t cur out (n # ns) w =
       do { (pages, w3) \<leftarrow> fetch E L t cur out ns w2; Some (map pair_text items @ pages, w3) }" by blast
  with Cons.prems(4) obtain pages where
    pages: "fetch E L t cur out ns w2 = Some (pages, w')" "pairs = map pair_text items @ pages" by (auto split: bind_splits)
  note h2 = handed_none [OF w2(1)] handedD(2,4,5) [OF w2(1)]
  have "heap w2 cur = Some (CursorBox c1)" "finite (dom (kv (lsm w2) (cur_engine c1)))"
    using h2(1,3) c1(1,2,4) Cons.prems(3) by simp_all
  from Cons.IH [OF h2(2) this pages(1)] obtain qs c2 where
    IH: "pending kv rest w2 c1 qs" "pages = take (sum_list ns) (map pair_text qs)" "heap w' = (heap w2)(cur \<mapsto> CursorBox c2)"
      "cur_engine c2 = cur_engine c1" "arcs w' = arcs w2" "kv (lsm w') (cur_engine c1) = kv (lsm w2) (cur_engine c1)" "reg_inv w'" by blast
  have q: "pending kv rest w1 c1 qs" using IH(1) pending_cong [OF h2(3)] by blast
  have "\<exists>ps. pending kv rest w c ps \<and> pairs = take (sum_list (n # ns)) (map pair_text ps)" using ps
  proof
    assume z: "c1 = c \<and> w1 = w \<and> items = [] \<and> (cur_done c \<or> n = 0)"
    then have "qs = [] \<or> n = 0" using q by (auto simp: pending_def)
    with z q pages(2) IH(2) show ?thesis by auto
  next
    assume "\<exists>ps. pending kv rest w c ps \<and> items = take n ps \<and> pending kv rest w1 c1 (drop n ps) \<and> (cur_done c1 \<or> cur_state c1 \<noteq> None)"
    then obtain ps where p: "pending kv rest w c ps" "items = take n ps" "drop n ps = qs" using pending_unique [OF _ q] by blast
    have "pairs = take (sum_list (n # ns)) (map pair_text ps)"
      unfolding pages(2) IH(2) p(2) by (simp add: take_add take_map drop_map flip: p(3))
    with p(1) show ?thesis by blast
  qed
  moreover have "heap w' = (heap w)(cur \<mapsto> CursorBox c2)" unfolding IH(3) h2(1) c1(1) by simp
  ultimately show ?case using IH(4-7) c1(2-4) h2(3,4) by metis
qed

text \<open>Without a failure of the library no page fails.\<close>

lemma healthy_pull: "scan_healthy L \<Longrightarrow> \<exists>ie c' x'. pull_n L e n c x = (Inr ie, c', x')"
proof (induction n arbitrary: c x)
  case (Suc n)
  obtain r c1 x1 where 1: "prefix_scan_next L e c x = (r, c1, x1)" by (metis prod_cases3)
  have "\<forall>m. r \<noteq> Inl m" using Suc.prems 1 by (auto simp: scan_healthy_def dest: spec [of _ e]) (metis fst_conv)
  with 1 Suc.IH [OF Suc.prems, of c1 x1] show ?case by (cases r) (auto split: option.splits)
qed auto

lemma healthy_page:
  assumes "scan_healthy L"
  shows "\<exists>ie c' x'. next_page L e n c x = (Inr ie, c', x')"
proof -
  obtain r c1 x1 where 1: "try_prefix_scan_next_n_sync L e c n x = (r, c1, x1)" by (metis prod_cases3)
  have "r \<noteq> Some (Inl m)" for m using assms 1 unfolding scan_healthy_def by (metis fst_conv)
  then have "r = None \<or> (\<exists>ie. r = Some (Inr ie))" by (metis option.exhaust sum.exhaust)
  with 1 healthy_pull [OF assms, of e n c1 x1] show ?thesis by (auto simp: next_page_def)
qed

lemma healthy_start:
  assumes "scan_healthy L"
  shows "\<exists>c x'. start_scan L e p x = (Inr c, x')"
proof -
  obtain r x1 where 1: "try_prefix_scan_start_sync L e p x = (r, x1)" by fastforce
  obtain r2 x2 where 2: "prefix_scan_start L e p x1 = (r2, x2)" by fastforce
  have "r \<noteq> Some (Inl m)" "r2 \<noteq> Inl m" for m using assms 1 2 unfolding scan_healthy_def by (metis fst_conv)+
  then have "r = None \<or> (\<exists>c. r = Some (Inr c))" "\<exists>c. r2 = Inr c" by (metis option.exhaust sum.exhaust)+
  with 1 2 show ?thesis by (auto simp: start_scan_def)
qed

lemma healthy_advance:
  assumes "scan_healthy L" "heap w cur = Some (CursorBox c)" "cur \<noteq> null" "out \<noteq> null"
  shows "\<exists>items w'. cursor_advance L t cur n out w = Some (Inr items, w')"
proof -
  obtain st c1 w1 where 1: "cursor_ensure_state L t c w = ((Inr st, c1), w1)"
    using healthy_start [OF assms(1), of "cur_engine c" "cur_prefix c" "lsm w"]
    by (cases "cur_state c") (auto simp: cursor_ensure_state_def lsm_call_def)
  obtain ie st' x' where 2: "next_page L (cur_engine c1) n st (lsm w1) = (Inr ie, st', x')"
    using healthy_page [OF assms(1)] by metis
  from 1 2 assms show ?thesis by (cases ie) (auto simp: cursor_advance_def cursor_pull_page_def)
qed

lemma fetch_ends:
  assumes "scan_laws L kv rest" "scan_healthy L" "fresh_allocator (allocator E)" "cur \<noteq> null" "out \<noteq> null"
    and "reg_inv w" "heap w cur = Some (CursorBox c)"
  shows "fetch E L t cur out ns w \<noteq> None"
  using assms(6,7)
proof (induction ns arbitrary: w c)
  case (Cons n ns)
  from healthy_advance [OF assms(2) Cons.prems(2) assms(4,5)] obtain items w1 where
    1: "cursor_advance L t cur n out w = Some (Inr items, w1)" by metis
  from cursor_advance_law [OF assms(1) Cons.prems(2) assms(4,5) 1] Cons.prems(1) obtain c1 where
    c1: "heap w1 = (heap w)(cur \<mapsto> CursorBox c1)" "reg_inv w1" by blast
  from fetch_page [OF assms(3) c1(2) 1, of ns] obtain w2 where
    w2: "handed {} {} w1 w2" "fetch E L t cur out (n # ns) w =
       do { (pages, w3) \<leftarrow> fetch E L t cur out ns w2; Some (map pair_text items @ pages, w3) }" by blast
  have "heap w2 cur = Some (CursorBox c1)" using handed_none [OF w2(1)] c1(1) by simp
  from Cons.IH [OF handedD(2) [OF w2(1)] this] show ?case unfolding w2(2) by auto
qed simp

lemma cursor_open_box:
  assumes "engine \<noteq> null" "heap w engine = Some (EngineBox e)" "holds w pp p" "fresh_allocator (allocator E)" "reg_inv w"
    and "f4kvs_engine_cursor_open E t engine pp (length p) w = Some (cur, w1)" "cur \<noteq> null"
  shows "heap w cur = None" "1 < cur" "reg_inv w1" "lsm w1 = lsm w" "arcs w1 = (arcs w)(e := arcs w e + 1)"
    "heap w1 = (heap w)(cur \<mapsto> CursorBox \<lparr>cur_engine = e, cur_state = None, cur_prefix = p, cur_done = False\<rparr>)"
proof -
  let ?b = "CursorBox \<lparr>cur_engine = e, cur_state = None, cur_prefix = p, cur_done = False\<rparr>"
  let ?w = "w\<lparr>arcs := (arcs w)(e := arcs w e + 1)\<rparr>"
  have "check_text MAX_KEY_LENGTH ''prefix'' p = Inr p"
    using assms(6,7) by (cases rule: check_text_cases [of MAX_KEY_LENGTH "''prefix''" p])
      (auto simp: f4kvs_engine_cursor_open_def validate_engine_live [OF assms(1,2)] key_from_raw_text [OF assms(3)] check_text_Inr)
  then have al: "alloc_block (allocator E) ?b ?w = (cur, w1)"
    using assms(6) by (simp add: f4kvs_engine_cursor_open_def validate_engine_live [OF assms(1,2)] key_from_raw_text [OF assms(3)])
  have "reg_inv ?w" using assms(5) by simp
  with assms(4) obtain a where "alloc_block (allocator E) ?b ?w = (a, ?w\<lparr>heap := (heap ?w)(a \<mapsto> ?b), tick := Suc (tick ?w)\<rparr>)"
    "heap ?w a = None" "1 < a" by (rule alloc_blockE)
  with al show "heap w cur = None" "1 < cur" "lsm w1 = lsm w" "arcs w1 = (arcs w)(e := arcs w e + 1)" "heap w1 = (heap w)(cur \<mapsto> ?b)"
    "reg_inv w1" using reg_inv_insert_plain [OF \<open>reg_inv ?w\<close>, of cur ?b] by auto
qed

end
