(* ===== verification/Cursor_Properties.thy ===== *)
theory Cursor_Properties
  imports Cursor_Contract
begin

text \<open>
  The properties of the incremental scans, with a reference library whose scan state is the list of the
  pairs still to come.
\<close>

section \<open>A reference library\<close>

definition ref_scan :: "(ref_lsm, kv_pair list, 'u) scan_lib" where
  "ref_scan =
     \<lparr>prefix_scan_start = lsm_scan_prefix_with_values (ref_env :: (ref_lsm, unit) env),
      try_prefix_scan_start_sync = (\<lambda>e p x. (None, x)),
      prefix_scan_next = (\<lambda>e c x. case c of [] \<Rightarrow> (Inr None, [], x) | kv # c' \<Rightarrow> (Inr (Some kv), c', x)),
      try_prefix_scan_next_n_sync = (\<lambda>e c n x. (None, c, x)),
      try_prefix_scan_foreach_sync = (\<lambda>e p visit x u. (None, x, u))\<rparr>"

definition ref_rest :: "ref_lsm \<Rightarrow> eid \<Rightarrow> kv_pair list \<Rightarrow> kv_pair list" where
  "ref_rest x e c = c"

lemma ref_scan_laws: "scan_laws ref_scan ref_kv ref_rest"
proof -
  have "start_law ref_kv ref_rest e p x (prefix_scan_start ref_scan e p x)" for e p x
    using ref_read_laws [where ?'a = unit] unfolding lsm_read_laws_def start_law_def enumerates_def ref_rest_def
    by (cases "prefix_scan_start ref_scan e p x") (simp add: ref_scan_def)
  moreover have "next_law ref_kv ref_rest e c x (prefix_scan_next ref_scan e c x)" for e c x
    by (cases c) (simp_all add: next_law_def ref_scan_def ref_rest_def)
  ultimately show ?thesis
    by (simp add: scan_laws_def) (simp add: ref_scan_def page_law_def foreach_law_def ref_rest_def)
qed

lemma ref_scan_healthy: "scan_healthy ref_scan"
  by (simp add: scan_healthy_def ref_scan_def ref_env_def split: list.splits)

text \<open>A store with two keys, one with a NUL byte, and a cursor on it.\<close>

definition nul_pairs :: "kv_pair list" where
  "nul_pairs = [([CHR ''a'', NUL], VBytes ''1''), (''b'', VBytes ''2'')]"

definition two_world :: "(ref_lsm, kv_pair list) world" where
  "two_world = (ref_world 5)\<lparr>lsm := (ref_init 5)\<lparr>ref_disk := (\<lambda>_. nul_pairs)\<rparr>\<rparr>"

definition two_cursor :: "(ref_lsm, kv_pair list) world" where
  "two_cursor = two_world\<lparr>heap := (heap two_world)
     (3 \<mapsto> CursorBox \<lparr>cur_engine = 0, cur_state = Some nul_pairs, cur_prefix = [], cur_done = False\<rparr>), tick := 2\<rparr>"

lemma ref_kv_two: "ref_kv (lsm two_world) 0 = map_of nul_pairs"
  by (simp add: ref_kv_def ref_store_def two_world_def)

lemma two_world_ok:
  "reg_inv two_world" "heap two_world 2 = Some (EngineBox 0)" "finite (dom (ref_kv (lsm two_world) 0))"
  by (simp add: two_world_def ref_world_inv, simp add: two_world_def ref_world_def, simp add: ref_kv_two finite_dom_map_of)

lemma two_cursor_ok:
  "reg_inv two_cursor"
  "heap two_cursor 3 = Some (CursorBox \<lparr>cur_engine = 0, cur_state = Some nul_pairs, cur_prefix = [], cur_done = False\<rparr>)"
  using reg_inv_insert_plain [OF two_world_ok(1), of 3] by (simp_all add: two_cursor_def two_world_def ref_world_def)

section \<open>Pages\<close>

text \<open>
  C31. A cursor delivers the whole prefix, once: whatever page sizes a client asks for, the pages it reads
  are together the first pairs of one enumeration of the prefix, as many as it asked for, so that every
  pair is delivered exactly once as soon as it has asked for enough; no page is lost or repeated, the
  contents do not change, freeing the cursor restores the C heap, and without a failure of the library
  every call succeeds.
\<close>

theorem cursor_pages_complete:
  assumes "scan_laws L kv rest" "fresh_allocator (allocator E)" "reg_inv w0" "finite (dom (kv (lsm w0) e))"
    and "engine \<noteq> null" "heap w0 engine = Some (EngineBox e)" "holds w0 pp p" "out \<noteq> null"
    and "f4kvs_engine_cursor_open E t engine pp (length p) w0 = Some (cur, w)" "cur \<noteq> null"
  shows "(\<forall>pairs w'. fetch E L t' cur out ns w = Some (pairs, w') \<longrightarrow>
      (\<exists>ps. distinct (map fst ps) \<and> set ps = {(k, v). kv (lsm w0) e k = Some v \<and> prefix p k} \<and>
         pairs = take (sum_list ns) (map pair_text ps)) \<and>
      kv (lsm w') e = kv (lsm w0) e \<and> (\<exists>w''. f4kvs_engine_cursor_free E cur w' = Some w'' \<and> heap w'' = heap w0)) \<and>
    (scan_healthy L \<longrightarrow> (\<exists>pairs w'. fetch E L t' cur out ns w = Some (pairs, w')))"
proof -
  note box = cursor_open_box [OF assms(5-7,2,3,9,10)]
  let ?c = "\<lparr>cur_engine = e, cur_state = None, cur_prefix = p, cur_done = False\<rparr>"
  have c: "heap w cur = Some (CursorBox ?c)" using box(6) by simp
  have fin: "finite (dom (kv (lsm w) (cur_engine ?c)))" using assms(4) box(4) by simp
  have "(\<exists>ps. distinct (map fst ps) \<and> set ps = {(k, v). kv (lsm w0) e k = Some v \<and> prefix p k} \<and>
         pairs = take (sum_list ns) (map pair_text ps)) \<and>
      kv (lsm w') e = kv (lsm w0) e \<and> (\<exists>w''. f4kvs_engine_cursor_free E cur w' = Some w'' \<and> heap w'' = heap w0)"
    if f: "fetch E L t' cur out ns w = Some (pairs, w')" for pairs w'
  proof -
    from fetch_delivers [OF assms(1,2,10,8) box(3) c fin f] obtain ps c' where
      ps: "pending kv rest w ?c ps" "pairs = take (sum_list ns) (map pair_text ps)" "heap w' = (heap w)(cur \<mapsto> CursorBox c')"
        "kv (lsm w') e = kv (lsm w) e" by auto
    have "enumerates (kv (lsm w0) e) p ps" using ps(1) box(4) by (simp add: pending_def)
    moreover have "\<exists>w''. f4kvs_engine_cursor_free E cur w' = Some w'' \<and> heap w'' = heap w0"
      using assms(10) ps(3) box(1,6)
      by (simp add: f4kvs_engine_cursor_free_def drop_arc_def drop_block_def Let_def fun_upd_None_dom domIff)
    ultimately show ?thesis using ps(2,4) box(4) unfolding enumerates_def by auto
  qed
  moreover have "scan_healthy L \<Longrightarrow> fetch E L t' cur out ns w \<noteq> None"
    by (rule fetch_ends [OF assms(1) _ assms(2,10,8) box(3) c])
  ultimately show ?thesis by fast
qed


theorem cursor_pages_complete_witness:
  "\<exists>cur w pairs w'. f4kvs_engine_cursor_open ref_env 0 2 0 (length ([] :: bytes)) two_world = Some (cur, w) \<and>
     fetch ref_env (ref_scan :: (_, _, unit) scan_lib) 0 cur 7 [1, 1, 1] w = Some (pairs, w') \<and> length pairs = 2"
proof -
  let ?L = "ref_scan :: (_, _, unit) scan_lib"
  have al: "fresh_allocator (allocator (ref_env :: (ref_lsm, kv_pair list) env))" by (simp add: ref_env_def ref_allocator_fresh)
  have n: "(2 :: addr) \<noteq> null" "(7 :: addr) \<noteq> null" "holds two_world 0 []" by (simp_all add: holds_def)
  obtain w where o: "f4kvs_engine_cursor_open ref_env 0 2 0 (length ([] :: bytes)) two_world = Some (3, w)"
  proof -
    have h: "heap two_world = [2 \<mapsto> EngineBox 0]" "tick two_world = 1" by (simp_all add: two_world_def ref_world_def)
    have "allocator (ref_env :: (ref_lsm, kv_pair list) env) = ref_allocator" by (simp add: ref_env_def)
    with that show thesis
      by (simp add: f4kvs_engine_cursor_open_def validate_engine_live [OF n(1) two_world_ok(2)] key_from_raw_def alloc_block_def
          ref_allocator_def h)
  qed
  note R = cursor_pages_complete [where t' = 0 and ns = "[1, 1, 1]",
      OF ref_scan_laws [where ?'a = unit] al two_world_ok(1,3) n(1) two_world_ok(2) n(3,2) o]
  obtain pairs w' where f: "fetch ref_env ?L 0 3 7 [1, 1, 1] w = Some (pairs, w')"
    using R ref_scan_healthy by fastforce
  with R obtain ps where ps: "distinct (map fst ps)" "set ps = {(k, v). ref_kv (lsm two_world) 0 k = Some v \<and> prefix [] k}"
    "pairs = take (sum_list [1, 1, 1]) (map pair_text ps)" by fastforce
  have "set ps = set nul_pairs" unfolding ps(2) ref_kv_two by (auto simp: nul_pairs_def split: if_splits)
  moreover have "distinct nul_pairs" "length nul_pairs = 2" by (simp_all add: nul_pairs_def)
  ultimately have "length ps = 2" using ps(1) by (metis distinct_card distinct_map)
  with f o ps(3) show ?thesis by (intro exI [of _ 3] exI [of _ w] exI [of _ pairs] exI [of _ w']) simp
qed

text \<open>
  C32. A page that cannot be handed out is lost: the C-string variant of the page function fails when a key
  of the page has a NUL byte, and the cursor has then moved past the whole page, so that the next call
  goes on behind it. The header promises that a later call resumes after the last successfully returned key.
  A page without such a key is the next part of the scan.
\<close>

theorem cursor_skips_failed_page:
  assumes "scan_laws L kv rest" "scan_healthy L" "fresh_allocator (allocator E)" "reg_inv w"
    and "heap w cur = Some (CursorBox c)" "cur \<noteq> null" "out \<noteq> null" "\<not> cur_done c" "0 < n"
  shows "\<exists>ps c' code res w'. pending kv rest w c ps \<and>
    f4kvs_engine_cursor_next_n E L t cur n out w = Some ((code, res), w') \<and>
    heap w' cur = Some (CursorBox c') \<and> pending kv rest w' c' (drop n ps) \<and>
    (if \<exists>kv\<in>set (take n ps). NUL \<in> set (fst kv) then code = ErrorStorage \<and> res = None
     else code = Success \<and> (\<exists>scan. res = Some scan \<and> read_page w' scan = Some (map pair_text (take n ps))))"
proof -
  from healthy_advance [OF assms(2,5-7)] obtain items w1 where
    1: "cursor_advance L t cur n out w = Some (Inr items, w1)" by metis
  from cursor_advance_law [OF assms(1,5-7) 1] assms(4,8,9) obtain c1 ps where
    c1: "heap w1 = (heap w)(cur \<mapsto> CursorBox c1)" "reg_inv w1" and
    ps: "pending kv rest w c ps" "items = take n ps" "pending kv rest w1 c1 (drop n ps)" by auto
  have call: "f4kvs_engine_cursor_next_n E L t cur n out w = fill_scan_result (allocator E) t items w1"
    by (simp add: f4kvs_engine_cursor_next_n_def 1)
  have b: "heap w1 cur = Some (CursorBox c1)" using c1(1) by simp
  note page = page_ok [OF assms(3) c1(2), of items t]
  show ?thesis
  proof (cases "\<exists>kv\<in>set (take n ps). NUL \<in> set (fst kv)")
    case True
    with page ps(2) obtain w2 where w2: "fill_scan_result (allocator E) t items w1 = Some ((ErrorStorage, None), w2)" "handed {} {} w1 w2"
      by auto
    have "pending kv rest w2 c1 (drop n ps)" using ps(3) pending_cong [OF handedD(4) [OF w2(2)]] by blast
    with ps(1) w2(1) call b handed_none [OF w2(2)] True show ?thesis
      by (intro exI [of _ ps] exI [of _ c1] exI [of _ ErrorStorage] exI [of _ None] exI [of _ w2]) simp
  next
    case False
    with page ps(2) obtain scan w2 where
      w2: "fill_scan_result (allocator E) t items w1 = Some ((Success, Some scan), w2)" "read_page w2 scan = Some (map pair_text items)"
        "heap w1 \<subseteq>\<^sub>m heap w2" "lsm w2 = lsm w1" by auto
    have "heap w2 cur = Some (CursorBox c1)" using w2(3) b by (metis domI map_le_def)
    moreover have "pending kv rest w2 c1 (drop n ps)" using ps(3) pending_cong [OF w2(4)] by blast
    ultimately show ?thesis using ps(1,2) w2(1,2) call False
      by (intro exI [of _ ps] exI [of _ c1] exI [of _ Success] exI [of _ "Some scan"] exI [of _ w2]) simp
  qed
qed

theorem cursor_skips_failed_page_witness:
  "\<exists>w' c'. f4kvs_engine_cursor_next_n ref_env (ref_scan :: (_, _, unit) scan_lib) 0 3 1 7 two_cursor = Some ((ErrorStorage, None), w') \<and>
     heap w' 3 = Some (CursorBox c') \<and> pending ref_kv ref_rest w' c' [(''b'', VBytes ''2'')]"
proof -
  have al: "fresh_allocator (allocator (ref_env :: (ref_lsm, kv_pair list) env))" by (simp add: ref_env_def ref_allocator_fresh)
  have n: "(3 :: addr) \<noteq> null" "(7 :: addr) \<noteq> null" "\<not> cur_done \<lparr>cur_engine = 0, cur_state = Some nul_pairs, cur_prefix = [], cur_done = False\<rparr>"
    "0 < (1 :: nat)" by simp_all
  from cursor_skips_failed_page [where t = 0, OF ref_scan_laws [where ?'a = unit] ref_scan_healthy al two_cursor_ok n]
  obtain ps c' code res w' where
    r: "pending ref_kv ref_rest two_cursor \<lparr>cur_engine = 0, cur_state = Some nul_pairs, cur_prefix = [], cur_done = False\<rparr> ps"
      "f4kvs_engine_cursor_next_n ref_env (ref_scan :: (_, _, unit) scan_lib) 0 3 1 7 two_cursor = Some ((code, res), w')"
      "heap w' 3 = Some (CursorBox c')" "pending ref_kv ref_rest w' c' (drop 1 ps)"
      "if \<exists>kv\<in>set (take 1 ps). NUL \<in> set (fst kv) then code = ErrorStorage \<and> res = None
       else code = Success \<and> (\<exists>scan. res = Some scan \<and> read_page w' scan = Some (map pair_text (take 1 ps)))" by blast
  have "ps = nul_pairs" using r(1) by (simp add: pending_def ref_rest_def)
  with r(2-5) show ?thesis by (simp add: nul_pairs_def)
qed

section \<open>The scan with a callback\<close>

lemma cb_payload_text: "cb_payload v = Some b \<Longrightarrow> value_to_bytes v = b"
  by (cases v) auto

text \<open>A scan over the pairs \<open>ps\<close> either visits all of them until the callback stops, or fails after some of them.\<close>

definition visited :: "'u visitor \<Rightarrow> kv_pair list \<Rightarrow> 'u \<Rightarrow> unit reply \<Rightarrow> 'u \<Rightarrow> bool" where
  "visited visit ps u r u' \<longleftrightarrow>
     r = Inr () \<and> u' = snd (visit_until visit (map pair_text ps) u) \<or>
     (\<exists>m qs qs'. r = Inl m \<and> ps = qs @ qs' \<and> visit_until visit (map pair_text qs) u = (True, u'))"

lemma visited_first:
  "visited visit [] u (Inr ()) u" "visited visit ps u (Inl m) u"
  "visit k (value_to_bytes v) u = (False, u1) \<Longrightarrow> visited visit ((k, v) # ps) u (Inr ()) u1"
proof -
  have "ps = [] @ ps" "visit_until visit (map pair_text []) u = (True, u)" by simp_all
  then show "visited visit ps u (Inl m) u" unfolding visited_def by blast
qed (simp_all add: visited_def pair_text_def)

lemma visited_Cons:
  assumes "visit k (value_to_bytes v) u = (True, u1)" "visited visit ps u1 r u'"
  shows "visited visit ((k, v) # ps) u r u'"
  using assms(2) unfolding visited_def
proof
  assume "\<exists>m qs qs'. r = Inl m \<and> ps = qs @ qs' \<and> visit_until visit (map pair_text qs) u1 = (True, u')"
  then obtain m qs qs' where "r = Inl m" "ps = qs @ qs'" "visit_until visit (map pair_text qs) u1 = (True, u')" by blast
  then have "r = Inl m" "(k, v) # ps = ((k, v) # qs) @ qs'" "visit_until visit (map pair_text ((k, v) # qs)) u = (True, u')"
    using assms(1) by (simp_all add: pair_text_def)
  then show "r = Inr () \<and> u' = snd (visit_until visit (map pair_text ((k, v) # ps)) u) \<or>
     (\<exists>m qs qs'. r = Inl m \<and> (k, v) # ps = qs @ qs' \<and> visit_until visit (map pair_text qs) u = (True, u'))" by blast
qed (use assms(1) in \<open>simp add: pair_text_def\<close>)

text \<open>The loop ends, since the pairs to come get fewer, and visits them in order.\<close>

lemma cb_loop_ends:
  assumes "scan_laws L kv rest" "\<forall>(k, v)\<in>set (rest x e c). cb_payload v \<noteq> None"
  shows "\<exists>r x' u'. cb_loop L e visit c x u = Some (r, x', u') \<and> kv x' e = kv x e \<and> visited visit (rest x e c) u r u'"
  using assms(2)
proof (induction "rest x e c" arbitrary: c x u rule: length_induct)
  case (1 c x u)
  obtain a c1 x1 where n: "prefix_scan_next L e c x = (a, c1, x1)" by (metis prod_cases3)
  note law = scan_lawsD(4) [OF assms(1) n, unfolded next_law_def prod.case]
  consider (err) m where "a = Inl m" | (stop) "a = Inr None" | (pair) k v where "a = Inr (Some (k, v))"
    by (metis option.exhaust surj_pair sum.exhaust)
  then show ?case
  proof cases
    case err
    with n law visited_first(2) show ?thesis by (subst cb_loop.simps) simp
  next
    case stop
    with n law visited_first(1) show ?thesis by (subst cb_loop.simps) simp
  next
    case pair
    with law have r: "rest x e c = (k, v) # rest x1 e c1" and kv1: "kv x1 e = kv x e" by auto
    obtain b where b: "cb_payload v = Some b" using "1.prems" r by auto
    note t = cb_payload_text [OF b]
    obtain more u1 where v: "visit k b u = (more, u1)" by fastforce
    have step: "cb_loop L e visit c x u = (if more then cb_loop L e visit c1 x1 u1 else Some (Inr (), x1, u1))"
      using n pair b v by (subst cb_loop.simps) simp
    have "\<forall>(k, v)\<in>set (rest x1 e c1). cb_payload v \<noteq> None" using "1.prems" r by auto
    with "1.hyps" r obtain r' x' u' where
      IH: "cb_loop L e visit c1 x1 u1 = Some (r', x', u')" "kv x' e = kv x1 e" "visited visit (rest x1 e c1) u1 r' u'" by force
    show ?thesis
    proof (cases more)
      case True
      with v t IH(3) have "visited visit (rest x e c) u r' u'" unfolding r by (intro visited_Cons) simp_all
      with step True IH(1,2) kv1 show ?thesis by simp
    next
      case False
      with v t have "visited visit (rest x e c) u (Inr ()) u1" unfolding r by (intro visited_first(3)) simp
      with step False kv1 show ?thesis by simp
    qed
  qed
qed

text \<open>The call on a valid prefix: which pairs were visited, and how it ended.\<close>

lemma scan_cb_visited:
  assumes "scan_laws L kv rest" "engine \<noteq> null" "heap w engine = Some (EngineBox e)" "holds w pp p"
    and "plain_values (kv (lsm w) e) p" "check_text MAX_KEY_LENGTH ''prefix'' p = Inr p"
  shows "\<exists>label r x' u'. f4kvs_engine_scan_prefix_cb L t engine pp (length p) (Some cb) user w u = Some (cb_result t label w (r, x', u')) \<and>
    kv x' e = kv (lsm w) e \<and>
    ((\<exists>ps. enumerates (kv (lsm w) e) p ps \<and> visited (cb_visit cb user) ps u r u') \<or> r \<noteq> Inr () \<and> u' = u)"
proof -
  let ?visit = "cb_visit cb user" and ?m = "kv (lsm w) e"
  note call = f4kvs_engine_scan_prefix_cb_def validate_engine_live [OF assms(2,3)] key_from_raw_text [OF assms(4)] assms(6)
  obtain f x1 u1 where f: "try_prefix_scan_foreach_sync L e p ?visit (lsm w) u = (f, x1, u1)" by (metis prod_cases3)
  note fl = scan_lawsD(6) [OF assms(1) f assms(5), unfolded foreach_law_def prod.case]
  show ?thesis
  proof (cases f)
    case (Some r)
    with fl have "\<exists>ps. enumerates ?m p ps \<and> visited ?visit ps u r u1" unfolding visited_def by (cases r) auto
    with fl Some show ?thesis
      by (intro exI [of _ "''Scan prefix cb failed: ''"] exI [of _ r] exI [of _ x1] exI [of _ u1]) (simp add: call f)
  next
    case None
    with fl have f1: "kv x1 e = ?m" "u1 = u" by auto
    obtain s x2 where s: "prefix_scan_start L e p x1 = (s, x2)" by fastforce
    note sl = scan_lawsD(1) [OF assms(1) s, unfolded start_law_def fst_conv snd_conv]
    show ?thesis
    proof (cases s)
      case (Inl m)
      with sl f1 None show ?thesis
        by (intro exI [of _ "''Scan prefix cb start failed: ''"] exI [of _ "Inl m"] exI [of _ x2] exI [of _ u]) (simp add: call f s)
    next
      case (Inr c)
      with sl f1 have en: "enumerates ?m p (rest x2 e c)" "kv x2 e = ?m" by auto
      then have "\<forall>(k, v)\<in>set (rest x2 e c). cb_payload v \<noteq> None" using assms(5) unfolding plain_values_def enumerates_def by auto
      from cb_loop_ends [OF assms(1) this, of ?visit u] obtain r x' u' where
        "cb_loop L e ?visit c x2 u = Some (r, x', u')" "kv x' e = kv x2 e" "visited ?visit (rest x2 e c) u r u'" by blast
      with en f1 None Inr show ?thesis
        by (intro exI [of _ "''Scan prefix cb failed: ''"] exI [of _ r] exI [of _ x'] exI [of _ u']) (auto simp: call f s)
    qed
  qed
qed

text \<open>
  C30. The callback scan ends and is complete: on a prefix whose values are byte strings or texts, as every
  writer of this interface stores them, the call returns; when it succeeds, the callback was called on
  every pair of the prefix, once each, up to the first time it asked to stop, and never after that; when it
  fails, on some of the pairs, once each, or not at all. The memory of the C side is untouched.
\<close>

theorem callback_scan_complete:
  assumes "scan_laws L kv rest" "engine \<noteq> null" "heap w engine = Some (EngineBox e)" "holds w pp p"
    and "\<forall>k v. kv (lsm w) e k = Some v \<and> prefix p k \<longrightarrow> (\<exists>b. v = VBytes b \<or> v = VString b)"
  shows "\<exists>code w' u'. f4kvs_engine_scan_prefix_cb L t engine pp (length p) (Some cb) user w u = Some (code, w', u') \<and>
    heap w' = heap w \<and> kv (lsm w') e = kv (lsm w) e \<and>
    (if code = Success
     then \<exists>ps. enumerates (kv (lsm w) e) p ps \<and> u' = snd (visit_until (cb_visit cb user) (map pair_text ps) u)
     else u' = u \<or>
       (\<exists>ps qs. enumerates (kv (lsm w) e) p (ps @ qs) \<and> visit_until (cb_visit cb user) (map pair_text ps) u = (True, u')))"
proof (cases rule: check_text_cases [of MAX_KEY_LENGTH "''prefix''" p])
  case (bad m)
  then show ?thesis
    by (simp add: f4kvs_engine_scan_prefix_cb_def validate_engine_live [OF assms(2,3)] key_from_raw_text [OF assms(4)])
next
  case (ok s)
  let ?visit = "cb_visit cb user" and ?m = "kv (lsm w) e"
  have ok: "check_text MAX_KEY_LENGTH ''prefix'' p = Inr p" using ok by (simp add: check_text_Inr)
  have "plain_values ?m p" using assms(5) unfolding plain_values_def by (metis cb_payload.simps(1,2) option.distinct(1))
  from scan_cb_visited [OF assms(1-4) this ok, of t cb user u] obtain label r x' u' where
    r: "f4kvs_engine_scan_prefix_cb L t engine pp (length p) (Some cb) user w u = Some (cb_result t label w (r, x', u'))"
      "kv x' e = ?m" "(\<exists>ps. enumerates ?m p ps \<and> visited ?visit ps u r u') \<or> r \<noteq> Inr () \<and> u' = u" by blast
  show ?thesis
  proof (cases r)
    case (Inl m)
    with r(3) have "u' = u \<or> (\<exists>ps qs. enumerates ?m p (ps @ qs) \<and> visit_until ?visit (map pair_text ps) u = (True, u'))"
      unfolding visited_def by blast
    with r(1,2) Inl show ?thesis by (simp add: cb_result_def)
  next
    case (Inr a)
    with r(3) have "\<exists>ps. enumerates ?m p ps \<and> u' = snd (visit_until ?visit (map pair_text ps) u)" unfolding visited_def by auto
    with r(1,2) Inr show ?thesis by (simp add: cb_result_def)
  qed
qed

lemma ref_cb_loop: "\<exists>x' u'. cb_loop ref_scan e (visit :: 'u visitor) c x u = Some (Inr (), x', u')"
proof (induction c arbitrary: u)
  case Nil
  show ?case by (subst cb_loop.simps) (simp add: ref_scan_def)
next
  case (Cons kv c)
  obtain k v where kv: "kv = (k, v)" by fastforce
  have n: "prefix_scan_next (ref_scan :: (_, _, 'u) scan_lib) e (kv # c) x = (Inr (Some (k, v)), c, x)" by (simp add: ref_scan_def kv)
  show ?case
  proof (cases "cb_payload v")
    case None
    with n Cons.IH show ?thesis by (subst cb_loop.simps) simp
  next
    case (Some b)
    obtain more u1 where "visit k b u = (more, u1)" by fastforce
    with n Some Cons.IH show ?thesis by (subst cb_loop.simps) simp
  qed
qed

lemma count_visits: "visit_until (cb_visit (\<lambda>_ _ _ u. (0, Suc u)) user) ps (u :: nat) = (True, u + length ps)"
  by (induction ps arbitrary: u) (auto simp: cb_visit_def)

theorem callback_scan_complete_witness:
  "\<exists>w'. f4kvs_engine_scan_prefix_cb ref_scan 0 2 0 (length ([] :: bytes)) (Some (\<lambda>_ _ _ u. (0, Suc u))) 0 two_world (0 :: nat) =
     Some (Success, w', 2)"
proof -
  let ?L = "ref_scan :: (ref_lsm, kv_pair list, nat) scan_lib" and ?cb = "\<lambda>_ _ _ u. (0, Suc u)"
  have n: "(2 :: addr) \<noteq> null" "holds two_world 0 []" by (simp_all add: holds_def)
  have pl: "\<forall>k v. ref_kv (lsm two_world) 0 k = Some v \<and> prefix [] k \<longrightarrow> (\<exists>b. v = VBytes b \<or> v = VString b)"
    by (auto simp: ref_kv_two nul_pairs_def split: if_splits)
  from callback_scan_complete [where t = 0 and cb = ?cb and user = 0 and u = "0 :: nat",
      OF ref_scan_laws [where ?'a = nat] n(1) two_world_ok(2) n(2) pl]
  obtain code w' u' where
    r: "f4kvs_engine_scan_prefix_cb ?L 0 2 0 (length ([] :: bytes)) (Some ?cb) 0 two_world 0 = Some (code, w', u')"
      "if code = Success then \<exists>ps. enumerates (ref_kv (lsm two_world) 0) [] ps \<and> u' = snd (visit_until (cb_visit ?cb 0) (map pair_text ps) 0)
       else u' = 0 \<or> (\<exists>ps qs. enumerates (ref_kv (lsm two_world) 0) [] (ps @ qs) \<and> visit_until (cb_visit ?cb 0) (map pair_text ps) 0 = (True, u'))"
    by blast
  have fe: "try_prefix_scan_foreach_sync ?L 0 [] v x u = (None, x, u)" for v x u by (simp add: ref_scan_def)
  obtain st x2 where st: "prefix_scan_start ?L 0 [] (lsm two_world) = (Inr st, x2)" by (simp add: ref_scan_def ref_env_def)
  obtain x' u'' where "cb_loop ?L 0 (cb_visit ?cb 0) st x2 0 = Some (Inr (), x', u'')"
    using ref_cb_loop [of 0 "cb_visit ?cb 0" st x2 0] by blast
  then have "code = Success"
    using r(1) unfolding f4kvs_engine_scan_prefix_cb_def validate_engine_live [OF n(1) two_world_ok(2)]
    by (simp add: key_from_raw_def fe st cb_result_def)
  then obtain ps where ps: "enumerates (ref_kv (lsm two_world) 0) [] ps" "u' = length ps" using r(2) by (auto simp: count_visits)
  have "set ps = set nul_pairs" using ps(1) unfolding enumerates_def ref_kv_two by (auto simp: nul_pairs_def split: if_splits)
  moreover have "distinct nul_pairs" "length nul_pairs = 2" "distinct (map fst ps)" using ps(1) by (simp_all add: nul_pairs_def enumerates_def)
  ultimately have "u' = 2" using ps(2) by (metis distinct_card distinct_map)
  with r(1) \<open>code = Success\<close> show ?thesis by blast
qed

end
