(* ===== verification/C_Client.thy ===== *)
theory C_Client
  imports Cursor_Properties
begin

text \<open>
  A client of the C interface: any sequence of calls of the exported functions with any arguments, as long
  as no call has undefined behaviour. The world stays well-formed: the registries match the heap, and the
  reference count of every engine is the number of its handles and cursors. Calls are values of the type
  \<open>c_call\<close>, executed by \<open>c_exec\<close>.
\<close>

section \<open>Quiet steps\<close>

text \<open>The engine a block keeps alive, and steps that change no such block.\<close>

fun engine_of :: "'c block \<Rightarrow> eid option" where
  "engine_of (EngineBox e) = Some e"
| "engine_of (CursorBox c) = Some (cur_engine c)"
| "engine_of _ = None"

definition ref_at :: "('x, 'c) world \<Rightarrow> addr \<Rightarrow> eid option" where
  "ref_at w a = Option.bind (heap w a) engine_of"

definition quiet :: "('x, 'c) world \<Rightarrow> ('x, 'c) world \<Rightarrow> bool" where
  "quiet w w' \<longleftrightarrow> reg_inv w' \<and> arcs w' = arcs w \<and> ref_at w' = ref_at w"

definition keeps :: "('x, 'c) world \<Rightarrow> ('a \<times> ('x, 'c) world) option \<Rightarrow> bool" where
  "keeps w r \<longleftrightarrow> (\<forall>a w'. r = Some (a, w') \<longrightarrow> quiet w w')"

named_theorems keeps_intros \<open>steps that keep the engines and the registries\<close>

lemma quiet_refl: "reg_inv w \<Longrightarrow> quiet w w"
  by (simp add: quiet_def)

lemma quiet_inv: "quiet w w' \<Longrightarrow> reg_inv w'"
  by (simp add: quiet_def)

lemma ref_at_cong: "heap w' = heap w \<Longrightarrow> ref_at w' = ref_at w"
  by (simp add: ref_at_def fun_eq_iff)

lemma quiet_simps [simp]:
  "quiet w (set_last_error t m w') = quiet w w'"
  "quiet w (w'\<lparr>lsm := x\<rparr>) = quiet w w'"
  "quiet w (w'\<lparr>tick := n\<rparr>) = quiet w w'"
  "quiet w (w'\<lparr>engine_counter := k\<rparr>) = quiet w w'"
  unfolding quiet_def using ref_at_cong [of "set_last_error t m w'" w'] ref_at_cong [of "w'\<lparr>lsm := x\<rparr>" w']
    ref_at_cong [of "w'\<lparr>tick := n\<rparr>" w'] ref_at_cong [of "w'\<lparr>engine_counter := k\<rparr>" w'] by simp_all

lemma ref_at_upd: "heap w' = (heap w)(a := b) \<Longrightarrow> ref_at w' = (ref_at w)(a := Option.bind b engine_of)"
  by (auto simp: ref_at_def fun_eq_iff)

text \<open>Handing memory out and taking it back is quiet.\<close>

lemma quiet_handed:
  assumes "handed S B w w'"
  shows "quiet w w'"
proof -
  have "ref_at w' a = ref_at w a" for a
  proof (cases "a \<in> S \<union> B")
    case True
    then have "heap w a = None" using assms unfolding handed_def by blast
    moreover have "Option.bind (heap w' a) engine_of = None"
      using True assms unfolding handed_def by (fastforce simp: is_str_iff)
    ultimately show ?thesis by (simp add: ref_at_def)
  next
    case False
    then show ?thesis using handedD(3) [OF assms] by (simp add: ref_at_def)
  qed
  with handedD(2,5) [OF assms] show ?thesis by (auto simp: quiet_def)
qed

lemma quiet_trans: "quiet w w1 \<Longrightarrow> quiet w1 w2 \<Longrightarrow> quiet w w2"
  by (simp add: quiet_def)

lemma keeps_simps [simp]: "keeps w None" "keeps w (Some r) \<longleftrightarrow> quiet w (snd r)"
  by (cases r, auto simp: keeps_def)+

lemma keepsD: "keeps w r \<Longrightarrow> r = Some (a, w') \<Longrightarrow> quiet w w'"
  by (simp add: keeps_def)

lemma keeps_bind [keeps_intros]:
  "keeps w m \<Longrightarrow> (\<And>a w1. quiet w w1 \<Longrightarrow> keeps w (f a w1)) \<Longrightarrow> keeps w (m \<bind> (\<lambda>(a, w1). f a w1))"
  by (cases m) (auto simp: keeps_def)

lemma keeps_pure [keeps_intros]: "(\<And>a. keeps w (f a)) \<Longrightarrow> keeps w ((m :: bytes option) \<bind> f)"
  by (cases m) auto

lemma keeps_cases [keeps_intros]:
  "(\<And>a. keeps w (f a)) \<Longrightarrow> (\<And>b. keeps w (g b)) \<Longrightarrow> keeps w (case r of Inl a \<Rightarrow> f a | Inr b \<Rightarrow> g b)"
  "keeps w d \<Longrightarrow> (\<And>a. keeps w (h a)) \<Longrightarrow> keeps w (case_option d h m)"
  "keeps w p \<Longrightarrow> keeps w q \<Longrightarrow> keeps w (if b then p else q)"
  by (auto split: sum.splits option.splits)

lemma keeps_pairs [keeps_intros]:
  "quiet w (snd r) \<Longrightarrow> (\<And>a w1. quiet w w1 \<Longrightarrow> keeps w (f a w1)) \<Longrightarrow> keeps w (case r of (a, w1) \<Rightarrow> f a w1)"
  "quiet w (snd r) \<Longrightarrow> (\<And>a w1. quiet w w1 \<Longrightarrow> keeps w (f a w1)) \<Longrightarrow> keeps w (let (a, w1) = r in f a w1)"
  by (auto split: prod.splits)

section \<open>Validation and library calls\<close>

lemma quiet_library [simp]:
  "quiet w (snd (lsm_call g w1)) = quiet w w1"
  "quiet w (snd (unit_result t l rw)) = quiet w (snd rw)"
  "quiet w (snd (reject_batch_count E t e n w1)) = quiet w w1"
  "quiet w (snd (key_from_bytes t bs field w1)) = quiet w w1"
proof -
  show "quiet w (snd (lsm_call g w1)) = quiet w w1" by (simp add: lsm_call_def split_beta)
  show "quiet w (snd (unit_result t l rw)) = quiet w (snd rw)"
    by (cases rw; cases "fst rw") (simp_all add: unit_result_def)
  show "quiet w (snd (reject_batch_count E t e n w1)) = quiet w w1"
    unfolding reject_batch_count_def Let_def by simp
  show "quiet w (snd (key_from_bytes t bs field w1)) = quiet w w1"
    unfolding key_from_bytes_def by (cases "from_utf8 bs") simp_all
qed

lemma keeps_validate [keeps_intros]:
  "quiet w w1 \<Longrightarrow> keeps w (validate_engine t p w1)"
  "quiet w w1 \<Longrightarrow> keeps w (validate_c_string t p n f w1)"
  "quiet w w1 \<Longrightarrow> keeps w (key_from_raw t p n f w1)"
proof -
  assume q: "quiet w w1"
  show "keeps w (validate_engine t p w1)"
    unfolding validate_engine_def using q by (simp split: option.split block.split)
  show "keeps w (validate_c_string t p n f w1)"
    unfolding validate_c_string_def by (intro keeps_intros) (simp_all add: q)
  show "keeps w (key_from_raw t p n f w1)"
    unfolding key_from_raw_def by (intro keeps_intros) (simp_all add: q)
qed

lemma keeps_unit_call: "quiet w w1 \<Longrightarrow> keeps w (engine_unit_call t l f p w1)"
  unfolding engine_unit_call_def by (intro keeps_intros) simp_all

lemma keeps_set_bulk_import: "quiet w w1 \<Longrightarrow> keeps w (f4kvs_engine_set_bulk_import E t p b w1)"
  unfolding f4kvs_engine_set_bulk_import_def by (intro keeps_intros) simp_all

section \<open>Writes\<close>

lemma keeps_batch_items [keeps_intros]:
  "quiet w w1 \<Longrightarrow> keeps w (batch_put_items t n i ks vs ls w1)"
  "quiet w w1 \<Longrightarrow> keeps w (batch_put_kv_items t n ks ls vs vls w1)"
  "quiet w w1 \<Longrightarrow> keeps w (batch_delete_keys t n ks w1)"
  "quiet w w1 \<Longrightarrow> keeps w (batch_delete_kv_keys t n ks ls w1)"
proof -
  show "quiet w w1 \<Longrightarrow> keeps w (batch_put_items t n i ks vs ls w1)"
  proof (induction n arbitrary: i ks vs ls w1)
    case (Suc n)
    show ?case
      by (cases ks; cases vs; cases ls; (simp; fail)?) (hypsubst, unfold batch_put_items.simps, intro keeps_intros Suc.IH; (simp add: Suc.prems split: sum.splits; fail)?)
  qed simp
  show "quiet w w1 \<Longrightarrow> keeps w (batch_put_kv_items t n ks ls vs vls w1)"
  proof (induction n arbitrary: ks ls vs vls w1)
    case (Suc n)
    show ?case
      by (cases ks; cases ls; cases vs; cases vls; (simp; fail)?) (hypsubst, unfold batch_put_kv_items.simps, intro keeps_intros Suc.IH; (simp add: Suc.prems split: sum.splits; fail)?)
  qed simp
  show "quiet w w1 \<Longrightarrow> keeps w (batch_delete_keys t n ks w1)"
  proof (induction n arbitrary: ks w1)
    case (Suc n)
    show ?case
      by (cases ks; (simp; fail)?) (hypsubst, unfold batch_delete_keys.simps, intro keeps_intros Suc.IH; (simp add: Suc.prems split: sum.splits; fail)?)
  qed simp
  show "quiet w w1 \<Longrightarrow> keeps w (batch_delete_kv_keys t n ks ls w1)"
  proof (induction n arbitrary: ks ls w1)
    case (Suc n)
    show ?case
      by (cases ks; cases ls; (simp; fail)?) (hypsubst, unfold batch_delete_kv_keys.simps, intro keeps_intros Suc.IH; (simp add: Suc.prems split: sum.splits; fail)?)
  qed simp
qed

lemma keeps_writes:
  assumes "quiet w w1"
  shows "keeps w (f4kvs_engine_put E t p k v w1)" "keeps w (f4kvs_engine_put_bytes E t p k v n w1)"
    "keeps w (f4kvs_engine_delete E t p k w1)" "keeps w (f4kvs_engine_put_kv E t p k kn v n w1)"
    "keeps w (f4kvs_engine_delete_kv E t p k kn w1)"
  unfolding f4kvs_engine_put_def f4kvs_engine_put_bytes_def f4kvs_engine_delete_def f4kvs_engine_put_kv_def
    f4kvs_engine_delete_kv_def
  by (intro keeps_intros; use assms in simp)+

lemma keeps_batch_writes:
  assumes "quiet w w1"
  shows "keeps w (f4kvs_engine_batch_put_bytes E t p ks vs ls n w1)" "keeps w (f4kvs_engine_batch_delete E t p ks n w1)"
    "keeps w (f4kvs_engine_batch_put_kv E t p ks kls vs ls n w1)" "keeps w (f4kvs_engine_batch_delete_kv E t p ks kls n w1)"
  unfolding f4kvs_engine_batch_put_bytes_def f4kvs_engine_batch_delete_def f4kvs_engine_batch_put_kv_def
    f4kvs_engine_batch_delete_kv_def
  by (intro keeps_intros; use assms in simp)+

section \<open>Memory handed out and taken back\<close>

lemma quiet_alloc:
  assumes "fresh_allocator al" "quiet w w1"
  shows "quiet w (snd (allocate_c_string al t s w1))" "quiet w (snd (allocate_bytes al s w1))"
    "plain_block b \<Longrightarrow> engine_of b = None \<Longrightarrow> quiet w (snd (alloc_block al b w1))"
proof -
  note h = handed_refl [OF quiet_inv [OF assms(2)]]
  show "quiet w (snd (allocate_c_string al t s w1))"
  proof (cases "allocate_c_string al t s w1")
    case (Pair r w2)
    then show ?thesis
    proof (cases r)
      case (Inl c)
      with Pair assms(2) show ?thesis by (auto simp: allocate_c_string_def split: option.splits prod.splits)
    next
      case (Inr p)
      with Pair quiet_trans [OF assms(2) quiet_handed [OF handed_string(1) [OF assms(1) h]]] show ?thesis by simp
    qed
  qed
  obtain p n w2 where 2: "allocate_bytes al s w1 = ((p, n), w2)" by (metis prod.exhaust)
  with quiet_trans [OF assms(2) quiet_handed [OF handed_bytes(1) [OF assms(1) h 2]]]
  show "quiet w (snd (allocate_bytes al s w1))" by simp
  assume b: "plain_block b" "engine_of b = None"
  from assms(1) quiet_inv [OF assms(2)] obtain a where
    a: "alloc_block al b w1 = (a, w1\<lparr>heap := (heap w1)(a \<mapsto> b), tick := Suc (tick w1)\<rparr>)" "heap w1 a = None" "1 < a"
    by (rule alloc_blockE)
  have "ref_at w1 a = None" using a(2) by (simp add: ref_at_def)
  with reg_inv_insert_plain [OF quiet_inv [OF assms(2)] a(2,3) b(1)] assms(2) b(2) a(1)
    ref_at_upd [of "snd (alloc_block al b w1)" w1 a "Some b"]
  show "quiet w (snd (alloc_block al b w1))" by (simp add: quiet_def fun_upd_idem)
qed

lemma quiet_drop:
  assumes "quiet w w1" "heap w1 a = Some b" "plain_block b" "engine_of b = None"
  shows "quiet w (drop_block a w1)"
proof -
  have "ref_at (drop_block a w1) = ref_at w1"
    using ref_at_upd [of "drop_block a w1" w1 a None] assms(2,4) by (simp add: drop_block_def ref_at_def fun_upd_idem)
  with assms(1) reg_inv_drop_plain [OF quiet_inv [OF assms(1)] assms(2,3)] show ?thesis
    by (simp add: quiet_def drop_block_def)
qed

text \<open>A free changes a block only if it is a string or a buffer.\<close>

lemma quiet_frees:
  assumes "quiet w w1"
  shows "f4kvs_string_free p w1 = Some w2 \<Longrightarrow> quiet w w2" "f4kvs_bytes_free p w1 = Some w2 \<Longrightarrow> quiet w w2"
proof -
  note inv = quiet_inv [OF assms]
  show "quiet w w2" if f: "f4kvs_string_free p w1 = Some w2"
  proof -
    have "reg_inv w2" using f4kvs_string_free_total [OF inv, of p] f by force
    moreover have "ref_at w2 = ref_at w1"
      using string_free_effect(1) [OF f inv] by (auto simp: ref_at_def fun_eq_iff is_str_iff split: if_splits)
    ultimately show ?thesis using assms string_free_effect(3) [OF f inv] by (simp add: quiet_def)
  qed
  show "quiet w w2" if f: "f4kvs_bytes_free p w1 = Some w2"
  proof -
    have "reg_inv w2" using f4kvs_bytes_free_total [OF inv, of p] f by force
    moreover have "ref_at w2 = ref_at w1"
      using bytes_free_effect(1) [OF f inv] by (auto simp: ref_at_def fun_eq_iff buf_len_eq split: if_splits)
    ultimately show ?thesis using assms bytes_free_effect(3) [OF f inv] by (simp add: quiet_def)
  qed
qed

lemma quiet_free_lists:
  "quiet w w1 \<Longrightarrow> free_strings ps w1 = Some w2 \<Longrightarrow> quiet w w2"
  "quiet w w1 \<Longrightarrow> free_pairs qs w1 = Some w2 \<Longrightarrow> quiet w w2"
  "quiet w w1 \<Longrightarrow> free_pairs_kv kqs w1 = Some w2 \<Longrightarrow> quiet w w2"
proof -
  show "quiet w w1 \<Longrightarrow> free_strings ps w1 = Some w2 \<Longrightarrow> quiet w w2"
    by (induction ps arbitrary: w1) (auto simp: bind_eq_Some_conv dest: quiet_frees)
  show "quiet w w1 \<Longrightarrow> free_pairs qs w1 = Some w2 \<Longrightarrow> quiet w w2"
    by (induction qs arbitrary: w1) (auto simp: bind_eq_Some_conv, blast dest: quiet_frees)
  show "quiet w w1 \<Longrightarrow> free_pairs_kv kqs w1 = Some w2 \<Longrightarrow> quiet w w2"
    by (induction kqs arbitrary: w1) (auto simp: bind_eq_Some_conv, blast dest: quiet_frees)
qed

section \<open>Reads and scans\<close>

lemma keeps_free_then [keeps_intros]:
  "quiet w w1 \<Longrightarrow> keeps w (free_strings ps w1 \<bind> (\<lambda>w2. Some (c, w2)))"
  "quiet w w1 \<Longrightarrow> keeps w (free_pairs qs w1 \<bind> (\<lambda>w2. Some (d, w2)))"
  by (auto simp: keeps_def bind_eq_Some_conv dest: quiet_free_lists)

lemma keeps_alloc_lists [keeps_intros]:
  assumes "fresh_allocator al"
  shows "quiet w w1 \<Longrightarrow> keeps w (alloc_key_ptrs al t ks ptrs w1)"
    and "quiet w w1 \<Longrightarrow> keeps w (alloc_pairs al t items qs w1)"
proof -
  show "quiet w w1 \<Longrightarrow> keeps w (alloc_key_ptrs al t ks ptrs w1)"
  proof (induction ks arbitrary: ptrs w1)
    case (Cons k ks)
    show ?case unfolding alloc_key_ptrs.simps
      by (intro keeps_intros Cons.IH quiet_alloc assms Cons.prems) assumption+
  qed simp
  show "quiet w w1 \<Longrightarrow> keeps w (alloc_pairs al t items qs w1)"
  proof (induction items arbitrary: qs w1)
    case (Cons kv items)
    obtain k v where kv: "kv = (k, v)" by fastforce
    show ?case unfolding kv alloc_pairs.simps Let_def
      by (intro keeps_intros Cons.IH quiet_alloc assms Cons.prems; (auto split: prod.splits intro: Cons.IH)?)
  qed simp
qed

lemma quiet_pairs_kv: "fresh_allocator al \<Longrightarrow> quiet w w1 \<Longrightarrow> quiet w (snd (alloc_pairs_kv al items w1))"
proof (induction items arbitrary: w1)
  case (Cons kv items)
  obtain k v where kv: "kv = (k, v)" by fastforce
  obtain p n w2 where 2: "allocate_bytes al k w1 = ((p, n), w2)" by (metis prod.exhaust)
  obtain q m w3 where 3: "allocate_bytes al (value_to_bytes v) w2 = ((q, m), w3)" by (metis prod.exhaust)
  have "quiet w w2" using quiet_alloc(2) [OF Cons.prems, of k] 2 by simp
  then have "quiet w w3" using quiet_alloc(2) [OF Cons.prems(1), of w w2 "value_to_bytes v"] 3 by simp
  from Cons.IH [OF Cons.prems(1) this] show ?case by (simp add: kv 2 3 split_beta)
qed simp

lemma keeps_fills [keeps_intros]:
  assumes "fresh_allocator al" "quiet w w1"
  shows "keeps w (fill_key_scan al t ks w1)" "keeps w (fill_scan_result al t items w1)"
    "quiet w (snd (fill_scan_result_kv al items w1))"
proof -
  show "keeps w (fill_key_scan al t ks w1)" unfolding fill_key_scan_def
    by (intro keeps_intros quiet_alloc assms) (simp_all add: assms)
  show "keeps w (fill_scan_result al t items w1)" unfolding fill_scan_result_def
    by (intro keeps_intros quiet_alloc assms) (simp_all add: assms)
  show "quiet w (snd (fill_scan_result_kv al items w1))"
    using assms(2) quiet_alloc(3) [OF assms(1) quiet_pairs_kv [OF assms, of items]]
    by (simp add: fill_scan_result_kv_def split_beta Let_def)
qed

lemma keeps_reads:
  assumes "fresh_allocator (allocator E)" "quiet w w1"
  shows "keeps w (f4kvs_engine_get E t p k out w1)" "keeps w (f4kvs_engine_get_bytes E t p k out len w1)"
    "keeps w (f4kvs_engine_exists E t p k out w1)" "keeps w (f4kvs_engine_get_kv E t p k kn out len w1)"
    "keeps w (f4kvs_engine_scan_prefix_keys E t p k out w1)" "keeps w (f4kvs_engine_scan_prefix E t p k out w1)"
    "keeps w (f4kvs_engine_scan_prefix_kv E t p k kn out w1)" "keeps w (f4kvs_engine_scan_prefix_keys_kv E t p k kn out w1)"
  unfolding f4kvs_engine_get_def f4kvs_engine_get_bytes_def f4kvs_engine_exists_def f4kvs_engine_get_kv_def
    f4kvs_engine_scan_prefix_keys_def f4kvs_engine_scan_prefix_def f4kvs_engine_scan_prefix_kv_def
    f4kvs_engine_scan_prefix_keys_kv_def
  by (intro keeps_intros quiet_alloc assms(1); (simp add: assms(2); fail)?)+

text \<open>The results of scans are freed without a change of any handle, whatever the caller passes.\<close>

lemma frees_plain:
  assumes "reg_inv w" "heap w a = Some b" "plain_block b"
  shows "f4kvs_string_free p w = Some w' \<Longrightarrow> reg_inv w' \<and> heap w' a = Some b"
    and "f4kvs_bytes_free p w = Some w' \<Longrightarrow> reg_inv w' \<and> heap w' a = Some b"
proof -
  have b: "\<not> is_str (Some b)" "buf_len (Some b) = None" using assms(3) by simp_all
  show "reg_inv w' \<and> heap w' a = Some b" if f: "f4kvs_string_free p w = Some w'"
    using f4kvs_string_free_total [OF assms(1), of p] f string_free_effect(1) [OF f assms(1)] assms(2) b(1) by force
  show "reg_inv w' \<and> heap w' a = Some b" if f: "f4kvs_bytes_free p w = Some w'"
    using f4kvs_bytes_free_total [OF assms(1), of p] f bytes_free_effect(1) [OF f assms(1)] assms(2) b(2) by force
qed

lemma free_lists_plain:
  assumes "plain_block b"
  shows "reg_inv w \<Longrightarrow> heap w a = Some b \<Longrightarrow> free_strings ps w = Some w' \<Longrightarrow> heap w' a = Some b"
    and "reg_inv w \<Longrightarrow> heap w a = Some b \<Longrightarrow> free_pairs qs w = Some w' \<Longrightarrow> heap w' a = Some b"
    and "reg_inv w \<Longrightarrow> heap w a = Some b \<Longrightarrow> free_pairs_kv kqs w = Some w' \<Longrightarrow> heap w' a = Some b"
proof -
  note one = frees_plain [OF _ _ assms]
  show "reg_inv w \<Longrightarrow> heap w a = Some b \<Longrightarrow> free_strings ps w = Some w' \<Longrightarrow> heap w' a = Some b"
    by (induction ps arbitrary: w) (simp, simp add: bind_eq_Some_conv, blast dest: one)
  show "reg_inv w \<Longrightarrow> heap w a = Some b \<Longrightarrow> free_pairs qs w = Some w' \<Longrightarrow> heap w' a = Some b"
    by (induction qs arbitrary: w) (simp, simp add: bind_eq_Some_conv, blast dest: one)
  show "reg_inv w \<Longrightarrow> heap w a = Some b \<Longrightarrow> free_pairs_kv kqs w = Some w' \<Longrightarrow> heap w' a = Some b"
    by (induction kqs arbitrary: w) (simp, simp add: bind_eq_Some_conv, blast dest: one)
qed

lemma quiet_free_drop:
  assumes "quiet w w1" "heap w1 a = Some b"
  shows "b = KeyPtrs ps \<Longrightarrow> free_strings qs w1 = Some w2 \<Longrightarrow> quiet w (drop_block a w2)"
    and "b = KVPairs pairs \<Longrightarrow> free_pairs pairs w1 = Some w2 \<Longrightarrow> quiet w (drop_block a w2)"
    and "b = KVPairsKv kpairs \<Longrightarrow> free_pairs_kv kpairs w1 = Some w2 \<Longrightarrow> quiet w (drop_block a w2)"
  using quiet_drop [OF quiet_free_lists(1) [OF assms(1)] free_lists_plain(1) [OF _ quiet_inv [OF assms(1)] assms(2)]]
    quiet_drop [OF quiet_free_lists(2) [OF assms(1)] free_lists_plain(2) [OF _ quiet_inv [OF assms(1)] assms(2)]]
    quiet_drop [OF quiet_free_lists(3) [OF assms(1)] free_lists_plain(3) [OF _ quiet_inv [OF assms(1)] assms(2)]]
  by simp_all

lemma keeps_result_frees:
  assumes "quiet w w1"
  shows "keeps w (f4kvs_key_scan_result_free r w1)" "keeps w (f4kvs_scan_result_free s w1)"
    "keeps w (f4kvs_scan_result_kv_free k w1)"
  unfolding f4kvs_key_scan_result_free_def f4kvs_scan_result_free_def f4kvs_scan_result_kv_free_def
  using assms by (auto simp: keeps_def bind_eq_Some_conv split: option.splits if_splits block.splits intro: quiet_free_drop)

section \<open>Cursors and callbacks\<close>

lemma pull_page_frame:
  assumes "cursor_pull_page L t c n w1 = ((r, c'), w2)"
  shows "quiet w w2 = quiet w w1" "heap w2 = heap w1" "cur_engine c' = cur_engine c"
  using assms
  by (auto simp: cursor_pull_page_def cursor_ensure_state_def lsm_call_def split: option.splits sum.splits prod.splits)

lemma quiet_cursor:
  assumes "quiet w w1" "heap w1 a = Some (CursorBox c)" "cur_engine c' = cur_engine c"
  shows "quiet w (w1\<lparr>heap := (heap w1)(a \<mapsto> CursorBox c')\<rparr>)"
proof -
  let ?w = "w1\<lparr>heap := (heap w1)(a \<mapsto> CursorBox c')\<rparr>"
  note inv = quiet_inv [OF assms(1)]
  have "1 < a" using reg_invD(2,3) [OF inv] assms(2) by (cases "a = 0 \<or> a = 1") auto
  then have "reg_inv ?w"
    using reg_inv_insert_plain [OF reg_inv_drop_plain [OF inv assms(2)], of a "CursorBox c'" "tick w1"]
    by (simp add: drop_block_def)
  moreover have "ref_at ?w = ref_at w1"
    using ref_at_upd [of ?w w1 a "Some (CursorBox c')"] assms(2,3) by (simp add: ref_at_def fun_upd_idem)
  ultimately show ?thesis using assms(1) by (simp add: quiet_def)
qed

lemma quiet_pulled:
  assumes "quiet w w1" "heap w1 a = Some (CursorBox c)" "cursor_pull_page L t c n w1 = ((r, c1), w2)"
    and "cur_engine c' = cur_engine c1"
  shows "quiet w (w2\<lparr>heap := (heap w2)(a \<mapsto> CursorBox c')\<rparr>)"
  using quiet_cursor [of w w2 a c c'] assms pull_page_frame [OF assms(3)] by simp

lemma keeps_advance [keeps_intros]: "quiet w w1 \<Longrightarrow> keeps w (cursor_advance L t cur n out w1)"
  unfolding cursor_advance_def keeps_def
  by (auto split: if_splits option.splits block.splits sum.splits prod.splits intro: quiet_pulled)

lemma keeps_next:
  assumes "fresh_allocator (allocator E)" "quiet w w1"
  shows "keeps w (f4kvs_engine_cursor_next_n E L t cur n out w1)" "keeps w (f4kvs_engine_cursor_next_n_kv E L t cur n out w1)"
proof -
  show "keeps w (f4kvs_engine_cursor_next_n E L t cur n out w1)" unfolding f4kvs_engine_cursor_next_n_def
    by (intro keeps_intros assms) simp_all
  show "keeps w (f4kvs_engine_cursor_next_n_kv E L t cur n out w1)" unfolding f4kvs_engine_cursor_next_n_kv_def
    by (intro keeps_intros assms) (use keeps_fills(3) [OF assms(1), of w] in \<open>auto simp: split_beta\<close>)
qed

lemma quiet_cb_result: "cb_result t l v rxu = (code, w2, u') \<Longrightarrow> quiet w v \<Longrightarrow> quiet w w2"
  by (auto simp: cb_result_def split: prod.splits sum.splits)

lemma quiet_callback:
  assumes "quiet w w1" "f4kvs_engine_scan_prefix_cb L t p k n cb user w1 u = Some (code, w2, u')"
  shows "quiet w w2"
proof (cases cb)
  case None
  with assms show ?thesis by (auto simp: f4kvs_engine_scan_prefix_cb_def)
next
  case (Some f)
  obtain r v where 1: "validate_engine t p w1 = Some (r, v)"
    using assms(2) Some by (auto simp: f4kvs_engine_scan_prefix_cb_def bind_eq_Some_conv)
  then have v: "quiet w v" using keepsD [OF keeps_validate(1) [OF assms(1)]] by blast
  show ?thesis
  proof (cases r)
    case (Inl c)
    with 1 v Some assms(2) show ?thesis by (simp add: f4kvs_engine_scan_prefix_cb_def)
  next
    case (Inr e)
    then obtain rp v2 where 2: "key_from_raw t k n ''prefix'' v = Some (rp, v2)"
      using 1 Some assms(2) by (auto simp: f4kvs_engine_scan_prefix_cb_def bind_eq_Some_conv)
    then have v2: "quiet w v2" using keepsD [OF keeps_validate(3) [OF v]] by blast
    with 1 2 Inr Some assms(2) show ?thesis
      by (auto simp: f4kvs_engine_scan_prefix_cb_def bind_eq_Some_conv split: sum.splits option.splits prod.splits
          intro: quiet_cb_result)
  qed
qed

section \<open>Handles, cursors and reference counts\<close>

definition refs :: "('x, 'c) world \<Rightarrow> eid \<Rightarrow> addr set" where
  "refs w e = {a. ref_at w a = Some e}"

definition world_ok :: "('x, 'c) world \<Rightarrow> bool" where
  "world_ok w \<longleftrightarrow> reg_inv w \<and> (\<forall>e. arcs w e = card (refs w e))"

lemma world_ok_quiet: "world_ok w \<Longrightarrow> quiet w w' \<Longrightarrow> world_ok w'"
  by (simp add: world_ok_def quiet_def refs_def)

lemma finite_refs: "reg_inv w \<Longrightarrow> finite (refs w e)"
  by (rule finite_subset [OF _ reg_invD(1)]) (auto simp: refs_def ref_at_def bind_eq_Some_conv)

lemma refs_upd:
  assumes "ref_at w' = (ref_at w)(a := r)"
  shows "refs w' e = (if r = Some e then insert a (refs w e) else refs w e - {a})"
  using assms by (auto simp: refs_def)

lemma world_ok_add:
  assumes "world_ok w" "heap w a = None" "1 < a" "plain_block b" "engine_of b = Some e"
  shows "world_ok (w\<lparr>lsm := x, arcs := (arcs w)(e := arcs w e + 1), heap := (heap w)(a \<mapsto> b), tick := n\<rparr>)"
proof -
  let ?w = "w\<lparr>lsm := x, arcs := (arcs w)(e := arcs w e + 1), heap := (heap w)(a \<mapsto> b), tick := n\<rparr>"
  have inv: "reg_inv w" using assms(1) by (simp add: world_ok_def)
  have "refs ?w e' = (if e' = e then insert a (refs w e) else refs w e')" for e'
    using refs_upd [of ?w w a "Some e" e'] ref_at_upd [of ?w w a "Some b"] assms(2,5) by (auto simp: refs_def ref_at_def)
  moreover have "a \<notin> refs w e" using assms(2) by (simp add: refs_def ref_at_def)
  moreover have "reg_inv ?w"
    using reg_inv_insert_plain [OF inv assms(2-4), of n] reg_inv_cong [of ?w "w\<lparr>heap := (heap w)(a \<mapsto> b), tick := n\<rparr>"] by simp
  ultimately show ?thesis using assms(1) finite_refs [OF inv, of e] by (auto simp: world_ok_def)
qed

lemma world_ok_del:
  assumes "world_ok w" "heap w a = Some b" "plain_block b" "engine_of b = Some e"
  shows "world_ok (drop_arc E e (drop_block a w))"
    "lsm (drop_arc E e (drop_block a w)) = (if refs w e = {a} then lsm_drop E e (lsm w) else lsm w)"
proof -
  let ?w = "drop_arc E e (drop_block a w)"
  have inv: "reg_inv w" and n: "\<And>e. arcs w e = card (refs w e)" using assms(1) by (simp_all add: world_ok_def)
  have a: "a \<in> refs w e" using assms(2,4) by (simp add: refs_def ref_at_def)
  have h: "heap ?w = (heap w)(a := None)" "arcs ?w = (arcs w)(e := arcs w e - 1)"
    by (simp_all add: drop_arc_def drop_block_def Let_def)
  have "refs ?w e' = refs w e' - {a}" for e'
    using refs_upd [of ?w w a None e'] ref_at_upd [OF h(1)] by simp
  moreover have "a \<notin> refs w e'" if "e' \<noteq> e" for e' using a that by (simp add: refs_def)
  moreover have "reg_inv ?w" using reg_inv_drop_plain [OF inv assms(2,3)] by (simp add: drop_arc_def Let_def)
  ultimately show "world_ok ?w" using n a finite_refs [OF inv, of e] by (simp add: world_ok_def h(2))
  have "card (refs w e) \<le> 1 \<longleftrightarrow> refs w e = {a}"
    using a finite_refs [OF inv, of e] card_le_Suc0_iff_eq [of "refs w e"] by auto
  then show "lsm ?w = (if refs w e = {a} then lsm_drop E e (lsm w) else lsm w)"
    by (simp add: drop_arc_def drop_block_def Let_def n)
qed

section \<open>Opening\<close>

text \<open>A new engine is an object of its own: the library does not name it like one that is still in use.\<close>

definition new_names :: "('x, 'c) env \<Rightarrow> ('x, 'c) world \<Rightarrow> bool" where
  "new_names E w \<longleftrightarrow> (\<forall>c e x. lsm_new E c (lsm w) = (Inr e, x) \<longrightarrow> arcs w e = 0)"

lemma engine_open_ok:
  assumes "fresh_allocator (allocator E)" "world_ok w" "new_names E w"
  shows "world_ok (snd (box_engine E t l (open_lsm_engine E t dir opts w)))"
proof (cases "lsm_new E (engine_config E dir opts) (lsm w)")
  case (Pair r x)
  show ?thesis
  proof (cases r)
    case (Inl m)
    have "reg_inv w" using assms(2) by (simp add: world_ok_def)
    then have "quiet w (snd (box_engine E t l (open_lsm_engine E t dir opts w)))"
      using Pair Inl by (simp add: open_lsm_engine_def lsm_call_def box_engine_def quiet_refl)
    with assms(2) show ?thesis by (rule world_ok_quiet)
  next
    case (Inr e)
    let ?w = "w\<lparr>lsm := x, arcs := (arcs w)(e := 1)\<rparr>"
    have "arcs w e = 0" using assms(3) Pair Inr unfolding new_names_def by blast
    have "reg_inv ?w" using assms(2) by (simp add: world_ok_def)
    with assms(1) obtain a where
      a: "alloc_block (allocator E) (EngineBox e) ?w = (a, ?w\<lparr>heap := (heap ?w)(a \<mapsto> EngineBox e), tick := Suc (tick ?w)\<rparr>)"
        "heap ?w a = None" "1 < a" by (rule alloc_blockE)
    from world_ok_add [OF assms(2) _ a(3), of "EngineBox e" e "Suc (tick w)" x] a(2) \<open>arcs w e = 0\<close>
    have "world_ok (?w\<lparr>heap := (heap ?w)(a \<mapsto> EngineBox e), tick := Suc (tick ?w)\<rparr>)" by simp
    with Pair Inr a(1) show ?thesis by (simp add: open_lsm_engine_def lsm_call_def box_engine_def)
  qed
qed

section \<open>Calls\<close>

text \<open>
  One value per exported function that can change the world, with its arguments, and the allocation and
  release of memory by the client itself. The calls act on the world and, through a callback, on a state
  of the client.
\<close>

datatype 'u c_call =
    Engine_new
  | Engine_open addr
  | Engine_open_ex addr "mem option"
  | Engine_close addr
  | Engine_compact addr
  | Engine_flush addr
  | Engine_flush_wal addr
  | Engine_set_bulk_import addr "8 word"
  | Engine_free addr
  | Engine_put addr addr addr
  | Engine_put_bytes addr addr addr nat
  | Engine_batch_put_bytes addr "addr list option" "addr list option" "nat list option" nat
  | Engine_delete addr addr
  | Engine_batch_delete addr "addr list option" nat
  | Engine_get addr addr addr
  | Engine_get_bytes addr addr addr addr
  | Engine_exists addr addr addr
  | Engine_scan_prefix_keys addr addr addr
  | Engine_scan_prefix addr addr addr
  | Engine_get_kv addr addr nat addr addr
  | Engine_put_kv addr addr nat addr nat
  | Engine_delete_kv addr addr nat
  | Engine_batch_put_kv addr "addr list option" "nat list option" "addr list option" "nat list option" nat
  | Engine_batch_delete_kv addr "addr list option" "nat list option" nat
  | Engine_scan_prefix_kv addr addr nat addr
  | Engine_scan_prefix_keys_kv addr addr nat addr
  | Engine_cursor_open addr addr nat
  | Engine_cursor_next_n addr nat addr
  | Engine_cursor_next_n_kv addr nat addr
  | Engine_cursor_free addr
  | Engine_scan_prefix_cb addr addr nat "'u c_callback option" "64 word"
  | Key_scan_result_free "F4KvsKeyScanResult option"
  | Scan_result_free "F4KvsScanResult option"
  | Scan_result_kv_free "F4KvsScanResultKv option"
  | String_free addr
  | Bytes_free addr
  | C_malloc bytes
  | C_free addr

definition and_user :: "'u \<Rightarrow> ('a \<times> ('x, 'c) world) option \<Rightarrow> (('x, 'c) world \<times> 'u) option" where
  "and_user u r = map_option (\<lambda>(_, w). (w, u)) r"

primrec c_exec ::
  "('x, 'c) env \<Rightarrow> ('x, 'c, 'u) scan_lib \<Rightarrow> tid \<Rightarrow> 'u c_call \<Rightarrow> ('x, 'c) world \<Rightarrow> 'u \<Rightarrow> (('x, 'c) world \<times> 'u) option" where
  "c_exec E L t Engine_new w u = and_user u (Some (f4kvs_engine_new E t w))"
| "c_exec E L t (Engine_open a1) w u = and_user u (f4kvs_engine_open E t a1 w)"
| "c_exec E L t (Engine_open_ex a1 a2) w u = and_user u (f4kvs_engine_open_ex E t a1 a2 w)"
| "c_exec E L t (Engine_close a1) w u = and_user u (f4kvs_engine_close E t a1 w)"
| "c_exec E L t (Engine_compact a1) w u = and_user u (f4kvs_engine_compact E t a1 w)"
| "c_exec E L t (Engine_flush a1) w u = and_user u (f4kvs_engine_flush E t a1 w)"
| "c_exec E L t (Engine_flush_wal a1) w u = and_user u (f4kvs_engine_flush_wal E t a1 w)"
| "c_exec E L t (Engine_set_bulk_import a1 a2) w u = and_user u (f4kvs_engine_set_bulk_import E t a1 a2 w)"
| "c_exec E L t (Engine_free a1) w u = map_option (\<lambda>w1. (w1, u)) (f4kvs_engine_free E a1 w)"
| "c_exec E L t (Engine_put a1 a2 a3) w u = and_user u (f4kvs_engine_put E t a1 a2 a3 w)"
| "c_exec E L t (Engine_put_bytes a1 a2 a3 a4) w u = and_user u (f4kvs_engine_put_bytes E t a1 a2 a3 a4 w)"
| "c_exec E L t (Engine_batch_put_bytes a1 a2 a3 a4 a5) w u = and_user u (f4kvs_engine_batch_put_bytes E t a1 a2 a3 a4 a5 w)"
| "c_exec E L t (Engine_delete a1 a2) w u = and_user u (f4kvs_engine_delete E t a1 a2 w)"
| "c_exec E L t (Engine_batch_delete a1 a2 a3) w u = and_user u (f4kvs_engine_batch_delete E t a1 a2 a3 w)"
| "c_exec E L t (Engine_get a1 a2 a3) w u = and_user u (f4kvs_engine_get E t a1 a2 a3 w)"
| "c_exec E L t (Engine_get_bytes a1 a2 a3 a4) w u = and_user u (f4kvs_engine_get_bytes E t a1 a2 a3 a4 w)"
| "c_exec E L t (Engine_exists a1 a2 a3) w u = and_user u (f4kvs_engine_exists E t a1 a2 a3 w)"
| "c_exec E L t (Engine_scan_prefix_keys a1 a2 a3) w u = and_user u (f4kvs_engine_scan_prefix_keys E t a1 a2 a3 w)"
| "c_exec E L t (Engine_scan_prefix a1 a2 a3) w u = and_user u (f4kvs_engine_scan_prefix E t a1 a2 a3 w)"
| "c_exec E L t (Engine_get_kv a1 a2 a3 a4 a5) w u = and_user u (f4kvs_engine_get_kv E t a1 a2 a3 a4 a5 w)"
| "c_exec E L t (Engine_put_kv a1 a2 a3 a4 a5) w u = and_user u (f4kvs_engine_put_kv E t a1 a2 a3 a4 a5 w)"
| "c_exec E L t (Engine_delete_kv a1 a2 a3) w u = and_user u (f4kvs_engine_delete_kv E t a1 a2 a3 w)"
| "c_exec E L t (Engine_batch_put_kv a1 a2 a3 a4 a5 a6) w u = and_user u (f4kvs_engine_batch_put_kv E t a1 a2 a3 a4 a5 a6 w)"
| "c_exec E L t (Engine_batch_delete_kv a1 a2 a3 a4) w u = and_user u (f4kvs_engine_batch_delete_kv E t a1 a2 a3 a4 w)"
| "c_exec E L t (Engine_scan_prefix_kv a1 a2 a3 a4) w u = and_user u (f4kvs_engine_scan_prefix_kv E t a1 a2 a3 a4 w)"
| "c_exec E L t (Engine_scan_prefix_keys_kv a1 a2 a3 a4) w u = and_user u (f4kvs_engine_scan_prefix_keys_kv E t a1 a2 a3 a4 w)"
| "c_exec E L t (Engine_cursor_open a1 a2 a3) w u = and_user u (f4kvs_engine_cursor_open E t a1 a2 a3 w)"
| "c_exec E L t (Engine_cursor_next_n a1 a2 a3) w u = and_user u (f4kvs_engine_cursor_next_n E L t a1 a2 a3 w)"
| "c_exec E L t (Engine_cursor_next_n_kv a1 a2 a3) w u = and_user u (f4kvs_engine_cursor_next_n_kv E L t a1 a2 a3 w)"
| "c_exec E L t (Engine_cursor_free a1) w u = map_option (\<lambda>w1. (w1, u)) (f4kvs_engine_cursor_free E a1 w)"
| "c_exec E L t (Engine_scan_prefix_cb a1 a2 a3 a4 a5) w u = map_option snd (f4kvs_engine_scan_prefix_cb L t a1 a2 a3 a4 a5 w u)"
| "c_exec E L t (Key_scan_result_free a1) w u = and_user u (f4kvs_key_scan_result_free a1 w)"
| "c_exec E L t (Scan_result_free a1) w u = and_user u (f4kvs_scan_result_free a1 w)"
| "c_exec E L t (Scan_result_kv_free a1) w u = and_user u (f4kvs_scan_result_kv_free a1 w)"
| "c_exec E L t (String_free a1) w u = map_option (\<lambda>w1. (w1, u)) (f4kvs_string_free a1 w)"
| "c_exec E L t (Bytes_free a1) w u = map_option (\<lambda>w1. (w1, u)) (f4kvs_bytes_free a1 w)"
| "c_exec E L t (C_malloc a1) w u = and_user u (Some (c_malloc_copy (allocator E) a1 w))"
| "c_exec E L t (C_free a1) w u = map_option (\<lambda>w1. (w1, u)) (c_free a1 w)"

section \<open>Every call keeps the world well-formed\<close>

lemma ok_user: "and_user u r = Some (w', u') \<Longrightarrow> world_ok w \<Longrightarrow> keeps w r \<Longrightarrow> world_ok w'"
  by (auto simp: and_user_def keeps_def intro: world_ok_quiet)

lemmas quiet_steps =
  keeps_unit_call keeps_set_bulk_import keeps_writes keeps_batch_writes keeps_reads keeps_result_frees keeps_next

lemma validate_data_dir_same:
  assumes "validate_data_dir t p w = Some (Inr path, w1)"
  shows "w1 = w"
proof -
  obtain s where s: "cstr_from_ptr w p = Some s"
    using assms by (auto simp: validate_data_dir_def bind_eq_Some_conv split: if_splits)
  with assms show ?thesis by (cases "from_utf8 s") (auto simp: validate_data_dir_def split: if_splits)
qed

lemma quiet_data_dir: "quiet w w1 \<Longrightarrow> keeps w (validate_data_dir t p w1)"
  unfolding validate_data_dir_def by (intro keeps_intros) simp_all

lemma opens_ok:
  assumes "fresh_allocator (allocator E)" "world_ok w" "new_names E w"
  shows "and_user u (Some (f4kvs_engine_new E t w)) = Some (w', u') \<Longrightarrow> world_ok w'"
    "and_user u (f4kvs_engine_open E t p w) = Some (w', u') \<Longrightarrow> world_ok w'"
    "and_user u (f4kvs_engine_open_ex E t p opts w) = Some (w', u') \<Longrightarrow> world_ok w'"
proof -
  have inv: "reg_inv w" using assms(2) by (simp add: world_ok_def)
  have bad: "world_ok w1" if "validate_data_dir t p w = Some (r, w1)" for r w1
    using keepsD [OF quiet_data_dir [OF quiet_refl [OF inv]] that] assms(2) by (rule world_ok_quiet [rotated])
  have opened: "world_ok v" if "box_engine E t l (open_lsm_engine E t dir o' w) = (a, v)" for l dir o' a v
    using engine_open_ok [OF assms, of t l dir o'] that by simp
  let ?w = "w\<lparr>engine_counter := engine_counter w + 1\<rparr>"
  have "world_ok ?w" "new_names E ?w"
    using world_ok_quiet [OF assms(2), of ?w] inv assms(3) by (simp_all add: quiet_refl new_names_def)
  then show "and_user u (Some (f4kvs_engine_new E t w)) = Some (w', u') \<Longrightarrow> world_ok w'"
    using engine_open_ok [OF assms(1)] by (auto simp: and_user_def f4kvs_engine_new_def unique_data_dir_def split_beta)
  show "world_ok w'" if h: "and_user u (f4kvs_engine_open E t p w) = Some (w', u')"
  proof -
    obtain r w1 where v: "validate_data_dir t p w = Some (r, w1)"
      using h by (auto simp: and_user_def f4kvs_engine_open_def bind_eq_Some_conv)
    show ?thesis
    proof (cases r)
      case (Inl c)
      with v h bad [OF v] show ?thesis by (simp add: and_user_def f4kvs_engine_open_def)
    next
      case (Inr path)
      with v h validate_data_dir_same [of t p w path w1] show ?thesis
        by (auto intro: opened engine_open_ok [OF assms] simp: and_user_def f4kvs_engine_open_def bind_eq_Some_conv split_beta)
    qed
  qed
  show "world_ok w'" if h: "and_user u (f4kvs_engine_open_ex E t p opts w) = Some (w', u')"
  proof -
    obtain r w1 where v: "validate_data_dir t p w = Some (r, w1)"
      using h by (auto simp: and_user_def f4kvs_engine_open_ex_def bind_eq_Some_conv)
    show ?thesis
    proof (cases r)
      case (Inl c)
      with v h bad [OF v] show ?thesis by (simp add: and_user_def f4kvs_engine_open_ex_def)
    next
      case (Inr path)
      with v h validate_data_dir_same [of t p w path w1] show ?thesis
        by (auto intro: opened engine_open_ok [OF assms] simp: and_user_def f4kvs_engine_open_ex_def bind_eq_Some_conv split_beta)
    qed
  qed
qed

lemma cursor_open_ok:
  assumes "fresh_allocator (allocator E)" "world_ok w" "f4kvs_engine_cursor_open E t p k n w = Some (cur, w')"
  shows "world_ok w'"
proof -
  have inv: "reg_inv w" using assms(2) by (simp add: world_ok_def)
  obtain r w1 where 1: "validate_engine t p w = Some (r, w1)"
    using assms(3) by (auto simp: f4kvs_engine_cursor_open_def bind_eq_Some_conv)
  have ok1: "world_ok w1" "quiet w w1"
    using keepsD [OF keeps_validate(1) [OF quiet_refl [OF inv]] 1] world_ok_quiet [OF assms(2)] by blast+
  show ?thesis
  proof (cases r)
    case (Inl c)
    with 1 assms(3) ok1 show ?thesis by (simp add: f4kvs_engine_cursor_open_def)
  next
    case (Inr e)
    then obtain rk w2 where 2: "key_from_raw t k n ''prefix'' w1 = Some (rk, w2)"
      using assms(3) 1 by (auto simp: f4kvs_engine_cursor_open_def bind_eq_Some_conv)
    have ok2: "world_ok w2" using keepsD [OF keeps_validate(3) [OF ok1(2)] 2] world_ok_quiet [OF assms(2)] by blast
    show ?thesis
    proof (cases rk)
      case (Inl c)
      with 1 2 Inr assms(3) ok2 show ?thesis by (simp add: f4kvs_engine_cursor_open_def)
    next
      case (Inr q)
      let ?b = "CursorBox \<lparr>cur_engine = e, cur_state = None, cur_prefix = q, cur_done = False\<rparr>"
      let ?w = "w2\<lparr>arcs := (arcs w2)(e := arcs w2 e + 1)\<rparr>"
      have "reg_inv ?w" using ok2 by (simp add: world_ok_def)
      with assms(1) obtain a where
        a: "alloc_block (allocator E) ?b ?w = (a, ?w\<lparr>heap := (heap ?w)(a \<mapsto> ?b), tick := Suc (tick ?w)\<rparr>)"
          "heap ?w a = None" "1 < a" by (rule alloc_blockE)
      from world_ok_add [OF ok2 _ a(3), of ?b e "Suc (tick w2)" "lsm w2"] a(2) have
        "world_ok (?w\<lparr>heap := (heap ?w)(a \<mapsto> ?b), tick := Suc (tick ?w)\<rparr>)" by simp
      with 1 2 \<open>r = Inr e\<close> Inr assms(3) a(1) show ?thesis by (simp add: f4kvs_engine_cursor_open_def)
    qed
  qed
qed

lemma drops_ok:
  assumes "world_ok w"
  shows "f4kvs_engine_free E p w = Some w' \<Longrightarrow> world_ok w'" "f4kvs_engine_cursor_free E p w = Some w' \<Longrightarrow> world_ok w'"
  using assms world_ok_del(1) [OF assms]
  by (auto simp: f4kvs_engine_free_def f4kvs_engine_cursor_free_def split: if_splits option.splits block.splits)

lemma c_memory_ok:
  assumes "fresh_allocator (allocator E)" "world_ok w"
  shows "world_ok (snd (c_malloc_copy (allocator E) s w))" "c_free p w = Some w' \<Longrightarrow> world_ok w'"
proof -
  have q: "quiet w w" using assms(2) by (simp add: world_ok_def quiet_refl)
  show "world_ok (snd (c_malloc_copy (allocator E) s w))"
    using quiet_alloc(3) [OF assms(1) q, of "CMem s"] world_ok_quiet [OF assms(2)] by (simp add: c_malloc_copy_def)
  show "c_free p w = Some w' \<Longrightarrow> world_ok w'"
    using assms(2) quiet_drop [OF q, of p] world_ok_quiet [OF assms(2)]
    by (auto simp: c_free_def split: if_splits option.splits block.splits)
qed

lemma c_exec_ok:
  assumes "fresh_allocator (allocator E)" "world_ok w" "new_names E w" "c_exec E L t call w u = Some (w', u')"
  shows "world_ok w'"
proof -
  have q: "quiet w w" using assms(2) by (simp add: world_ok_def quiet_refl)
  note unfolds = c_exec.simps f4kvs_engine_close_def f4kvs_engine_compact_def f4kvs_engine_flush_def f4kvs_engine_flush_wal_def
  note special = opens_ok [OF assms(1-3)] drops_ok [OF assms(2)] c_memory_ok [OF assms(1,2)] cursor_open_ok [OF assms(1,2)]
    world_ok_quiet [OF assms(2) quiet_callback [OF q]] world_ok_quiet [OF assms(2) quiet_frees(1) [OF q]]
    world_ok_quiet [OF assms(2) quiet_frees(2) [OF q]]
  note usual = ok_user [OF _ assms(2)]
  show ?thesis
    by (insert assms(4), (cases call; simp only: unfolds; (erule usual, rule quiet_steps, (rule assms(1))?, rule q)?;
        (erule opens_ok [OF assms(1-3)])?)) (auto simp: and_user_def split_beta intro: special)
qed

section \<open>Clients\<close>

definition blank :: "('x, 'c) world \<Rightarrow> bool" where
  "blank w \<longleftrightarrow> heap w = Map.empty \<and> str_allocs w = {} \<and> bytes_allocs w = Map.empty \<and> arcs w = (\<lambda>_. 0)"

inductive client :: "('x, 'c) env \<Rightarrow> ('x, 'c, 'u) scan_lib \<Rightarrow> ('x, 'c) world \<Rightarrow> 'u \<Rightarrow> bool"
  for E :: "('x, 'c) env" and L :: "('x, 'c, 'u) scan_lib" where
  start: "blank w \<Longrightarrow> client E L w u"
| step: "client E L w u \<Longrightarrow> new_names E w \<Longrightarrow> c_exec E L t call w u = Some (w', u') \<Longrightarrow> client E L w' u'"

lemma blank_ok: "blank w \<Longrightarrow> world_ok w"
  by (simp add: blank_def world_ok_def reg_inv_def refs_def ref_at_def)

lemma client_ok: "client E L w u \<Longrightarrow> fresh_allocator (allocator E) \<Longrightarrow> world_ok w"
  by (induction rule: client.induct) (auto intro: blank_ok c_exec_ok)

lemma free_drops:
  assumes "world_ok w"
  shows "heap w p = Some (EngineBox e) \<Longrightarrow> \<exists>w'. f4kvs_engine_free E p w = Some w' \<and> heap w' = (heap w)(p := None) \<and>
      lsm w' = (if refs w e = {p} then lsm_drop E e (lsm w) else lsm w)"
    "heap w p = Some (CursorBox c) \<Longrightarrow> \<exists>w'. f4kvs_engine_cursor_free E p w = Some w' \<and> heap w' = (heap w)(p := None) \<and>
      lsm w' = (if refs w (cur_engine c) = {p} then lsm_drop E (cur_engine c) (lsm w) else lsm w)"
proof -
  have p: "p \<noteq> null" if "heap w p \<noteq> None" using that assms reg_invD(2) [of w] by (cases "p = 0") (auto simp: world_ok_def)
  have h: "heap (drop_arc E e' (drop_block p w)) = (heap w)(p := None)" for e'
    by (simp add: drop_arc_def drop_block_def Let_def)
  show "\<exists>w'. f4kvs_engine_free E p w = Some w' \<and> heap w' = (heap w)(p := None) \<and>
      lsm w' = (if refs w e = {p} then lsm_drop E e (lsm w) else lsm w)" if b: "heap w p = Some (EngineBox e)"
    using world_ok_del(2) [OF assms b, of e E] p b h by (simp add: f4kvs_engine_free_def)
  show "\<exists>w'. f4kvs_engine_cursor_free E p w = Some w' \<and> heap w' = (heap w)(p := None) \<and>
      lsm w' = (if refs w (cur_engine c) = {p} then lsm_drop E (cur_engine c) (lsm w) else lsm w)"
    if b: "heap w p = Some (CursorBox c)"
    using world_ok_del(2) [OF assms b, of "cur_engine c" E] p b h by (simp add: f4kvs_engine_cursor_free_def)
qed

text \<open>
  C34. Whatever a client calls, with whatever arguments, as long as no call has undefined behaviour, the
  world stays well-formed: the registries match the heap, and the reference count of every engine is the
  number of its handles and cursors. So an engine is dropped by the free of its last handle or cursor and
  not before: freeing a handle while a cursor of the engine is open leaves the library as it is. \<open>refs w e\<close> is
  the set of the addresses of the handles and cursors of \<open>e\<close>.
\<close>

theorem client_keeps_world:
  assumes "client E L w u" "fresh_allocator (allocator E)"
  shows "reg_inv w \<and>
    (\<forall>e. arcs w e = card {a. heap w a = Some (EngineBox e) \<or> (\<exists>c. heap w a = Some (CursorBox c) \<and> cur_engine c = e)}) \<and>
    (\<forall>p e. heap w p = Some (EngineBox e) \<longrightarrow>
       (\<exists>w'. f4kvs_engine_free E p w = Some w' \<and> heap w' = (heap w)(p := None) \<and>
          lsm w' = (if refs w e = {p} then lsm_drop E e (lsm w) else lsm w))) \<and>
    (\<forall>p c. heap w p = Some (CursorBox c) \<longrightarrow>
       (\<exists>w'. f4kvs_engine_cursor_free E p w = Some w' \<and> heap w' = (heap w)(p := None) \<and>
          lsm w' = (if refs w (cur_engine c) = {p} then lsm_drop E (cur_engine c) (lsm w) else lsm w)))"
proof -
  have ok: "world_ok w" by (rule client_ok [OF assms])
  have r: "refs w e = {a. heap w a = Some (EngineBox e) \<or> (\<exists>c. heap w a = Some (CursorBox c) \<and> cur_engine c = e)}" for e
  proof -
    have "engine_of b = Some e \<longleftrightarrow> b = EngineBox e \<or> (\<exists>c. b = CursorBox c \<and> cur_engine c = e)" for b :: "'b block"
      by (cases b) auto
    then show ?thesis by (auto simp: refs_def ref_at_def bind_eq_Some_conv)
  qed
  have "reg_inv w" "arcs w e = card (refs w e)" for e using ok by (simp_all add: world_ok_def)
  with free_drops [OF ok] show ?thesis unfolding r by blast
qed

text \<open>A client that opens an engine and a cursor on it.\<close>

definition blank_world :: "(ref_lsm, kv_pair list) world" where
  "blank_world = \<lparr>heap = Map.empty, tick = 0, str_allocs = {}, bytes_allocs = Map.empty, last_error = (\<lambda>_. None),
     engine_counter = 0, arcs = (\<lambda>_. 0), lsm = ref_init 5\<rparr>"

definition opened_world :: "(ref_lsm, kv_pair list) world" where
  "opened_world = snd (f4kvs_engine_new ref_env 0 blank_world)"

definition open_cursor :: "kv_pair list F4KvsCursor" where
  "open_cursor = \<lparr>cur_engine = 1, cur_state = None, cur_prefix = [], cur_done = False\<rparr>"

lemma opened_world_facts:
  "heap opened_world = [2 \<mapsto> EngineBox 1]" "tick opened_world = 1" "arcs opened_world = (\<lambda>_. 0)(1 := 1)"
  "ref_next (lsm opened_world) = 2"
  by (simp_all add: opened_world_def f4kvs_engine_new_def unique_data_dir_def open_lsm_engine_def lsm_call_def box_engine_def
      alloc_block_def blank_world_def ref_init_def ref_env_def ref_allocator_def fun_eq_iff)

definition cursor_world :: "(ref_lsm, kv_pair list) world" where
  "cursor_world = opened_world\<lparr>arcs := (\<lambda>_. 0)(1 := 2), heap := [2 \<mapsto> EngineBox 1, 3 \<mapsto> CursorBox open_cursor], tick := 2\<rparr>"

lemma opened_cursor: "f4kvs_engine_cursor_open ref_env 0 2 null 0 opened_world = Some (3, cursor_world)"
proof -
  have "allocator (ref_env :: (ref_lsm, kv_pair list) env) = ref_allocator" by (simp add: ref_env_def)
  then show ?thesis
    by (simp add: cursor_world_def f4kvs_engine_cursor_open_def Let_def validate_engine_def key_from_raw_def opened_world_facts alloc_block_def
        ref_allocator_def open_cursor_def numeral_2_eq_2 numeral_3_eq_3)
qed

theorem client_keeps_world_witness:
  "\<exists>w w'. client ref_env ref_scan w () \<and> heap w 2 = Some (EngineBox 1) \<and> heap w 3 = Some (CursorBox open_cursor) \<and>
     f4kvs_engine_free ref_env 2 w = Some w' \<and> lsm w' = lsm w \<and> heap w' 3 = heap w 3"
proof -
  have names: "new_names ref_env blank_world" "new_names ref_env opened_world"
    by (simp_all add: new_names_def ref_env_def opened_world_facts) (simp add: blank_world_def)
  have "client ref_env ref_scan blank_world ()" by (rule client.start) (simp add: blank_def blank_world_def)
  then have "client ref_env ref_scan opened_world ()"
    by (rule client.step [where call = Engine_new and t = 0]) (simp_all add: names and_user_def opened_world_def split_beta)
  then have c: "client ref_env ref_scan cursor_world ()"
    by (rule client.step [where call = "Engine_cursor_open 2 null 0" and t = 0]) (simp_all add: names and_user_def opened_cursor)
  have "fresh_allocator (allocator ref_env)" by (simp add: ref_env_def ref_allocator_fresh)
  note ok = client_keeps_world [OF c this]
  have h: "heap cursor_world 2 = Some (EngineBox 1)" "heap cursor_world 3 = Some (CursorBox open_cursor)" by (simp_all add: cursor_world_def)
  have "3 \<in> refs cursor_world 1" by (simp add: h(2) refs_def ref_at_def open_cursor_def)
  then have "refs cursor_world 1 \<noteq> {2}" by auto
  then obtain w' where "f4kvs_engine_free ref_env 2 cursor_world = Some w'" "heap w' = (heap cursor_world)(2 := None)"
    "lsm w' = lsm cursor_world"
    using ok [THEN conjunct2, THEN conjunct2, THEN conjunct1, THEN spec, THEN spec, THEN mp, OF h(1)] by auto
  then have "f4kvs_engine_free ref_env 2 cursor_world = Some w' \<and> lsm w' = lsm cursor_world \<and> heap w' 3 = heap cursor_world 3"
    by simp
  with c h show ?thesis by blast
qed

end
