(* ===== verification/Spec2Isabelle.thy ===== *)
theory Spec2Isabelle
  imports Go_Store Go_Lock Free_Race Go_Nocgo Harness_Properties C_Client
begin

text \<open>
  A verification of f4kvs-ffi: the C interface of the f4kvs key-value engine, the Go binding on top of
  it and the Go benchmark harness that drives both.

  \<^bold>\<open>The program.\<close> \<^verbatim>\<open>crates/f4kvs-ffi/src/lib.rs\<close> exports C functions around the engine library
  \<^verbatim>\<open>f4kvs-lsm\<close>, which is not part of the repository: handles, key-value calls, scans whose results the
  caller frees, versioned open options and a per-thread error message. \<^verbatim>\<open>go/f4kvs.go\<close> wraps a handle in an
  object with a read-write mutex; every method marshals its arguments into C memory, calls C,
  converts the answer and cleans up in deferred calls. \<^verbatim>\<open>go/transaction.go\<close> stages writes over such an
  object. \<^verbatim>\<open>bench/embed_vs_sqlite\<close> loads data through the binding and reports measurements.

  \<^bold>\<open>The theories\<close>, in the order of the calls from the bottom up:
  \<^item> \<^verbatim>\<open>Prelude\<close>, \<^verbatim>\<open>Utf8\<close>, \<^verbatim>\<open>Go_Strings\<close>: byte strings, decimal rendering, UTF-8 validation and lossy conversion,
    and what the harness uses of Go's string functions.
  \<^item> \<^verbatim>\<open>Values\<close>: the value type of the engine and the conversions \<^verbatim>\<open>value_to_bytes\<close> and \<^verbatim>\<open>value_to_string\<close>.
  \<^item> \<^verbatim>\<open>Memory\<close>: the state \<open>world\<close> (C heap, the registries of handed-out strings and buffers, the error slot
    of each thread, reference counts, the state of the library), allocation, \<^verbatim>\<open>f4kvs_string_free\<close> and
    \<^verbatim>\<open>f4kvs_bytes_free\<close>. \<open>reg_inv\<close> ties the registries to the heap. The locale \<open>pointer_registry\<close> is the
    contract both registries satisfy.
  \<^item> \<^verbatim>\<open>Open_Options\<close>: the option structs as bytes with their padding, \<^verbatim>\<open>read_open_options\<close>,
    \<^verbatim>\<open>apply_open_options\<close>.
  \<^item> \<^verbatim>\<open>Lsm\<close>: the library and the allocator as the parameter \<open>env\<close>, the laws \<open>lsm_laws\<close> that the documentation of
    the interface gives for them, and a reference library \<open>ref_env\<close> that satisfies the laws.
  \<^item> \<^verbatim>\<open>Ffi_Engine\<close>, \<^verbatim>\<open>Ffi_Scan\<close>: the C functions, one definition each, with every validation, early return and
    message. \<^verbatim>\<open>Ffi_Contract\<close>, \<^verbatim>\<open>Scan_Contract\<close>: what they promise, as functions \<open>api_put\<close>, \<open>api_get\<close> and so on
    of the library state alone, and the refinement of these by the C functions.
  \<^item> \<^verbatim>\<open>Ffi_Kv\<close>, \<^verbatim>\<open>Ffi_Cursor\<close>: the length-prefixed functions, the cursors and the scan with a callback.
    \<^verbatim>\<open>Ownership\<close>: \<open>handed\<close> says which strings and buffers a call leaves with its caller, and the free functions
    undo it. \<^verbatim>\<open>Kv_Contract\<close>, \<^verbatim>\<open>Cursor_Contract\<close>: specifications and refinement; \<open>scan_laws\<close> is what the cursors
    rely on in the library. \<^verbatim>\<open>Cursor_Properties\<close>: whole scans. \<^verbatim>\<open>C_Client\<close>: any sequence of calls, as the
    inductive predicate \<open>client\<close> over values of the type \<open>c_call\<close>; \<open>keeps\<close> composes what single calls leave
    unchanged.
  \<^item> \<^verbatim>\<open>Go_Engine\<close>: the Go object, one definition per method. \<^verbatim>\<open>Go_Contract\<close>, \<^verbatim>\<open>Go_Batch\<close>: each method refines the
    same specifications and gives back all memory; closing. \<^verbatim>\<open>Go_Open\<close>: opening. \<^verbatim>\<open>Go_Store\<close>: the object as
    a store, with concrete instances on the reference library.
  \<^item> \<^verbatim>\<open>Txn\<close>: transactions over the methods they call; the locale \<open>kv_engine\<close> is what they rely on, and
    \<^verbatim>\<open>Go_Txn\<close> interprets it on the Go object. \<^verbatim>\<open>Bench_Batch\<close> proves the bulk loader inside the same locale.
  \<^item> \<^verbatim>\<open>Go_Lock\<close>: goroutines interleaved at the lock operations. \<^verbatim>\<open>Free_Race\<close>: concurrent calls of the two free
    functions.
  \<^item> \<^verbatim>\<open>Go_Nocgo\<close>: the stub for builds without cgo.
  \<^item> \<^verbatim>\<open>Bench_Profiles\<close>, \<^verbatim>\<open>Bench_Batch\<close>, \<^verbatim>\<open>Bench_Payload\<close>, \<^verbatim>\<open>Bench_Report\<close>: profile selection, sliced loads,
    payloads, and the rows, verdicts and comparisons of a report.
  \<^item> \<^verbatim>\<open>Json\<close>, \<^verbatim>\<open>Go_Os\<close>: what the harness uses of \<^verbatim>\<open>encoding/json\<close>, \<^verbatim>\<open>os\<close> and \<^verbatim>\<open>bufio\<close>. A call of \<^verbatim>\<open>os\<close> may fail, and
    a failed one may leave a part of its effect; the state records every tree it passes through.
    \<^verbatim>\<open>Run_Writer\<close>: \<^verbatim>\<open>de_out.go\<close> from \<^verbatim>\<open>NewRunWriter\<close> to \<^verbatim>\<open>Finalize\<close>. \<^verbatim>\<open>Bench_Host\<close>: git, processor, repository root.
  \<^item> \<^verbatim>\<open>Bench_Drivers\<close>: \<^verbatim>\<open>benchF4KVS\<close> and its side measurements as runs that end in a value, in \<^verbatim>\<open>fatal\<close> or in a
    panic. \<^verbatim>\<open>Driver_Contract\<close>: the locale \<open>frame\<close> composes what runs leave unchanged; it is interpreted on the
    engine, on the connection pool of SQLite and on the whole program. \<^verbatim>\<open>Bench_Restart\<close>: the restart check.
    \<^verbatim>\<open>Bench_Sqlite\<close>: the SQLite peer and the fsync probe. \<^verbatim>\<open>Bench_Table\<close>: the printed table.
  \<^item> \<^verbatim>\<open>Bench_Main\<close>: the program from its flags to its exit status. \<^verbatim>\<open>Read_Tax\<close>: the read-tax program and the batch
    probe. \<^verbatim>\<open>Bench_Reference\<close>: concrete environments for the witnesses, among them a library that loses keys.
    \<^verbatim>\<open>Harness_Properties\<close>: the properties of the harness as a whole.

  \<^bold>\<open>Conventions.\<close> The option value \<^const>\<open>None\<close> of an operation is an undefined memory access, a fatal
  runtime error or a blocked lock; that an operation returns \<^const>\<open>Some\<close> is part of what is proved.
  Errors of the program are values (\<open>F4KvsResult\<close>, \<open>go_error\<close>). A Go map argument is the list of its
  entries in the order \<^verbatim>\<open>range\<close> visits them, so a property holds for every order. A method has the OS
  thread of its C call and the thread of its \<^verbatim>\<open>lastError\<close> call as parameters, since cgo does not keep
  them equal. The allocator is any function that returns fresh addresses; addresses may be reused
  after a free. Loops are structural or have a termination proof, and no fuel is used; the loop of the callback
  scan, which ends only if the library does, is a partial function, and that it returns is part of C30.

  \<^bold>\<open>What the properties show.\<close> C1 and C2: round trips of put, get and delete. C3 to C10: refinement and memory
  neutrality of the methods, scans, closing, batch limits. C11: the round trip of the length-prefixed
  functions, for keys with NUL bytes too. C12 to C15: transactions are overlays, can be retried, and end
  once. C16 to C19: no use after free, one free per handle, one release per buffer, and the race of the
  string free; a transaction and the object under concurrency are step relations whose steps are the calls of
  the modelled functions. C20 to C22: safety of the free functions, the thread of the error message, keys with NUL
  bytes. C23 to C26: options from Go to the configuration of the library, a failed open whose reason is lost on
  every thread, and the two struct layouts. C27
  and C28: sliced loads are complete and fit the limit of the engine. C29: what every \<^verbatim>\<open>-profiles\<close> flag selects. C30: the callback scan
  ends and visits every pair. C31: the pages of a cursor are the prefix, each pair once. C32: a page the
  C-string variant cannot hand out is lost. C33: the printed table. C34: in every
  sequence of C calls the registries match the heap and the reference counts the handles and cursors. C35: a
  run directory is published as a whole. C36 and C40: the program ends, when it panics, and what its exit status
  means. C37: the restart check passes only if no key is lost, and fails only if a key is lost or a scan
  fails. C38: a driver measures all its phases. C39: the two write modes of the SQLite peer agree when they
  succeed, and when a failed transaction blocks the pool.

  \<^bold>\<open>Not modelled.\<close> The engine library and the SQLite driver (parameters with laws, which say what a call that
  succeeds has done; any call may fail); a call of the library, the driver or the operating system that never
  returns (a comment in \<^verbatim>\<open>main.go\<close> reports that \<^verbatim>\<open>FlushWAL\<close> under group commit was seen to hang), and running out of
  memory below the limit that Go's \<^verbatim>\<open>make\<close> checks, which is a parameter on a platform with 64 bits; the parsing of flags, the
  progress lines on standard error, and the rounding of \<^verbatim>\<open>float64\<close>. A callback does not call the interface
  again, and no write comes between two pages of a cursor in C31 and C32.
\<close>

section \<open>The Go engine object as a store\<close>

text \<open>
  C1. What was put is what is read: after a successful \<^verbatim>\<open>PutBytes\<close> with a key free of NUL bytes,
  \<^verbatim>\<open>GetBytes\<close> of the key returns, never reports the key as missing, and any value it reports is the value
  that was put, for every library that satisfies the documented laws and on any OS threads.
\<close>

theorem put_get_roundtrip:
  assumes "go_ok E kv e g" "c_key k" "PutBytes E tc te k v g = Some (None, g1)"
  shows "\<exists>r g2. GetBytes E tc' te' k g1 = Some (r, g2) \<and> (\<forall>v'. r = Inr v' \<longrightarrow> v' = v) \<and>
     r \<noteq> Inl ErrNotFound \<and> go_contents kv e g2 = (go_contents kv e g)(k \<mapsto> v)"
proof -
  from go_put_total [OF assms(1), of tc te k v] assms(2,3) have
    1: "go_ok E kv e g1" "go_contents kv e g1 = (go_contents kv e g)(k \<mapsto> v)" "length v \<le> MAX_VALUE_LENGTH"
    by auto
  have "length v < 2 ^ 31" using 1(3) by (simp add: MAX_VALUE_LENGTH_def)
  with go_get_total [OF 1(1) assms(2), of tc' te'] 1(2) show ?thesis by fastforce
qed

theorem put_get_roundtrip_witness:
  "\<exists>g1 r g2. PutBytes ref_env 0 1 ''k'' ''v'' (demo_state 5) = Some (None, g1) \<and>
     GetBytes ref_env 2 3 ''k'' g1 = Some (r, g2) \<and> (\<forall>v'. r = Inr v' \<longrightarrow> v' = ''v'') \<and>
     r \<noteq> Inl ErrNotFound"
proof -
  obtain g1 where 1: "PutBytes ref_env 0 1 ''k'' ''v'' (demo_state 5) = Some (None, g1)"
    using demo_put [OF demo_live] by blast
  from put_get_roundtrip [OF demo_ok demo_key(4) 1, of 2 3] 1 show ?thesis by blast
qed

text \<open>
  C2. What was deleted is gone: after a successful \<^verbatim>\<open>Delete\<close> no read of the key returns a value, the other
  keys keep theirs, and deleting a key that is not there is a success too.
\<close>

theorem delete_get_roundtrip:
  assumes "go_ok E kv e g" "c_key k" "Delete E tc te k g = Some (None, g1)"
  shows "\<exists>r g2. GetBytes E tc' te' k g1 = Some (r, g2) \<and> (\<forall>v. r \<noteq> Inr v) \<and>
     go_contents kv e g2 = (go_contents kv e g)(k := None)"
proof -
  from go_delete_total [OF assms(1), of tc te k] assms(2,3) have
    1: "go_ok E kv e g1" "go_contents kv e g1 = (go_contents kv e g)(k := None)" by auto
  with go_get_total [OF 1(1) assms(2), of tc' te'] show ?thesis by fastforce
qed

theorem delete_get_roundtrip_witness:
  "\<exists>g1 r g2. Delete ref_env 0 1 ''k'' (demo_state 5) = Some (None, g1) \<and>
     GetBytes ref_env 2 3 ''k'' g1 = Some (r, g2) \<and> (\<forall>v. r \<noteq> Inr v)"
proof -
  obtain g1 where 1: "Delete ref_env 0 1 ''k'' (demo_state 5) = Some (None, g1)"
    using demo_delete [OF demo_live] by blast
  from delete_get_roundtrip [OF demo_ok demo_key(4) 1, of 2 3] 1 show ?thesis by blast
qed

text \<open>
  C3. \<^verbatim>\<open>PutBytes\<close> on a live engine refines the specification \<open>api_put\<close> for the key as C sees it: it
  returns without an undefined memory access, its error is the one of the specification, and the
  world afterwards is the world before with the answer published, that is with the C heap, both
  registries and the lock restored.
\<close>

theorem put_bytes_refinement:
  assumes "live g e" "fresh_allocator (allocator E)"
  shows "\<exists>n. PutBytes E tc te key v g =
     (let rx = api_put E e (c_cut key) v (lsm (g_world g)); g' = after tc rx n g in
      Some (go_err ''f4kvs put %q: %s'' [key] te (g_world g') (fst rx), g'))"
  using assms by (rule PutBytes_refines)

theorem put_bytes_refinement_witness:
  "\<exists>g'. PutBytes ref_env 0 0 ''k'' ''v'' (demo_state 5) = Some (None, g') \<and>
     heap (g_world g') = heap (ref_world 5) \<and> g_engine g' = new_F4KVS 2"
  using put_bytes_refinement [OF demo_live [of 5] ref_env_allocator, of 0 0 "''k''" "''v''"] demo_key
  by (auto simp: ref_api go_err_None Let_def after_def demo_state_def)

text \<open>
  C4. \<^verbatim>\<open>GetBytes\<close> on a live engine refines \<open>api_get\<close>: it returns the value, \<^verbatim>\<open>ErrNotFound\<close> or the error
  of the library, frees the buffer it was handed, and restores the heap, the lock and the registries,
  apart from the shared registration of empty buffers. The length of the value must fit a C \<^verbatim>\<open>int\<close>.
\<close>

theorem get_bytes_refinement:
  assumes "live g e" "fresh_allocator (allocator E)"
    and "\<And>v. fst (api_get E e (c_cut key) (lsm (g_world g))) = Inr (Some v) \<Longrightarrow>
           length (value_to_bytes v) < 2 ^ 31"
  shows "\<exists>n. GetBytes E tc te key g =
     (let rx = api_get E e (c_cut key) (lsm (g_world g)); g' = after_get tc rx n g in
      Some (get_answer key te (g_world g') (fst rx), g'))"
  using assms by (rule GetBytes_refines)

theorem get_bytes_refinement_witness:
  "\<exists>g'. GetBytes ref_env 0 0 ''k'' (demo_state 5) = Some (Inl ErrNotFound, g') \<and>
     heap (g_world g') = heap (ref_world 5)"
  using get_bytes_refinement [OF demo_live [of 5] ref_env_allocator, where key = "''k''" and tc = 0 and te = 0]
    demo_key
  by (auto simp: ref_api Let_def after_get_def get_answer_def ref_store_def ref_init_def demo_state_def ref_world_def)

section \<open>Batches, scans and closing\<close>

text \<open>
  C5. \<^verbatim>\<open>BatchPutBytes\<close> of a non-empty batch refines \<open>api_batch_put\<close>: every key and value is marshalled
  into C memory, checked in order and written in one call of the library, and every block is freed
  again, in whatever order the Go map is visited.
\<close>

theorem batch_put_refinement:
  assumes "live g e" "fresh_allocator (allocator E)" "items \<noteq> []"
  shows "\<exists>n. BatchPutBytes E tc te items g =
     (let rx = api_batch_put E e (cut_items items) (lsm (g_world g)); g' = after tc rx n g in
      Some (go_err ''f4kvs batch put: %s'' [] te (g_world g') (fst rx), g'))"
  using assms by (rule BatchPutBytes_refines)

theorem batch_put_refinement_witness:
  "\<exists>g'. BatchPutBytes ref_env 0 0 [(''a'', ''1''), (''b'', [])] (demo_state 5) = Some (None, g') \<and>
     heap (g_world g') = heap (ref_world 5) \<and>
     ref_store (lsm (g_world g')) 0 = [(''b'', VBytes []), (''a'', VBytes ''1'')]"
  using batch_put_refinement [OF demo_live [of 5] ref_env_allocator, of "[(''a'', ''1''), (''b'', [])]" 0 0]
  by (auto simp: api_batch_put_def check_count_def check_text_ok valid_utf8_ascii MAX_KEY_LENGTH_def
      MAX_VALUE_LENGTH_def c_cut_def storage_def ref_env_def ref_init_def ref_store_def ref_write_def
      go_err_None Let_def after_def demo_state_def ref_world_def)

text \<open>
  C6. \<^verbatim>\<open>BatchDelete\<close> of a non-empty key list refines \<open>api_batch_delete\<close> and frees every key it marshalled.
\<close>

theorem batch_delete_refinement:
  assumes "live g e" "fresh_allocator (allocator E)" "ks \<noteq> []"
  shows "\<exists>n. BatchDelete E tc te ks g =
     (let rx = api_batch_delete E e (map c_cut ks) (lsm (g_world g)); g' = after tc rx n g in
      Some (go_err ''f4kvs batch delete: %s'' [] te (g_world g') (fst rx), g'))"
  using assms by (rule BatchDelete_refines)

theorem batch_delete_refinement_witness:
  "\<exists>g'. BatchDelete ref_env 0 0 [''a'', ''b''] (demo_state 5) = Some (None, g') \<and>
     heap (g_world g') = heap (ref_world 5)"
  using batch_delete_refinement [OF demo_live [of 5] ref_env_allocator, of "[''a'', ''b'']" 0 0]
  by (auto simp: api_batch_delete_def check_count_def check_text_ok valid_utf8_ascii MAX_KEY_LENGTH_def
      c_cut_def storage_def ref_env_def ref_init_def go_err_None Let_def after_def demo_state_def ref_world_def)

text \<open>
  C7. A batch longer than the engine's \<^verbatim>\<open>max_batch_size\<close> is refused as a whole: \<^verbatim>\<open>BatchPutBytes\<close> returns an
  error, the library is not called, no memory stays allocated, and the error slot of the calling
  thread names the count and the limit. It is the C layer that refuses, with an invalid-argument message;
  \<^verbatim>\<open>LIMITATIONS.md\<close> speaks of a generic storage error, and \<^verbatim>\<open>f4kvs.h\<close> of a cap enforced by the engine.
\<close>

theorem batch_over_limit_refused:
  assumes "live g e" "fresh_allocator (allocator E)"
    and "lsm_max_batch_size E e (lsm (g_world g)) < length items"
  shows "\<exists>err g'. BatchPutBytes E tc te items g = Some (Some err, g') \<and>
     lsm (g_world g') = lsm (g_world g) \<and> heap (g_world g') = heap (g_world g) \<and>
     last_error (g_world g') tc =
       Some (''Invalid argument: batch count '' @ show_nat (length items) @ '' exceeds max_batch_size '' @
             show_nat (lsm_max_batch_size E e (lsm (g_world g))))"
  using BatchPutBytes_over_limit [OF assms, of tc te] by blast

theorem batch_over_limit_refused_witness:
  "\<exists>err g'. BatchPutBytes ref_env 0 1 [(''a'', ''1''), (''b'', ''2'')] (demo_state 1) = Some (Some err, g') \<and>
     lsm (g_world g') = ref_init 1 \<and> heap (g_world g') = heap (ref_world 1)"
  using batch_over_limit_refused [OF demo_live [of 1] ref_env_allocator, of "[(''a'', ''1''), (''b'', ''2'')]" 0 1]
  by (auto simp: ref_env_def ref_init_def demo_state_def ref_world_def)

text \<open>
  C8. \<^verbatim>\<open>ScanPrefixKeys\<close> returns; a slice that is not nil lists every key of the engine with the prefix
  exactly once, the strings and the array C handed out are freed, and the contents do not change.
  All keys of a slice are free of NUL bytes, so one key with a NUL byte under the prefix (which the
  length-prefixed C functions can store) forces the answer nil.
\<close>

theorem scan_prefix_keys_correct:
  assumes "go_ok E kv e g" "c_key pfx" "card (dom (go_contents kv e g)) \<le> 2 ^ 30"
    and "finite (dom (go_contents kv e g))"
  shows "\<exists>r g'. ScanPrefixKeys E tc pfx g = Some (r, g') \<and> go_ok E kv e g' \<and>
     go_contents kv e g' = go_contents kv e g \<and> heap (g_world g') = heap (g_world g) \<and>
     str_allocs (g_world g') = str_allocs (g_world g) \<and>
     (\<forall>ks. r = Some ks \<longrightarrow>
        distinct ks \<and> set ks = {k \<in> dom (go_contents kv e g). prefix pfx k} \<and> (\<forall>k\<in>set ks. c_key k))"
proof -
  let ?rx = "api_scan E e pfx (lsm (g_world g))"
  from assms(1) have l: "live g e" "fresh_allocator (allocator E)" "lsm_laws E kv"
    by (simp_all add: go_ok_def)
  note law = api_scan_law [OF l(3), where p = pfx and e = e and x = "lsm (g_world g)"]
  have "length ks \<le> 2 ^ 30" if "fst (api_scan E e (c_cut pfx) (lsm (g_world g))) = Inr ks" for ks
  proof -
    have ks: "distinct ks" "set ks \<subseteq> dom (go_contents kv e g)"
      using law(2) [of ks] that assms(2) by (auto simp: go_contents_dom)
    then have "length ks = card (set ks)" by (simp add: distinct_card)
    also have "\<dots> \<le> card (dom (go_contents kv e g))" using ks(2) assms(4) by (rule card_mono [rotated])
    finally show ?thesis using assms(3) by simp
  qed
  from ScanPrefixKeys_refines [where tc = tc and pfx = pfx, OF l(1,2) this] obtain n where
    s: "ScanPrefixKeys E tc pfx g =
       Some (case fst ?rx of Inr ks \<Rightarrow> Some ks | Inl _ \<Rightarrow> None, after tc ?rx n g)"
    using assms(2) by (auto simp: Let_def)
  have "go_contents kv e (after tc ?rx n g) = go_contents kv e g"
    using law(1) by (simp add: go_contents_def fun_eq_iff)
  with s l law(2) show ?thesis
    by (auto simp: go_ok_def go_contents_dom split: sum.splits)
qed

theorem scan_prefix_keys_correct_witness:
  "\<exists>r g'. ScanPrefixKeys ref_env 0 ''k'' (demo_state 5) = Some (r, g') \<and>
     heap (g_world g') = heap (g_world (demo_state 5)) \<and> (\<forall>ks. r = Some ks \<longrightarrow> ks = [])"
  using scan_prefix_keys_correct [OF demo_ok [of 5] demo_key(4), of 0] by (auto simp: demo_contents)

text \<open>
  C9. \<^verbatim>\<open>Close\<close> of a live engine that no call is using returns, shuts the library engine down and frees the
  handle; afterwards every method reports \<^verbatim>\<open>ErrClosed\<close> (a scan: nil) and changes nothing, and a second
  \<^verbatim>\<open>Close\<close> does nothing.
\<close>

theorem close_makes_closed:
  assumes "live g e" "mu_readers (g_engine g) = 0"
  shows "\<exists>g'. Close E tc g = Some g' \<and> heap (g_world g') = (heap (g_world g))(handle (g_engine g) := None) \<and>
     Close E tc g' = Some g' \<and>
     GetBytes E tc te k g' = Some (Inl ErrClosed, g') \<and>
     PutBytes E tc te k v g' = Some (Some ErrClosed, g') \<and>
     Delete E tc te k g' = Some (Some ErrClosed, g') \<and>
     BatchPutBytes E tc te ((k, v) # items) g' = Some (Some ErrClosed, g') \<and>
     BatchDelete E tc te (k # ks) g' = Some (Some ErrClosed, g') \<and>
     Flush E tc te g' = Some (Some ErrClosed, g') \<and> FlushWAL E tc te g' = Some (Some ErrClosed, g') \<and>
     Sync E tc te g' = Some (Some ErrClosed, g') \<and> SetBulkImport E tc te on g' = Some (Some ErrClosed, g') \<and>
     ScanPrefixKeys E tc k g' = Some (None, g')"
proof -
  from Close_live [OF assms, of E tc] obtain g' where
    c: "Close E tc g = Some g'" "is_closed g'" "mu_readers (g_engine g') = 0"
      "heap (g_world g') = (heap (g_world g))(handle (g_engine g) := None)" by blast
  then show ?thesis
    by (simp add: closed_methods Close_closed Flush_def FlushWAL_def Sync_def SetBulkImport_def)
qed

theorem close_makes_closed_witness:
  "\<exists>g'. Close ref_env 0 (demo_state 5) = Some g' \<and> heap (g_world g') 2 = None \<and>
     GetBytes ref_env 0 0 ''k'' g' = Some (Inl ErrClosed, g')"
  using close_makes_closed [OF demo_live [of 5], of ref_env 0 0 "''k''" "''v''" "[]" "[]" True]
  by (auto simp: demo_state_def new_F4KVS_def ref_world_def)

text \<open>
  C10. \<^verbatim>\<open>BatchGetBytes\<close> returns: a map it reports holds exactly the stored values of the keys, all of which
  are there; it reports \<^verbatim>\<open>ErrNotFound\<close> only when a key is missing, and never a partial map.
\<close>

theorem batch_get_bytes_correct:
  assumes "go_ok E kv e g" "\<forall>k\<in>set ks. c_key k" "small_values (go_contents kv e g)"
  shows "\<exists>r g'. BatchGetBytes E tc te ks g = Some (r, g') \<and> go_contents kv e g' = go_contents kv e g \<and>
     (\<forall>m. r = Inr m \<longrightarrow> set ks \<subseteq> dom (go_contents kv e g) \<and> m = go_contents kv e g |` set ks) \<and>
     (r = Inl ErrNotFound \<longrightarrow> \<not> set ks \<subseteq> dom (go_contents kv e g))"
  unfolding BatchGetBytes_def using batch_get_total [OF assms, of tc te Map.empty] by auto

theorem batch_get_bytes_correct_witness:
  "\<exists>r g'. BatchGetBytes ref_env 0 0 [''k''] (demo_state 5) = Some (r, g') \<and> (\<forall>m. r \<noteq> Inr m)"
proof -
  have "\<forall>k\<in>set [''k'']. c_key k" using demo_key(4) by simp
  from batch_get_bytes_correct [OF demo_ok [of 5] this demo_small, of 0 0] show ?thesis
    by (fastforce simp: demo_contents)
qed

section \<open>Transactions\<close>

text \<open>
  C12. \<^verbatim>\<open>Commit\<close> of an active transaction on a live engine returns. When it reports success the contents of
  the engine are the staged operations laid over the old contents, whatever the order in which Go
  visits its maps, and the transaction is finished. When it fails, keys the transaction did not stage
  are untouched and the transaction is still active with all its operations.
\<close>

theorem commit_applies_overlay:
  assumes "active t" "go_ok E kv e g" "\<forall>k\<in>dom (go_map (ops t)). c_key k"
    and "range_order ord (go_map (ops t))" "range_order pord (put_values (go_map (ops t)))"
  shows "\<exists>r t' g'. txn_Commit (BatchPutBytes E tc te) (BatchDelete E tc te) ord pord t g = Some ((r, t'), g') \<and>
     go_ok E kv e g' \<and>
     (\<forall>k. k \<notin> dom (go_map (ops t)) \<longrightarrow> go_contents kv e g' k = go_contents kv e g k) \<and>
     (if r = None
      then go_contents kv e g' = overlay (go_map (ops t)) (go_contents kv e g) \<and>
           t' = t\<lparr>committed := True, ops := None\<rparr>
      else t' = t)"
  using assms by (rule go.commit_total)

theorem commit_applies_overlay_witness:
  "let t = snd (txn_Delete ''d'' (snd (txn_PutBytes ''k'' ''v'' BeginTransaction))) in
   \<exists>r t' g'. txn_Commit (BatchPutBytes ref_env 0 0) (BatchDelete ref_env 0 0) [''d'', ''k''] [''k''] t
       (demo_state 5) = Some ((r, t'), g') \<and>
     (if r = None then go_contents ref_kv 0 g' = [''k'' \<mapsto> ''v''] else t' = t)"
proof -
  let ?t = "snd (txn_Delete ''d'' (snd (txn_PutBytes ''k'' ''v'' BeginTransaction)))"
  have t: "?t = \<lparr>ops = Some [''k'' \<mapsto> \<lparr>op_kind = opPut, op_value = ''v''\<rparr>,
      ''d'' \<mapsto> \<lparr>op_kind = opDelete, op_value = []\<rparr>], committed = False, rolledBack = False\<rparr>"
    by (simp add: txn_Delete_def txn_PutBytes_def checkActive_def BeginTransaction_def stage_def go_map_def)
  have a: "active ?t" "\<forall>k\<in>dom (go_map (ops ?t)). c_key k" "range_order [''d'', ''k''] (go_map (ops ?t))"
    "range_order [''k''] (put_values (go_map (ops ?t)))"
    by (auto simp: t active_def go_map_def c_key_def range_order_def put_values_def split: if_splits)
  have o: "overlay (go_map (ops ?t)) Map.empty = [''k'' \<mapsto> ''v'']"
    by (auto simp: t overlay_def go_map_def fun_eq_iff)
  from commit_applies_overlay [OF a(1) demo_ok [of 5] a(2-4), of 0 0] show ?thesis
    unfolding Let_def demo_contents o by (elim exE conjE) (intro exI conjI, assumption, simp split: if_splits)
qed

text \<open>
  C13. A transaction reads its own writes: \<^verbatim>\<open>GetBytes\<close> of an active transaction answers from the staged
  operations laid over the contents of the engine, changes nothing, and cannot fail on a staged key.
\<close>

theorem txn_reads_own_writes:
  assumes "active t" "go_ok E kv e g" "c_key k" "small_values (go_contents kv e g)"
  shows "\<exists>r g'. txn_GetBytes (GetBytes E tc te) k t g = Some (r, g') \<and> go_contents kv e g' = go_contents kv e g \<and>
     (\<forall>v. r = Inr v \<longrightarrow> overlay (go_map (ops t)) (go_contents kv e g) k = Some v) \<and>
     (r = Inl ErrNotFound \<longrightarrow> overlay (go_map (ops t)) (go_contents kv e g) k = None) \<and>
     (k \<in> dom (go_map (ops t)) \<longrightarrow> (\<exists>v. r = Inr v) \<or> r = Inl ErrNotFound)"
proof -
  have "length v < 2 ^ 31" if "go_contents kv e g k = Some v" for v
    using small_valuesD [OF assms(4) that] .
  from go.txn_get_overlay [OF assms(1-3) this, of tc te] show ?thesis by blast
qed

theorem txn_reads_own_writes_witness:
  "\<exists>r g'. txn_GetBytes (GetBytes ref_env 0 0) ''k'' (snd (txn_PutBytes ''k'' ''v'' BeginTransaction))
       (demo_state 5) = Some (r, g') \<and> r = Inr ''v''"
proof -
  let ?t = "snd (txn_PutBytes ''k'' ''v'' BeginTransaction)"
  have t: "?t = \<lparr>ops = Some [''k'' \<mapsto> \<lparr>op_kind = opPut, op_value = ''v''\<rparr>], committed = False, rolledBack = False\<rparr>"
    by (simp add: txn_PutBytes_def checkActive_def BeginTransaction_def stage_def go_map_def)
  then have "active ?t" by (simp add: active_def)
  from txn_reads_own_writes [OF this demo_ok [of 5] demo_key(4) demo_small, of 0 0] show ?thesis
    by (auto simp: t overlay_def go_map_def)
qed

text \<open>
  C14. \<^verbatim>\<open>Commit\<close> is not atomic (puts first, then deletes), but it can be repeated: when a commit failed and
  a later one succeeds, the contents are the same as if the first had succeeded.
\<close>

theorem commit_retry_correct:
  assumes "active t" "go_ok E kv e g" "\<forall>k\<in>dom (go_map (ops t)). c_key k"
    and "range_order ord (go_map (ops t))" "range_order pord (put_values (go_map (ops t)))"
    and "range_order ord' (go_map (ops t))" "range_order pord' (put_values (go_map (ops t)))"
    and "txn_Commit (BatchPutBytes E tc te) (BatchDelete E tc te) ord pord t g = Some ((Some err, t1), g1)"
    and "txn_Commit (BatchPutBytes E tc te) (BatchDelete E tc te) ord' pord' t1 g1 = Some ((None, t2), g2)"
  shows "go_contents kv e g2 = overlay (go_map (ops t)) (go_contents kv e g)"
  using assms by (rule go.commit_retry)

theorem commit_retry_correct_witness:
  "let t = snd (txn_Delete ''k'' BeginTransaction) in
   \<exists>err t1 g1 t2 g2.
     txn_Commit (BatchPutBytes flaky_env 0 0) (BatchDelete flaky_env 0 0) [''k''] [] t (demo_state 5) =
       Some ((Some err, t1), g1) \<and>
     txn_Commit (BatchPutBytes flaky_env 0 0) (BatchDelete flaky_env 0 0) [''k''] [] t1 g1 =
       Some ((None, t2), g2) \<and>
     go_contents ref_kv 0 g2 = Map.empty"
proof -
  let ?t = "snd (txn_Delete ''k'' BeginTransaction)"
  have t: "?t = \<lparr>ops = Some [''k'' \<mapsto> \<lparr>op_kind = opDelete, op_value = []\<rparr>], committed = False, rolledBack = False\<rparr>"
    by (simp add: txn_Delete_def checkActive_def BeginTransaction_def stage_def go_map_def)
  have a: "active ?t" "\<forall>k\<in>dom (go_map (ops ?t)). c_key k" "range_order [''k''] (go_map (ops ?t))"
    "range_order [] (put_values (go_map (ops ?t)))"
    by (auto simp: t active_def go_map_def c_key_def range_order_def put_values_def split: if_splits)
  have c: "txn_Commit bp bd [''k''] [] ?t g =
      do { (r, g') \<leftarrow> bd [''k''] g;
           case r of Some err \<Rightarrow> Some ((Some (Wrapf ''commit batch delete: %w'' err), ?t), g')
           | None \<Rightarrow> Some ((None, ?t\<lparr>committed := True, ops := None\<rparr>), g') }" for bp bd and g :: "'s"
    unfolding t by (simp add: txn_Commit_def go_map_def items_of_def)
  have cut: "map c_cut [''k''] = [''k'']" by (simp add: c_cut_def)
  note bd = BatchDelete_refines [where E = flaky_env and ks = "[''k'']" and e = 0 and tc = 0 and te = 0,
      unfolded cut, OF _ flaky_allocator]
  from bd [OF demo_live [of 5]] demo_key obtain err g1 where
    1: "BatchDelete flaky_env 0 0 [''k''] (demo_state 5) = Some (Some err, g1)" "live g1 0"
      "lsm (g_world g1) = (ref_init 5)\<lparr>ref_next := 2\<rparr>"
    using demo_live [of 5]
    by (auto simp: flaky_batch_delete ref_init_def go_err_def Let_def)
  from bd [OF 1(2)] 1(3) demo_key obtain g2 where
    2: "BatchDelete flaky_env 0 0 [''k''] g1 = Some (None, g2)"
    by (auto simp: flaky_batch_delete ref_init_def go_err_def Let_def)
  have 3: "txn_Commit (BatchPutBytes flaky_env 0 0) (BatchDelete flaky_env 0 0) [''k''] [] ?t (demo_state 5) =
      Some ((Some (Wrapf ''commit batch delete: %w'' err), ?t), g1)"
    using 1(1) by (simp add: c)
  have 4: "txn_Commit (BatchPutBytes flaky_env 0 0) (BatchDelete flaky_env 0 0) [''k''] [] ?t g1 =
      Some ((None, ?t\<lparr>committed := True, ops := None\<rparr>), g2)"
    using 2 by (simp add: c)
  have "overlay (go_map (ops ?t)) Map.empty = Map.empty"
    by (auto simp: t overlay_def go_map_def fun_eq_iff)
  with commit_retry_correct [OF a(1) flaky_ok a(2-4) a(3,4) 3 4] 3 4 show ?thesis
    unfolding Let_def demo_contents by (intro exI conjI) (assumption | simp)+
qed

text \<open>
  C15. The life of a transaction object: whatever calls of its methods are made, in any order, on any
  engine and whatever it answers, the object is never both committed and rolled back, a finished object
  holds no staged operations, and once it is finished no call changes it. The steps are the calls
  \<^verbatim>\<open>PutBytes\<close>, \<^verbatim>\<open>Put\<close>, \<^verbatim>\<open>Delete\<close>, \<^verbatim>\<open>Commit\<close> and \<^verbatim>\<open>Rollback\<close> themselves, also on a finished object,
  and any change of the engine in between.
\<close>

theorem txn_lifecycle:
  assumes "(txn_step bp bd)\<^sup>*\<^sup>* (BeginTransaction, s0) (t, s :: 's)"
  shows "\<not> (committed t \<and> rolledBack t) \<and> (\<not> active t \<longrightarrow> ops t = None) \<and> finite (dom (go_map (ops t))) \<and>
     (\<not> active t \<longrightarrow> (\<forall>t' s'. (txn_step bp bd)\<^sup>*\<^sup>* (t, s) (t', s') \<longrightarrow> t' = t) \<and>
        snd (txn_PutBytes k v t) = t \<and> snd (txn_Delete k t) = t \<and> snd (txn_Rollback t) = t \<and>
        fst (txn_PutBytes k v t) \<noteq> None \<and> fst (txn_Delete k t) \<noteq> None \<and>
        (\<forall>ord pord r t' s'.
           txn_Commit bp bd ord pord t s = Some ((r, t'), s') \<longrightarrow> t' = t \<and> s' = s \<and> r \<noteq> None))"
proof -
  have inv: "txn_inv t" using assms by (rule txn_inv_reachable)
  show ?thesis
  proof (cases "active t")
    case True
    with inv show ?thesis by (simp add: txn_inv_def)
  next
    case False
    have c: "t' = t \<and> s' = s \<and> r \<noteq> None"
      if "txn_Commit bp bd ord pord t s = Some ((r, t'), s')" for ord pord r t' s'
      using txn_commit_result [OF that] False by simp
    have stuck: "\<forall>t' s'. (txn_step bp bd)\<^sup>*\<^sup>* (t, s) (t', s') \<longrightarrow> t' = t"
      by (intro allI impI) (erule txn_finished_stuck [OF _ False])
    show ?thesis
      using inv [unfolded txn_inv_def] False txn_calls_finished [OF False] stuck c by blast
  qed
qed

theorem txn_lifecycle_witness:
  "\<exists>t s. txn_Commit (\<lambda>items n. Some (None, n + 1)) (\<lambda>ks n. Some (None, n)) [''k''] [''k'']
       (snd (txn_PutBytes ''k'' ''v'' BeginTransaction)) (0 :: nat) = Some ((None, t), s) \<and>
     committed t \<and> ops t = None \<and> s = 1 \<and> snd (txn_PutBytes ''k'' ''w'' t) = t \<and> snd (txn_Rollback t) = t"
proof -
  let ?bp = "\<lambda>items n. Some (None, n + 1 :: nat)" and ?bd = "\<lambda>ks n. Some (None, n :: nat)"
  let ?p = "snd (txn_PutBytes ''k'' ''v'' BeginTransaction)"
  have p: "txn_step ?bp ?bd (BeginTransaction, 0) (?p, 0)"
    by (rule txn_step.put_bytes [where r = "fst (txn_PutBytes ''k'' ''v'' BeginTransaction)"]) simp
  obtain t where c: "txn_Commit ?bp ?bd [''k''] [''k''] ?p 0 = Some ((None, t), 1)" "committed t"
    by (simp add: txn_Commit_def txn_PutBytes_def BeginTransaction_def checkActive_def stage_def go_map_def
        items_of_def List.map_filter_def)
  from p txn_step.commit [OF c(1)] have "(txn_step ?bp ?bd)\<^sup>*\<^sup>* (BeginTransaction, 0) (t, 1)"
    by (meson converse_rtranclp_into_rtranclp rtranclp.rtrancl_refl)
  from txn_lifecycle [OF this, of "''k''" "''w''"] c show ?thesis by (auto simp: active_def)
qed

section \<open>Concurrency\<close>

text \<open>
  C16. No use after free: in every interleaving of calls and closes on one engine object, a goroutine
  that is inside a C call holds a handle whose engine box is live, and no goroutine is closing.
\<close>

theorem no_use_after_free:
  assumes "(go_step E)\<^sup>*\<^sup>* (fresh_system g) S" "live g e" "mu_readers (g_engine g) = 0"
    and "sy_run S i = InCall h"
  shows "(\<exists>e'. heap (g_world (sy_go S)) h = Some (EngineBox e')) \<and> (\<forall>j. \<not> writer (sy_run S j))"
proof -
  from assms(2) have "\<not> mu_writer (g_engine g)" "handle_live g" by (simp_all add: live_def handle_live_def)
  with assms(1,3) have "lock_inv S" by (intro lock_inv_reachable)
  from lock_inv_in_call [OF this assms(4)] show ?thesis by blast
qed

theorem no_use_after_free_witness:
  "\<exists>S. (go_step ref_env)\<^sup>*\<^sup>* (fresh_system (demo_state 5)) S \<and> sy_run S 0 = InCall 2 \<and>
     (\<exists>e'. heap (g_world (sy_go S)) 2 = Some (EngineBox e'))"
proof -
  let ?S0 = "fresh_system (demo_state 5)"
  have "sy_run ?S0 0 = Idle" by (simp add: fresh_system_def)
  moreover obtain g where g: "RLock (sy_go ?S0) = Some g" "handle (g_engine g) = 2" "\<not> F4KVS.closed (g_engine g)"
    by (simp add: RLock_def fresh_system_def demo_state_def new_F4KVS_def)
  ultimately have 1: "go_step ref_env ?S0 (moves 0 RLocked g ?S0)" (is "go_step _ _ ?S1")
    by (intro go_step.call call_step.rlock)
  have 2: "go_step ref_env ?S1 (moves 0 (InCall 2) g ?S1)" (is "go_step _ _ ?S2")
    using go_step.call [OF call_step.enter [of ?S1 0], of ref_env] g by simp
  have r: "(go_step ref_env)\<^sup>*\<^sup>* ?S0 ?S2" using 1 2 by (meson converse_rtranclp_into_rtranclp rtranclp.rtrancl_refl)
  have "mu_readers (g_engine (demo_state 5)) = 0" by (simp add: demo_state_def new_F4KVS_def)
  from no_use_after_free [OF r demo_live this, of 0 2] r show ?thesis by auto
qed

text \<open>
  C17. The handle is freed exactly once: a \<^verbatim>\<open>Close\<close> that holds the write lock and finds a handle can free
  it (the free is not an undefined access), and after a free the handle is null in every later state, so
  no later \<^verbatim>\<open>Close\<close> frees again.
\<close>

theorem handle_freed_once:
  assumes "(go_step E)\<^sup>*\<^sup>* (fresh_system g) S" "live g e" "mu_readers (g_engine g) = 0"
  shows "(\<forall>i. sy_run S i = WLocked \<and> handle (g_engine (sy_go S)) \<noteq> null \<longrightarrow>
       (\<exists>S'. go_step E S S' \<and> sy_run S' i = Freed)) \<and>
     (\<forall>i S'. sy_run S i = Freed \<and> (go_step E)\<^sup>*\<^sup>* S S' \<longrightarrow> handle (g_engine (sy_go S')) = null)"
proof -
  from assms(2) have "\<not> mu_writer (g_engine g)" "handle_live g" by (simp_all add: live_def handle_live_def)
  with assms(1,3) have inv: "lock_inv S" by (intro lock_inv_reachable)
  then have "\<forall>i. sy_run S i = Freed \<longrightarrow> handle (g_engine (sy_go S)) = null" by (simp add: lock_inv_def)
  with inv show ?thesis by (auto intro: close_frees handle_stays_null_star)
qed

theorem handle_freed_once_witness:
  "\<exists>S S'. (go_step ref_env)\<^sup>*\<^sup>* (fresh_system (demo_state 5)) S \<and> sy_run S 0 = WLocked \<and>
     go_step ref_env S S' \<and> sy_run S' 0 = Freed"
proof -
  let ?S0 = "fresh_system (demo_state 5)"
  have "sy_run ?S0 0 = Idle" by (simp add: fresh_system_def)
  moreover obtain g where g: "Lock (sy_go ?S0) = Some g" "handle (g_engine g) = 2"
    by (simp add: Lock_def fresh_system_def demo_state_def new_F4KVS_def)
  ultimately have 1: "go_step ref_env ?S0 (moves 0 WLocked g ?S0)" (is "go_step _ _ ?S1")
    by (intro go_step.close close_step.wlock)
  then have r: "(go_step ref_env)\<^sup>*\<^sup>* ?S0 ?S1" by blast
  have "mu_readers (g_engine (demo_state 5)) = 0" by (simp add: demo_state_def new_F4KVS_def)
  from handle_freed_once [OF r demo_live this] g r show ?thesis by auto
qed

text \<open>
  C18. \<^verbatim>\<open>f4kvs_bytes_free\<close> releases a buffer at most once, however many threads free it and in whatever
  order their critical sections run.
\<close>

theorem bytes_released_once:
  assumes "bytes_free_step\<^sup>*\<^sup>* (calls_start ps r) S"
  shows "distinct (fs_released S) \<and> set (fs_released S) \<inter> dom (fs_reg S) = {}"
  using once_inv_reachable [OF assms once_inv_start] by (simp add: once_inv_def)

theorem bytes_released_once_witness:
  "\<exists>S. bytes_free_step\<^sup>*\<^sup>* (calls_start (\<lambda>_. 5) [5 \<mapsto> 3]) S \<and> fs_call S 0 = Owned 5 \<and>
     distinct (fs_released S) \<and> 5 \<notin> set (fs_released S) \<inter> dom (fs_reg S)"
proof -
  let ?S0 = "calls_start (\<lambda>_. 5) [5 \<mapsto> (3::nat)]"
  have "bytes_free_step ?S0 (goes 0 (Owned 5) Map.empty ?S0)"
    by (rule bytes_free_step.hit [where p = 5 and len = 3]) (simp_all add: calls_start_def bytes_unregister_def)
  then have r: "bytes_free_step\<^sup>*\<^sup>* ?S0 (goes 0 (Owned 5) Map.empty ?S0)" by blast
  from bytes_released_once [OF r] r show ?thesis
    by (intro exI [of _ "goes 0 (Owned 5) Map.empty ?S0"]) (simp add: calls_start_def)
qed

text \<open>
  C19. \<^verbatim>\<open>f4kvs_string_free\<close> does not have this property: two concurrent calls on a registered string can
  both pass the check before either unregisters it, and then both release the string. The header
  promises that a double free is prevented.
\<close>

theorem string_double_release:
  "\<exists>S. string_free_step\<^sup>*\<^sup>* (calls_start (\<lambda>_. Suc n) {Suc n}) S \<and> fs_released S = [Suc n, Suc n]"
proof -
  let ?p = "Suc n"
  let ?S0 = "calls_start (\<lambda>_. ?p) {?p}"
  let ?S1 = "goes 0 (Checked ?p) {?p} ?S0"
  let ?S2 = "goes 1 (Checked ?p) {?p} ?S1"
  let ?S3 = "goes 0 (Owned ?p) {} ?S2"
  let ?S4 = "goes 1 (Owned ?p) {} ?S3"
  let ?S5 = "releases 0 ?p ?S4"
  let ?S6 = "releases 1 ?p ?S5"
  have "string_free_step ?S0 ?S1" "string_free_step ?S1 ?S2"
    using string_free_step.check [of ?S0 0 ?p] string_free_step.check [of ?S1 1 ?p]
    by (simp_all add: calls_start_def str_is_allocated_def)
  moreover have "string_free_step ?S2 ?S3" "string_free_step ?S3 ?S4"
    using string_free_step.unregister [of ?S2 0 ?p] string_free_step.unregister [of ?S3 1 ?p]
    by (simp_all add: str_unregister_def)
  moreover have "string_free_step ?S4 ?S5" "string_free_step ?S5 ?S6"
    using string_free_step.from_raw [of ?S4 0 ?p] string_free_step.from_raw [of ?S5 1 ?p] by simp_all
  ultimately have "string_free_step\<^sup>*\<^sup>* ?S0 ?S6"
    by (meson converse_rtranclp_into_rtranclp rtranclp.rtrancl_refl)
  moreover have "fs_released ?S6 = [?p, ?p]" by (simp add: calls_start_def)
  ultimately show ?thesis by blast
qed

section \<open>Memory handed over the interface\<close>

text \<open>
  C20. On one thread the free functions are total and safe for every pointer, foreign and repeated ones
  included: they never release a block that is not theirs, keep the registries in step with the heap,
  and a second free of the same pointer changes nothing.
\<close>

theorem free_functions_safe:
  assumes "reg_inv w"
  shows "\<exists>w1 w2. f4kvs_string_free p w = Some w1 \<and> reg_inv w1 \<and> f4kvs_string_free p w1 = Some w1 \<and>
     f4kvs_bytes_free p w = Some w2 \<and> reg_inv w2 \<and> f4kvs_bytes_free p w2 = Some w2"
proof -
  from assms obtain w1 where 1: "f4kvs_string_free p w = Some w1" "reg_inv w1" by (rule f4kvs_string_free_total)
  from assms obtain w2 where 2: "f4kvs_bytes_free p w = Some w2" "reg_inv w2" by (rule f4kvs_bytes_free_total)
  have "f4kvs_string_free p w1 = Some w1"
    using 1(1) by (auto simp: f4kvs_string_free_def str_is_allocated_def str_unregister_def drop_block_def Let_def
        split: if_splits option.splits block.splits)
  moreover have "f4kvs_bytes_free p w2 = Some w2"
    using 2(1) by (auto simp: f4kvs_bytes_free_def bytes_unregister_def drop_block_def Let_def
        split: if_splits option.splits block.splits)
  ultimately show ?thesis using 1 2 by blast
qed

theorem free_functions_safe_witness:
  "\<exists>w1 w2. f4kvs_string_free 2 (ref_world 5 :: (ref_lsm, unit) world) = Some w1 \<and>
     f4kvs_string_free 2 w1 = Some w1 \<and>
     f4kvs_bytes_free 2 (ref_world 5 :: (ref_lsm, unit) world) = Some w2 \<and> f4kvs_bytes_free 2 w2 = Some w2"
  using free_functions_safe [OF ref_world_inv [of 5], of 2] by blast

text \<open>
  C21. A failed write reports the message of the failure only when \<^verbatim>\<open>lastError\<close> runs on the OS thread of the
  failed C call; on another thread the error carries whatever that thread's slot held before. The
  methods do not pin the goroutine to its thread between the two C calls.
\<close>

theorem put_error_message:
  assumes "live g e" "fresh_allocator (allocator E)"
    and "fst (api_put E e (c_cut key) v (lsm (g_world g))) = Inl (c, m)"
  shows "\<exists>g'. PutBytes E tc te key v g =
     Some (Some (Errorf ''f4kvs put %q: %s''
       [key, if te = tc then c_message m else lastError te (g_world g)]), g')"
proof -
  from PutBytes_refines [OF assms(1,2), of tc te key v] assms(3) obtain n where
    "PutBytes E tc te key v g =
       (let rx = api_put E e (c_cut key) v (lsm (g_world g)); g' = after tc rx n g in
        Some (go_err ''f4kvs put %q: %s'' [key] te (g_world g') (fst rx), g'))" by blast
  with assms(3) show ?thesis
    by (auto simp: Let_def go_err_def after_def lastError_def f4kvs_get_last_error_def last_error_publish)
qed

theorem put_error_message_witness:
  "\<exists>g' g''. PutBytes ref_env 0 0 [CHR 0xFF] ''v'' (demo_state 5) =
       Some (Some (Errorf ''f4kvs put %q: %s'' [[CHR 0xFF],
         ''Invalid UTF-8 in key: invalid utf-8 sequence of 1 bytes from index 0'']), g') \<and>
     PutBytes ref_env 0 1 [CHR 0xFF] ''v'' (demo_state 5) =
       Some (Some (Errorf ''f4kvs put %q: %s'' [[CHR 0xFF], ''unknown error'']), g'')"
proof -
  have m: "c_message ''Invalid UTF-8 in key: invalid utf-8 sequence of 1 bytes from index 0'' =
      ''Invalid UTF-8 in key: invalid utf-8 sequence of 1 bytes from index 0''"
    by (simp add: c_message_def cstring_new_def)
  have "from_utf8 [CHR 0xFF] = Inl (0, Some 1)"
    "show_utf8_error (0, Some 1) = ''invalid utf-8 sequence of 1 bytes from index 0''" by code_simp+
  then have "check_text MAX_KEY_LENGTH ''key'' [CHR 0xFF] =
      Inl (ErrorInvalidArgument, ''Invalid UTF-8 in key: invalid utf-8 sequence of 1 bytes from index 0'')"
    by (simp add: check_text_def MAX_KEY_LENGTH_def)
  then have f: "fst (api_put ref_env 0 (c_cut [CHR 0xFF]) ''v'' (lsm (g_world (demo_state 5)))) =
      Inl (ErrorInvalidArgument, ''Invalid UTF-8 in key: invalid utf-8 sequence of 1 bytes from index 0'')"
    by (simp add: api_put_def c_cut_def)
  have l: "lastError 1 (g_world (demo_state 5)) = ''unknown error''"
    by (simp add: lastError_def f4kvs_get_last_error_def demo_state_def ref_world_def)
  from put_error_message [OF demo_live ref_env_allocator f, of 0 0]
    put_error_message [OF demo_live ref_env_allocator f, of 0 1] show ?thesis
    unfolding m l by auto
qed

text \<open>
  C22. Two Go keys that agree up to their first NUL byte are one entry of the engine: a value put under
  the one is read under the other. No method rejects a key with a NUL byte.
\<close>

theorem nul_keys_alias:
  assumes "go_ok E kv e g" "c_cut k1 = c_cut k2" "PutBytes E tc te k1 v g = Some (None, g1)"
  shows "\<exists>r g2. GetBytes E tc' te' k2 g1 = Some (r, g2) \<and> (\<forall>v'. r = Inr v' \<longrightarrow> v' = v) \<and> r \<noteq> Inl ErrNotFound"
proof -
  from go_put_total [OF assms(1), of tc te k1 v] assms(3) have
    1: "go_ok E kv e g1" "go_contents kv e g1 = (go_contents kv e g)(c_cut k1 \<mapsto> v)" "length v \<le> MAX_VALUE_LENGTH"
    by auto
  have "length v < 2 ^ 31" using 1(3) by (simp add: MAX_VALUE_LENGTH_def)
  with go_get_cut [OF 1(1), of k2 tc' te'] 1(2) assms(2) show ?thesis by fastforce
qed

theorem nul_keys_alias_witness:
  "\<exists>g1 r g2. PutBytes ref_env 0 0 (''k'' @ [NUL] @ ''one'') ''v'' (demo_state 5) = Some (None, g1) \<and>
     GetBytes ref_env 0 0 (''k'' @ [NUL] @ ''two'') g1 = Some (r, g2) \<and> (\<forall>v'. r = Inr v' \<longrightarrow> v' = ''v'') \<and>
     r \<noteq> Inl ErrNotFound"
proof -
  have c: "c_cut (''k'' @ [NUL] @ ''one'') = ''k''" "c_cut (''k'' @ [NUL] @ ''two'') = ''k''"
    by (simp_all add: c_cut_def)
  obtain g1 where 1: "PutBytes ref_env 0 0 (''k'' @ [NUL] @ ''one'') ''v'' (demo_state 5) = Some (None, g1)"
    using PutBytes_refines [OF demo_live [of 5] ref_env_allocator, of 0 0 "''k'' @ [NUL] @ ''one''" "''v''"] demo_key c
    by (auto simp: ref_api go_err_None Let_def)
  from nul_keys_alias [OF demo_ok _ 1, of "''k'' @ [NUL] @ ''two''" 0 0] c 1 show ?thesis by simp
qed

section \<open>Opening and options\<close>

text \<open>
  C23. Opening from Go: the library is asked for exactly the configuration that \<^verbatim>\<open>apply_open_options\<close>
  computes from the Go options, whatever the padding bytes of the C struct hold; the object is live,
  with an engine of its own, and the path string is freed.
\<close>

theorem open_passes_options:
  assumes "fresh_allocator (allocator E)" "reg_inv w" "c_key path" "valid_utf8 path" "path \<noteq> []"
    and "lsm_new E (engine_config E path (map_option copts_of opts)) (lsm w) = (Inr e, x')"
  shows "\<exists>h w'. NewPersistentEngineWithOptions E pad tc te path opts w = Some (Inr (new_F4KVS h), w') \<and>
     live \<lparr>g_engine = new_F4KVS h, g_world = w'\<rparr> e \<and> lsm w' = x' \<and> arcs w' e = 1 \<and>
     heap w' = (heap w)(h \<mapsto> EngineBox e)"
proof -
  from open_ok [OF assms, of pad tc te] obtain h n where
    o: "NewPersistentEngineWithOptions E pad tc te path opts w =
       Some (Inr (new_F4KVS h),
             w\<lparr>heap := (heap w)(h \<mapsto> EngineBox e), tick := n, arcs := (arcs w)(e := 1), lsm := x'\<rparr>)"
      "1 < h" "heap w h = None" by blast
  from o(1) opened_live [OF assms(2) o(3,2)] show ?thesis
    by (intro exI conjI) (assumption | simp)+
qed

theorem open_passes_options_witness:
  "\<exists>h w'. NewPersistentEngineWithOptions ref_env (\<lambda>_. 7) 0 0 ''d'' (Some (zero_options\<lparr>MaxBatchSize := 3\<rparr>))
       (ref_world 5 :: (ref_lsm, unit) world) = Some (Inr (new_F4KVS h), w') \<and>
     live \<lparr>g_engine = new_F4KVS h, g_world = w'\<rparr> 1 \<and> lsm_max_batch_size ref_env 1 (lsm w') = 3"
proof -
  let ?c = "engine_config (ref_env :: (ref_lsm, unit) env) ''d'' (map_option copts_of (Some (zero_options\<lparr>MaxBatchSize := 3\<rparr>)))"
  obtain x where x: "lsm_new (ref_env :: (ref_lsm, unit) env) ?c (lsm (ref_world 5 :: (ref_lsm, unit) world)) = (Inr 1, x)" "ref_cap x 1 = cfg_max_batch_size ?c"
    by (simp add: ref_env_def ref_world_def ref_init_def)
  have "cfg_max_batch_size ?c = 3"
    by (simp add: engine_config_def apply_max_batch_size copts_of_def zero_options_def Let_def)
  with open_passes_options [OF ref_env_allocator ref_world_inv _ _ _ x(1), of "\<lambda>_. 7" 0 0] x(2) show ?thesis
    by (auto simp: c_key_def valid_utf8_ascii ref_env_def)
qed

text \<open>
  C24. When the library cannot open the directory, the Go error never says why. Whatever the reason \<open>m\<close>, and
  whatever OS threads run the two C calls: when \<^verbatim>\<open>lastError\<close> runs on the thread of the open, the message is
  the fixed text with the result code, since the open functions overwrite the slot; on another thread it
  is what that thread's slot held before the call (or \<^verbatim>\<open>unknown error\<close>). No memory is leaked.
\<close>

theorem open_error_detail_lost:
  assumes "fresh_allocator (allocator E)" "reg_inv w" "c_key path" "valid_utf8 path" "path \<noteq> []"
    and "lsm_new E (engine_config E path (map_option copts_of opts)) (lsm w) = (Inl m, x')"
  shows "\<exists>w'. NewPersistentEngineWithOptions E pad tc te path opts w =
       Some (Inl (Errorf ''f4kvs open %s: %s''
         [path, if te = tc then ''Failed to open engine: ErrorStorage'' else lastError te w]), w') \<and>
     heap w' = heap w \<and> lsm w' = x'"
  using assms by (rule open_failed)

theorem open_error_detail_lost_witness:
  "(\<exists>w'. NewPersistentEngineWithOptions (ref_env\<lparr>lsm_new := (\<lambda>c x. (Inl ''lock held by process 42'', x))\<rparr>)
       (\<lambda>_. 0) 0 0 ''d'' None (ref_world 5 :: (ref_lsm, unit) world) =
     Some (Inl (Errorf ''f4kvs open %s: %s'' [''d'', ''Failed to open engine: ErrorStorage'']), w')) \<and>
   (\<exists>w'. NewPersistentEngineWithOptions (ref_env\<lparr>lsm_new := (\<lambda>c x. (Inl ''lock held by process 42'', x))\<rparr>)
       (\<lambda>_. 0) 0 1 ''d'' None (ref_world 5 :: (ref_lsm, unit) world) =
     Some (Inl (Errorf ''f4kvs open %s: %s'' [''d'', ''unknown error'']), w'))"
proof -
  have "lastError 1 (ref_world 5 :: (ref_lsm, unit) world) = ''unknown error''"
    by (simp add: lastError_def f4kvs_get_last_error_def ref_world_def)
  moreover note lost = open_error_detail_lost [of "ref_env\<lparr>lsm_new := (\<lambda>c x. (Inl ''lock held by process 42'', x))\<rparr>"
      "ref_world 5 :: (ref_lsm, unit) world" "''d''" None "''lock held by process 42''" "lsm (ref_world 5)" "\<lambda>_. 0" 0]
  from lost [of 0] lost [of 1] have
    "\<exists>w'. NewPersistentEngineWithOptions (ref_env\<lparr>lsm_new := (\<lambda>c x. (Inl ''lock held by process 42'', x))\<rparr>)
       (\<lambda>_. 0) 0 0 ''d'' None (ref_world 5 :: (ref_lsm, unit) world) =
     Some (Inl (Errorf ''f4kvs open %s: %s'' [''d'', ''Failed to open engine: ErrorStorage'']), w')"
    "\<exists>w'. NewPersistentEngineWithOptions (ref_env\<lparr>lsm_new := (\<lambda>c x. (Inl ''lock held by process 42'', x))\<rparr>)
       (\<lambda>_. 0) 0 1 ''d'' None (ref_world 5 :: (ref_lsm, unit) world) =
     Some (Inl (Errorf ''f4kvs open %s: %s'' [''d'', lastError 1 (ref_world 5 :: (ref_lsm, unit) world)]), w')"
    by (auto simp: ref_world_inv c_key_def valid_utf8_ascii)
  ultimately show ?thesis by simp
qed

text \<open>
  C25. A caller that fills in \<^verbatim>\<open>struct_size\<close> with at least the size the library knows gets its options
  read back exactly, whatever the padding and whatever newer fields follow.
\<close>

theorem options_roundtrip:
  assumes "48 \<le> unat (oo_struct_size op)"
  shows "read_open_options (Some (encode_options pad op @ ext)) = Some (Some op)"
  using assms by (rule read_versioned_full)

theorem options_roundtrip_witness:
  "read_open_options (Some (encode_options (\<lambda>_. 7) ((copts_of zero_options)\<lparr>oo_struct_size := 52\<rparr>) @ [1, 2, 3, 4])) =
     Some (Some ((copts_of zero_options)\<lparr>oo_struct_size := 52\<rparr>))"
  by (rule options_roundtrip) simp

text \<open>
  C26. The older 44-byte layout is read back through \<^verbatim>\<open>options_from_v0\<close> when the three padding bytes after
  its first field are zero; a non-zero first padding byte makes the reader take the struct for a
  versioned one and copy 48 bytes, past its end.
\<close>

theorem options_legacy:
  assumes "unat (v0_group_commit_enabled op) < 8"
  shows "(pad 1 = 0 \<and> pad 2 = 0 \<and> pad 3 = 0 \<longrightarrow>
       read_open_options (Some (encode_v0 pad op)) = Some (Some (options_from_v0 op))) \<and>
     (pad 1 \<noteq> 0 \<longrightarrow> read_open_options (Some (encode_v0 pad op)) = None)"
  using assms read_legacy [of op pad] read_legacy_padding_overrun [of pad op] by blast

theorem options_legacy_witness:
  "read_open_options (Some (encode_v0 (\<lambda>_. 0) demo_v0)) = Some (Some (options_from_v0 demo_v0)) \<and>
   read_open_options (Some (encode_v0 (\<lambda>_. 1) demo_v0)) = None"
  using options_legacy [of demo_v0 "\<lambda>_. 0"] options_legacy [of demo_v0 "\<lambda>_. 1"] by (simp add: demo_v0_def)

section \<open>The benchmark harness\<close>

text \<open>
  C27. A sliced bulk load returns on a live engine for every slice size and every map order: when it
  reports success, every key has the payload and all other keys their old values; when a slice is
  refused, keys outside the list are untouched.
\<close>

theorem chunked_load_correct:
  assumes "go_ok E kv e g" "visits rng" "\<forall>k\<in>set keys. c_key k"
  shows "\<exists>r g'. batchPutBytesChunked sz (BatchPutBytes E tc te) rng keys payload g = Some (r, g') \<and>
     go_ok E kv e g' \<and>
     (\<forall>k. k \<notin> set keys \<longrightarrow> go_contents kv e g' k = go_contents kv e g k) \<and>
     (r = None \<longrightarrow> (\<forall>k\<in>set keys. go_contents kv e g' k = Some payload))"
proof (cases "keys = []")
  case True
  with assms(1) show ?thesis by (simp add: chunked_step put_slices.simps)
next
  case False
  then have "0 < nat (resolveBatchPutSize (int (length keys)) sz)" by (simp add: resolveBatchPutSize_def)
  from go.put_slices_total [OF assms(2) this assms(1,3)] show ?thesis unfolding chunked_step by blast
qed

theorem chunked_load_correct_witness:
  "\<exists>r g'. batchPutBytesChunked 2 (BatchPutBytes ref_env 0 0) rev [''a'', ''b'', ''c'', ''a''] ''v'' (demo_state 5) =
       Some (r, g') \<and>
     (r = None \<longrightarrow> (\<forall>k\<in>set [''a'', ''b'', ''c'', ''a'']. go_contents ref_kv 0 g' k = Some ''v''))"
proof -
  have "visits rev" "\<forall>k\<in>set [''a'', ''b'', ''c'', ''a'']. c_key k" by (simp_all add: visits_def c_key_def)
  from chunked_load_correct [OF demo_ok [of 5] this, of 2 0 0 "''v''"] show ?thesis by blast
qed

text \<open>
  C28. The options the harness opens an engine with let the engine accept every slice it will write:
  the slice size does not exceed the \<^verbatim>\<open>max_batch_size\<close> of the configuration the C side derives from them,
  for a library whose default is 10000 and fewer than \<open>2 ^ 32\<close> keys (the code converts the size to 32 bits).
  Above 10000 this rests on the option \<^verbatim>\<open>max_batch_size\<close>, which \<^verbatim>\<open>LIMITATIONS.md\<close> says is not exposed.
\<close>

theorem slices_fit_engine:
  assumes "0 \<le> n" "n < 2 ^ 32" "cfg_max_batch_size c = 10000"
  shows "resolveBatchPutSize n sz \<le>
     int (cfg_max_batch_size (apply_open_options ap (map_option copts_of (openOptsForProfile sz base n)) c))"
  unfolding batch_limit_config assms(3) by (rule open_opts_limit [OF assms(1,2)])

theorem slices_fit_engine_witness:
  "resolveBatchPutSize 20000 0 = 20000 \<and>
     20000 \<le> int (cfg_max_batch_size
       (apply_open_options ref_apply_to (map_option copts_of (openOptsForProfile 0 None 20000)) ref_config))"
  using slices_fit_engine [of 20000 ref_config 0 ref_apply_to None]
  by (simp add: resolveBatchPutSize_def ref_config_def)

text \<open>
  C29. What the \<^verbatim>\<open>-profiles\<close> flag selects, for every string: let the parts be the text between its commas
  without the space around it. The first part that is neither empty, a preset nor a known profile decides:
  \<^verbatim>\<open>all\<close> selects everything, any other name is reported as unknown. Without such a part the flag selects the
  union of what its parts stand for (\<^verbatim>\<open>product\<close> the product pair, \<^verbatim>\<open>durable_compare\<close> its four profiles, a name
  itself); a flag with empty parts only is an error, but an empty flag selects everything. A
  value that parses selects at least one profile, only known ones, each once and in the order of the known
  profiles, and exactly those for which \<^verbatim>\<open>wantProfile\<close> holds.
\<close>

theorem parse_profiles_correct:
  "(let parts = map TrimSpace (Split (TrimSpace s) CHR '','') in
    case find (\<lambda>p. \<not> part_valid p) parts of
      Some p \<Rightarrow> parseProfiles s = (if p = ''all'' then Inr [''all''] else Inl (unknown_profile p))
    | None \<Rightarrow>
        if TrimSpace s = [] then parseProfiles s = Inr [''all'']
        else if \<forall>p\<in>set parts. p = [] then parseProfiles s = Inl (Errorf ''empty profiles after parse'' [])
        else \<exists>out. parseProfiles s = Inr out \<and> distinct out \<and>
          set out = (\<Union>p\<in>set parts.
            if p = ''product'' then {''f4kvs_wal_segment'', ''sqlite_wal_full''}
            else if p = ''durable_compare'' then
              {''f4kvs_wal_segment'', ''f4kvs_group_commit_1ms'', ''sqlite_wal_full'', ''sqlite_wal_normal''}
            else if p = [] then {} else {p})) \<and>
   (\<forall>out. parseProfiles s = Inr out \<longrightarrow>
      selectedProfileNames out \<noteq> [] \<and> distinct (selectedProfileNames out) \<and>
      selectedProfileNames out = filter (wantProfile out) knownProfiles)"
proof -
  have p: "part_profiles = (\<lambda>p. if p = ''product'' then {''f4kvs_wal_segment'', ''sqlite_wal_full''}
      else if p = ''durable_compare'' then
        {''f4kvs_wal_segment'', ''f4kvs_group_commit_1ms'', ''sqlite_wal_full'', ''sqlite_wal_normal''}
      else if p = [] then {} else {p})"
    by (simp add: fun_eq_iff part_profiles_def productProfiles_def durableCompareProfiles_def)
  have e: "TrimSpace s = [] \<Longrightarrow> parseProfiles s = Inr [''all''] \<and> part_valid (TrimSpace [])"
    using TrimSpace_Nil by (simp add: parseProfiles_def part_valid_def)
  show ?thesis
  proof (rule conjI)
    show "let parts = map TrimSpace (Split (TrimSpace s) CHR '','') in
      case find (\<lambda>p. \<not> part_valid p) parts of
        Some p \<Rightarrow> parseProfiles s = (if p = ''all'' then Inr [''all''] else Inl (unknown_profile p))
      | None \<Rightarrow>
          if TrimSpace s = [] then parseProfiles s = Inr [''all'']
          else if \<forall>p\<in>set parts. p = [] then parseProfiles s = Inl (Errorf ''empty profiles after parse'' [])
          else \<exists>out. parseProfiles s = Inr out \<and> distinct out \<and>
            set out = (\<Union>p\<in>set parts.
              if p = ''product'' then {''f4kvs_wal_segment'', ''sqlite_wal_full''}
              else if p = ''durable_compare'' then
                {''f4kvs_wal_segment'', ''f4kvs_group_commit_1ms'', ''sqlite_wal_full'', ''sqlite_wal_normal''}
              else if p = [] then {} else {p})"
      using parseProfiles_denotes [of s] e unfolding Let_def flag_denotes_def p
      by (cases "TrimSpace s = []") (auto split: option.splits)
  qed (use selected_want parseProfiles_choice in blast)
qed

theorem parse_profiles_correct_witness:
  "(\<exists>out. parseProfiles ''product, f4kvs_wal_frame'' = Inr out \<and>
      set out = {''f4kvs_wal_segment'', ''sqlite_wal_full'', ''f4kvs_wal_frame''} \<and>
      selectedProfileNames out = filter (wantProfile out) knownProfiles) \<and>
   parseProfiles ''bogus,all'' = Inl (unknown_profile ''bogus'')"
proof -
  have t: "TrimSpace ''product, f4kvs_wal_frame'' = ''product, f4kvs_wal_frame''"
    "TrimSpace ''product'' = ''product''" "TrimSpace '' f4kvs_wal_frame'' = ''f4kvs_wal_frame''"
    "TrimSpace ''bogus,all'' = ''bogus,all''" "TrimSpace ''bogus'' = ''bogus''" "TrimSpace ''all'' = ''all''"
    by (simp_all add: TrimSpace_id TrimSpace_blank graphic_def)
  have v: "part_valid ''product''" "part_valid ''f4kvs_wal_frame''" "\<not> part_valid ''bogus''"
    by (simp_all add: part_valid_def knownProfiles_def)
  note 1 = parse_profiles_correct [of "''product, f4kvs_wal_frame''"]
  note 2 = parse_profiles_correct [of "''bogus,all''"]
  from 1 obtain out where "parseProfiles ''product, f4kvs_wal_frame'' = Inr out"
      "set out = {''f4kvs_wal_segment'', ''sqlite_wal_full'', ''f4kvs_wal_frame''}"
    by (auto simp: t v Let_def)
  with 1 2 show ?thesis by (auto simp: t v Let_def)
qed

end
